(* ===== verification/Go_Prelude.thy ===== *)
theory Go_Prelude
  imports Complex_Main
begin

text \<open>
  The prelude of the development: the parts of the Go language and of its standard
  library that the two services use, and the generic lemmas about them.

  \<^item> Integers: \<open>int\<close> and \<open>int64\<close> values are \<^typ>\<open>int\<close>s, with the two's-complement wrap-around
    of an overflowing operation written out (\<open>wrap64\<close>, \<open>wrap32\<close>); \<open>/\<close> truncates towards
    zero (\<open>go_div\<close>).
  \<^item> \<open>strconv.Atoi\<close>, \<open>strconv.ParseInt(s, 10, 64)\<close> and the \<open>%d\<close> verb of \<open>fmt\<close>; \<open>strings.Split\<close>.
  \<^item> \<open>float64\<close>: a finite value is the real number it denotes; NaN and the infinities are
    values of their own, and comparisons treat them as IEEE 754 does. Rounding is not modelled.
  \<^item> \<open>time.Time\<close> is the number of nanoseconds since the Unix epoch, \<open>time.Duration\<close> an \<open>int64\<close>
    number of nanoseconds.
  \<^item> Channels: a bounded buffer with a closed flag. A send on a closed channel and a second
    \<open>close\<close> panic, as in Go. Rendezvous on a channel of capacity 0 is not modelled: such a
    channel always would block.

  The locale \<open>bounded_fifo\<close> is the interface the pipeline and the WebSocket hub rely on;
  it is interpreted on the channels defined here.
\<close>

named_theorems go_defs \<open>definitions of the Go primitives, unfolded when a closed term is evaluated\<close>

section \<open>Integers\<close>

definition wrap64 :: "int \<Rightarrow> int" where
  "wrap64 x = (x + 2 ^ 63) mod 2 ^ 64 - 2 ^ 63"

definition wrap32 :: "int \<Rightarrow> int" where
  "wrap32 x = (x + 2 ^ 31) mod 2 ^ 32 - 2 ^ 31"

definition in_int64 :: "int \<Rightarrow> bool" where
  "in_int64 x \<longleftrightarrow> - (2 ^ 63) \<le> x \<and> x < 2 ^ 63"

definition go_div :: "int \<Rightarrow> int \<Rightarrow> int" where
  "go_div a b = sgn a * sgn b * (\<bar>a\<bar> div \<bar>b\<bar>)"

section \<open>Strings and numbers\<close>

definition is_digit :: "char \<Rightarrow> bool" where
  "is_digit c \<longleftrightarrow> 48 \<le> (of_char c :: nat) \<and> (of_char c :: nat) \<le> 57"

definition digit_val :: "char \<Rightarrow> int" where
  "digit_val c = int (of_char c) - 48"

fun digits_val :: "int \<Rightarrow> string \<Rightarrow> int option" where
  "digits_val acc [] = Some acc"
| "digits_val acc (c # cs) =
     (if is_digit c then digits_val (acc * 10 + digit_val c) cs else None)"

text \<open>\<open>strconv.ParseInt(s, 10, 64)\<close>: an optional sign, at least one digit, nothing else, and a
  value that fits; every other input is an error (\<open>None\<close>). \<open>strconv.Atoi\<close> accepts the same.\<close>

definition ParseUnsigned :: "string \<Rightarrow> int option" where
  "ParseUnsigned cs = (if cs = [] then None else digits_val 0 cs)"

definition ParseInt :: "string \<Rightarrow> int option" where
  "ParseInt s =
     (let n = (case s of
                 [] \<Rightarrow> None
               | c # cs \<Rightarrow> if c = CHR ''+'' then ParseUnsigned cs
                           else if c = CHR ''-'' then map_option uminus (ParseUnsigned cs)
                           else ParseUnsigned s)
      in case n of None \<Rightarrow> None | Some v \<Rightarrow> if in_int64 v then Some v else None)"

definition Atoi :: "string \<Rightarrow> int option" where
  "Atoi s = ParseInt s"

definition digit_char :: "nat \<Rightarrow> char" where
  "digit_char d = char_of (48 + d)"

fun show_nat :: "nat \<Rightarrow> string" where
  "show_nat n = (if n < 10 then [digit_char n] else show_nat (n div 10) @ [digit_char (n mod 10)])"

declare show_nat.simps [simp del]

text \<open>The verb \<open>%d\<close> of \<open>fmt\<close>.\<close>

definition Itoa :: "int \<Rightarrow> string" where
  "Itoa n = (if n < 0 then CHR ''-'' # show_nat (nat (- n)) else show_nat (nat n))"

text \<open>\<open>strings.Split\<close> with a separator of one byte.\<close>

fun Split :: "char \<Rightarrow> string \<Rightarrow> string list" where
  "Split sep [] = [[]]"
| "Split sep (c # cs) =
     (if c = sep then [] # Split sep cs
      else case Split sep cs of
             [] \<Rightarrow> [[c]]
           | w # ws \<Rightarrow> (c # w) # ws)"

fun Join :: "char \<Rightarrow> string list \<Rightarrow> string" where
  "Join sep [] = []"
| "Join sep [w] = w"
| "Join sep (w # v # ws) = w @ sep # Join sep (v # ws)"

section \<open>Floating-point numbers\<close>

datatype float64 = Fin real | Inf bool | NaN

text \<open>\<open>Inf True\<close> is the positive infinity. A comparison with NaN is false.\<close>

fun f64_less :: "float64 \<Rightarrow> float64 \<Rightarrow> bool" where
  "f64_less (Fin a) (Fin b) \<longleftrightarrow> a < b"
| "f64_less (Fin a) (Inf s) \<longleftrightarrow> s"
| "f64_less (Inf s) (Fin b) \<longleftrightarrow> \<not> s"
| "f64_less (Inf s) (Inf t) \<longleftrightarrow> \<not> s \<and> t"
| "f64_less NaN b \<longleftrightarrow> False"
| "f64_less a NaN \<longleftrightarrow> False"

fun f64_le :: "float64 \<Rightarrow> float64 \<Rightarrow> bool" where
  "f64_le (Fin a) (Fin b) \<longleftrightarrow> a \<le> b"
| "f64_le (Fin a) (Inf s) \<longleftrightarrow> s"
| "f64_le (Inf s) (Fin b) \<longleftrightarrow> \<not> s"
| "f64_le (Inf s) (Inf t) \<longleftrightarrow> \<not> s \<or> t"
| "f64_le NaN b \<longleftrightarrow> False"
| "f64_le a NaN \<longleftrightarrow> False"

fun is_finite :: "float64 \<Rightarrow> bool" where
  "is_finite (Fin a) \<longleftrightarrow> True"
| "is_finite (Inf s) \<longleftrightarrow> False"
| "is_finite NaN \<longleftrightarrow> False"

section \<open>Time\<close>

type_synonym time = int

type_synonym duration = int

definition Nanosecond :: duration where "Nanosecond = 1"

definition Millisecond :: duration where "Millisecond = 1000000"

definition Second :: duration where "Second = 1000000000"

definition Minute :: duration where "Minute = 60000000000"

text \<open>\<open>time.Duration(n) * unit\<close>: an \<open>int64\<close> product.\<close>

definition duration_of :: "int \<Rightarrow> duration \<Rightarrow> duration" where
  "duration_of n unit = wrap64 (n * unit)"

text \<open>\<open>t.Unix()\<close> (whole seconds, rounded down) and \<open>time.Unix(sec, 0)\<close>.\<close>

definition Unix :: "time \<Rightarrow> int" where
  "Unix t = t div Second"

definition time_Unix :: "int \<Rightarrow> time" where
  "time_Unix sec = sec * Second"

text \<open>The zero \<open>time.Time\<close>: 1 January of year 1, UTC.\<close>

definition zero_time :: time where
  "zero_time = - 62135596800 * Second"

text \<open>\<open>t.Sub(u)\<close> saturates at the ends of the \<open>Duration\<close> range.\<close>

definition Sub :: "time \<Rightarrow> time \<Rightarrow> duration" where
  "Sub t u = max (- (2 ^ 63)) (min (2 ^ 63 - 1) (t - u))"

section \<open>Channels\<close>

record 'a chan =
  cbuf :: "'a list"
  ccap :: nat
  cclosed :: bool

datatype 'a send_result = Sent "'a chan" | WouldBlock | SendPanic

datatype 'a recv_result = Received 'a "'a chan" | RecvClosed | RecvEmpty

text \<open>\<open>make(chan T, n)\<close> panics (\<open>None\<close>) on a negative size.\<close>

definition make_chan :: "int \<Rightarrow> 'a chan option" where
  "make_chan n = (if n < 0 then None
                  else Some \<lparr>cbuf = [], ccap = nat n, cclosed = False\<rparr>)"

definition ch_send :: "'a \<Rightarrow> 'a chan \<Rightarrow> 'a send_result" where
  "ch_send x ch =
     (if cclosed ch then SendPanic
      else if length (cbuf ch) < ccap ch then Sent (ch\<lparr>cbuf := cbuf ch @ [x]\<rparr>)
      else WouldBlock)"

definition ch_recv :: "'a chan \<Rightarrow> 'a recv_result" where
  "ch_recv ch =
     (case cbuf ch of
        x # xs \<Rightarrow> Received x (ch\<lparr>cbuf := xs\<rparr>)
      | [] \<Rightarrow> if cclosed ch then RecvClosed else RecvEmpty)"

text \<open>\<open>close(ch)\<close> panics (\<open>None\<close>) when the channel is closed already.\<close>

definition ch_close :: "'a chan \<Rightarrow> 'a chan option" where
  "ch_close ch = (if cclosed ch then None else Some (ch\<lparr>cclosed := True\<rparr>))"

definition chan_ok :: "'a chan \<Rightarrow> bool" where
  "chan_ok ch \<longleftrightarrow> length (cbuf ch) \<le> ccap ch"

lemmas chan_defs = ch_send_def ch_recv_def ch_close_def make_chan_def chan_ok_def

declare wrap64_def [go_defs] wrap32_def [go_defs] in_int64_def [go_defs] go_div_def [go_defs]
  Nanosecond_def [go_defs] Millisecond_def [go_defs] Second_def [go_defs] Minute_def [go_defs]
  duration_of_def [go_defs] Unix_def [go_defs] time_Unix_def [go_defs] zero_time_def [go_defs]
  Sub_def [go_defs]

section \<open>Lemmas\<close>

subsection \<open>Lists with keys\<close>

lemma filter_key:
  "distinct (map f xs) \<Longrightarrow> x \<in> set xs \<Longrightarrow> filter (\<lambda>y. f y = f x) xs = [x]"
proof (induction xs)
  case (Cons y xs)
  show ?case
  proof (cases "x = y")
    case True
    then have "filter (\<lambda>y. f y = f x) xs = []" using Cons.prems(1) by (auto simp: filter_empty_conv image_iff)
    then show ?thesis using True by simp
  next
    case False
    then have "f y \<noteq> f x" using Cons.prems by (auto simp: image_iff)
    then show ?thesis using False Cons by simp
  qed
qed simp

lemma filter_key_cases:
  assumes "distinct (map f xs)"
  obtains "filter (\<lambda>y. f y = a) xs = []" | x where "filter (\<lambda>y. f y = a) xs = [x]" "x \<in> set xs" "f x = a"
proof (cases "\<exists>x\<in>set xs. f x = a")
  case True
  then show ?thesis using filter_key [OF assms] that(2) by metis
next
  case False
  then show ?thesis using that(1) by (simp add: filter_empty_conv)
qed

lemma key_inj: "distinct (map f xs) \<Longrightarrow> x \<in> set xs \<Longrightarrow> y \<in> set xs \<Longrightarrow> f x = f y \<Longrightarrow> x = y"
  by (auto simp: distinct_map dest: inj_onD)

lemma list_all2_list_all:
  "list_all2 R xs ys \<Longrightarrow> list_all P xs \<Longrightarrow> (\<And>x y. R x y \<Longrightarrow> P x \<Longrightarrow> Q y) \<Longrightarrow> list_all Q ys"
  by (induction rule: list_all2_induct) auto

lemma list_all2_map_eq: "list_all2 R xs ys \<Longrightarrow> (\<And>x y. R x y \<Longrightarrow> f y = f x) \<Longrightarrow> map f ys = map f xs"
  by (induction rule: list_all2_induct) auto

lemma list_all2_map_left: "(\<And>x. x \<in> set xs \<Longrightarrow> R x (g x)) \<Longrightarrow> list_all2 R xs (map g xs)"
  by (simp add: list_all2_conv_all_nth)

subsection \<open>Integers\<close>

lemma wrap64_id [simp]: "in_int64 x \<Longrightarrow> wrap64 x = x"
  by (simp add: wrap64_def in_int64_def)

lemma wrap64_range [simp]: "in_int64 (wrap64 x)"
proof -
  have "0 \<le> (x + 2 ^ 63) mod 2 ^ 64" and "(x + 2 ^ 63) mod 2 ^ 64 < (2::int) ^ 64"
    by simp_all
  then show ?thesis by (simp add: wrap64_def in_int64_def)
qed

lemma duration_of_exact:
  "in_int64 (n * unit) \<Longrightarrow> duration_of n unit = n * unit"
  by (simp add: duration_of_def)

lemma go_div_nonneg: "0 \<le> a \<Longrightarrow> 0 < b \<Longrightarrow> go_div a b = a div b"
  by (cases "a = 0") (simp_all add: go_div_def)

lemma Unix_time_Unix [simp]: "Unix (time_Unix s) = s"
  by (simp add: go_defs)

subsection \<open>Printing and parsing integers\<close>

lemma of_char_digit_char: "d < 10 \<Longrightarrow> (of_char (digit_char d) :: nat) = 48 + d"
  by (simp add: digit_char_def)

lemma is_digit_digit_char [simp]: "d < 10 \<Longrightarrow> is_digit (digit_char d)"
  by (simp add: is_digit_def of_char_digit_char)

lemma digit_val_digit_char [simp]: "d < 10 \<Longrightarrow> digit_val (digit_char d) = int d"
  by (simp add: digit_val_def of_char_digit_char)

lemma digits_val_append:
  "digits_val acc (xs @ ys) = Option.bind (digits_val acc xs) (\<lambda>a. digits_val a ys)"
  by (induction xs arbitrary: acc) auto

lemma show_nat_not_Nil [simp]: "show_nat n \<noteq> []"
  by (subst show_nat.simps) simp

lemma digits_val_show_nat: "digits_val 0 (show_nat n) = Some (int n)"
proof (induction n rule: show_nat.induct)
  case (1 n)
  show ?case
  proof (cases "n < 10")
    case True
    then show ?thesis by (simp add: show_nat.simps [of n])
  next
    case False
    with "1.IH" have "digits_val 0 (show_nat n) = Some (int (n div 10) * 10 + int (n mod 10))"
      by (simp add: show_nat.simps [of n] digits_val_append)
    moreover have "int (n div 10) * 10 + int (n mod 10) = int n" by presburger
    ultimately show ?thesis by simp
  qed
qed

lemma show_nat_all_digits: "c \<in> set (show_nat n) \<Longrightarrow> is_digit c"
proof (induction n rule: show_nat.induct)
  case (1 n)
  then show ?case
    by (cases "n < 10") (auto simp: show_nat.simps [of n])
qed

lemma show_nat_Cons: "\<exists>c cs. show_nat n = c # cs \<and> is_digit c"
  by (metis list.exhaust list.set_intros(1) show_nat_all_digits show_nat_not_Nil)

lemma not_digit_sign [simp]: "\<not> is_digit (CHR ''+'')" "\<not> is_digit (CHR ''-'')"
  by (simp_all add: is_digit_def)

lemma ParseUnsigned_show_nat [simp]: "ParseUnsigned (show_nat n) = Some (int n)"
  by (simp add: ParseUnsigned_def digits_val_show_nat)

lemma ParseInt_Itoa: "in_int64 n \<Longrightarrow> ParseInt (Itoa n) = Some n"
proof (cases "n < 0")
  case True
  assume "in_int64 n"
  with True show ?thesis by (simp add: ParseInt_def Itoa_def)
next
  case False
  assume n: "in_int64 n"
  obtain c cs where c: "show_nat (nat n) = c # cs" "is_digit c"
    using show_nat_Cons by blast
  then have "c \<noteq> CHR ''+''" "c \<noteq> CHR ''-''" by auto
  with c n False show ?thesis
    using ParseUnsigned_show_nat [of "nat n"] by (simp add: ParseInt_def Itoa_def)
qed

lemma Itoa_not_Nil [simp]: "Itoa n \<noteq> []"
  by (simp add: Itoa_def)

lemma ParseInt_range: "ParseInt s = Some n \<Longrightarrow> in_int64 n"
  by (auto simp: ParseInt_def Let_def split: option.splits if_splits)

lemma ParseInt_Nil [simp]: "ParseInt [] = None"
  by (simp add: ParseInt_def)

subsection \<open>Splitting and joining\<close>

lemma Split_not_Nil [simp]: "Split sep s \<noteq> []"
  by (cases s) (auto split: list.splits)

lemma Join_Split: "Join sep (Split sep s) = s"
proof (induction s)
  case Nil
  then show ?case by simp
next
  case (Cons c cs)
  obtain w ws where "Split sep cs = w # ws"
    by (metis list.exhaust Split_not_Nil)
  with Cons.IH show ?case by (cases ws) auto
qed

lemma Split_no_sep: "w \<in> set (Split sep s) \<Longrightarrow> sep \<notin> set w"
  by (induction s arbitrary: w) (auto split: list.splits if_splits)

subsection \<open>Floating-point comparisons\<close>

lemma f64_less_NaN [simp]: "\<not> f64_less NaN b" "\<not> f64_less a NaN"
  by simp_all (cases a; simp)

lemma f64_less_asym: "f64_less a b \<Longrightarrow> \<not> f64_less b a"
  by (cases a; cases b) auto

lemma f64_not_less_finite:
  "is_finite a \<Longrightarrow> is_finite b \<Longrightarrow> \<not> f64_less a b \<longleftrightarrow> f64_le b a"
  by (cases a; cases b) auto

subsection \<open>Lists and sorting\<close>

lemma concat_snoc [simp]: "concat (xs @ [x]) = concat xs @ x"
  by simp

section \<open>The interface of a bounded first-in first-out buffer\<close>

datatype 'a fifo_op = Enq 'a | Deq

locale bounded_fifo =
  fixes contents :: "'c \<Rightarrow> 'a list"
    and capacity :: "'c \<Rightarrow> nat"
    and enq :: "'a \<Rightarrow> 'c \<Rightarrow> 'c option"
    and deq :: "'c \<Rightarrow> ('a \<times> 'c) option"
  assumes enq_Some: "enq x c = Some c' \<Longrightarrow> contents c' = contents c @ [x]"
    and enq_room: "enq x c = Some c' \<Longrightarrow> length (contents c) < capacity c"
    and enq_capacity: "enq x c = Some c' \<Longrightarrow> capacity c' = capacity c"
    and deq_Some: "deq c = Some (x, c') \<Longrightarrow> contents c = x # contents c'"
    and deq_capacity: "deq c = Some (x, c') \<Longrightarrow> capacity c' = capacity c"
begin

text \<open>A history of operations: the elements sent and received, a refused send and a receive from
  an empty buffer leaving no trace.\<close>

fun run :: "'a fifo_op list \<Rightarrow> 'c \<Rightarrow> 'a list \<times> 'a list \<times> 'c" where
  "run [] c = ([], [], c)"
| "run (Enq x # os) c =
     (case enq x c of
        None \<Rightarrow> run os c
      | Some c' \<Rightarrow> (let (ins, outs, d) = run os c' in (x # ins, outs, d)))"
| "run (Deq # os) c =
     (case deq c of
        None \<Rightarrow> run os c
      | Some (x, c') \<Rightarrow> (let (ins, outs, d) = run os c' in (ins, x # outs, d)))"

lemma fifo_order:
  "run os c = (ins, outs, d) \<Longrightarrow> contents c @ ins = outs @ contents d"
proof (induction os c arbitrary: ins outs d rule: run.induct)
  case (1 c)
  then show ?case by simp
next
  case (2 x os c)
  then show ?case
    by (cases "enq x c") (fastforce simp: enq_Some split: prod.splits)+
next
  case (3 os c)
  then show ?case
    by (cases "deq c") (fastforce simp: deq_Some split: prod.splits)+
qed

lemma fifo_bound:
  "run os c = (ins, outs, d) \<Longrightarrow> length (contents c) \<le> capacity c \<Longrightarrow>
     length (contents d) \<le> capacity d \<and> capacity d = capacity c"
proof (induction os c arbitrary: ins outs d rule: run.induct)
  case (1 c)
  then show ?case by simp
next
  case (2 x os c)
  show ?case
  proof (cases "enq x c")
    case None
    with 2 show ?thesis by simp
  next
    case (Some c')
    then have "length (contents c') \<le> capacity c'" "capacity c' = capacity c"
      using enq_room enq_Some enq_capacity by fastforce+
    with Some 2 show ?thesis by (fastforce split: prod.splits)
  qed
next
  case (3 os c)
  show ?case
  proof (cases "deq c")
    case None
    with 3 show ?thesis by simp
  next
    case (Some p)
    obtain x c' where p: "p = (x, c')" by (cases p)
    with Some have "length (contents c') \<le> capacity c'" "capacity c' = capacity c"
      using deq_Some [of c x c'] deq_capacity [of c x c'] 3(3) 3(4) by fastforce+
    with Some p 3 show ?thesis by (fastforce split: prod.splits)
  qed
qed

end

definition chan_enq :: "'a \<Rightarrow> 'a chan \<Rightarrow> 'a chan option" where
  "chan_enq x ch = (case ch_send x ch of Sent ch' \<Rightarrow> Some ch' | WouldBlock \<Rightarrow> None | SendPanic \<Rightarrow> None)"

definition chan_deq :: "'a chan \<Rightarrow> ('a \<times> 'a chan) option" where
  "chan_deq ch = (case ch_recv ch of Received x ch' \<Rightarrow> Some (x, ch') | RecvClosed \<Rightarrow> None | RecvEmpty \<Rightarrow> None)"

interpretation gochan: bounded_fifo cbuf ccap chan_enq chan_deq
  by unfold_locales
    (auto simp: chan_enq_def chan_deq_def ch_send_def ch_recv_def
          split: if_splits list.splits)

end
