(* ===== verification/Ingest_Domain.thy ===== *)
theory Ingest_Domain
  imports Go_Prelude
begin

text \<open>
  The data of the ingestion service (\<open>src/ingestion/internal/domain/telemetry.go\<close>): the
  telemetry message, the alert types and severities (string constants, as in the source) and
  the three default alert rules with their strict thresholds.
\<close>

record TelemetryMessage =
  tm_ReceivedAt :: time
  tm_Timestamp :: time
  tm_VehicleID :: string
  tm_FleetID :: string
  tm_Latitude :: float64
  tm_Longitude :: float64
  tm_SpeedKmh :: float64
  tm_FuelPct :: float64
  tm_EngineTempC :: float64
  tm_BatteryVoltage :: float64
  tm_OdometerKm :: float64
  tm_IsMoving :: bool
  tm_EngineOn :: bool
  tm_RawPayload :: string

type_synonym AlertType = string

definition AlertSpeeding :: AlertType where "AlertSpeeding = ''SPEEDING''"

definition AlertLowFuel :: AlertType where "AlertLowFuel = ''LOW_FUEL''"

definition AlertEngineOverheat :: AlertType where "AlertEngineOverheat = ''ENGINE_OVERHEAT''"

type_synonym AlertSeverity = string

definition SeverityInfo :: AlertSeverity where "SeverityInfo = ''INFO''"

definition SeverityWarning :: AlertSeverity where "SeverityWarning = ''WARNING''"

definition SeverityCritical :: AlertSeverity where "SeverityCritical = ''CRITICAL''"

record AlertRule =
  rule_Type :: AlertType
  rule_Severity :: AlertSeverity
  rule_Evaluator :: "TelemetryMessage \<Rightarrow> bool"

definition DefaultAlertRules :: "AlertRule list" where
  "DefaultAlertRules =
     [\<lparr>rule_Type = AlertSpeeding, rule_Severity = SeverityWarning,
       rule_Evaluator = (\<lambda>m. f64_less (Fin 100) (tm_SpeedKmh m))\<rparr>,
      \<lparr>rule_Type = AlertLowFuel, rule_Severity = SeverityWarning,
       rule_Evaluator = (\<lambda>m. f64_less (tm_FuelPct m) (Fin 10))\<rparr>,
      \<lparr>rule_Type = AlertEngineOverheat, rule_Severity = SeverityCritical,
       rule_Evaluator = (\<lambda>m. f64_less (Fin 100) (tm_EngineTempC m))\<rparr>]"

text \<open>A message for the examples: a lorry at 120 km/h with 5 percent of fuel.\<close>

definition sample_msg :: TelemetryMessage where
  "sample_msg = \<lparr>tm_ReceivedAt = 1700000001 * Second, tm_Timestamp = 1700000000 * Second,
     tm_VehicleID = ''TRUCK-1'', tm_FleetID = ''fleet-a'', tm_Latitude = Fin 19, tm_Longitude = Fin 73,
     tm_SpeedKmh = Fin 120, tm_FuelPct = Fin 5, tm_EngineTempC = Fin 90, tm_BatteryVoltage = Fin 12,
     tm_OdometerKm = Fin 1000, tm_IsMoving = True, tm_EngineOn = True, tm_RawPayload = ''{}''\<rparr>"

lemmas alert_const_defs =
  AlertSpeeding_def AlertLowFuel_def AlertEngineOverheat_def
  SeverityInfo_def SeverityWarning_def SeverityCritical_def

lemma alert_types_distinct [simp]:
  "AlertSpeeding \<noteq> AlertLowFuel" "AlertLowFuel \<noteq> AlertSpeeding"
  "AlertSpeeding \<noteq> AlertEngineOverheat" "AlertEngineOverheat \<noteq> AlertSpeeding"
  "AlertLowFuel \<noteq> AlertEngineOverheat" "AlertEngineOverheat \<noteq> AlertLowFuel"
  by (simp_all add: alert_const_defs)

lemma rule_types_distinct: "distinct (map rule_Type DefaultAlertRules)"
  by (simp add: DefaultAlertRules_def)

end
