(* ===== verification/Go_Json.thy ===== *)
theory Go_Json
  imports Go_Prelude
begin

text \<open>
  JSON values and HTTP responses, as \<open>encoding/json\<close> and \<open>net/http\<close> give them to the services.
  A JSON text is represented by the value it denotes. \<open>json.Marshal\<close> fails exactly on a value
  that holds a NaN or an infinity.
\<close>

datatype json =
    JNull
  | JBool bool
  | JInt int
  | JNum float64
  | JStr string
  | JArr "json list"
  | JObj "(string \<times> json) list"

fun json_ok :: "json \<Rightarrow> bool" where
  "json_ok (JNum x) = is_finite x"
| "json_ok (JArr js) = list_all json_ok js"
| "json_ok (JObj kvs) = list_all (\<lambda>kv. json_ok (snd kv)) kvs"
| "json_ok JNull = True"
| "json_ok (JBool b) = True"
| "json_ok (JInt i) = True"
| "json_ok (JStr s) = True"

definition Marshal :: "json \<Rightarrow> json option" where
  "Marshal j = (if json_ok j then Some j else None)"

text \<open>
  \<open>json.Unmarshal\<close> into a struct: the members of the object are taken in order; a key selects the
  field of that name, letter case aside (ASCII here); \<open>null\<close> leaves a field as it is; a value of
  another type is an error (\<open>None\<close>); a key that names no field is ignored.
\<close>

definition lower_char :: "char \<Rightarrow> char" where
  "lower_char c = (let n = (of_char c :: nat) in if 65 \<le> n \<and> n \<le> 90 then char_of (n + 32) else c)"

definition names_field :: "string \<Rightarrow> string \<Rightarrow> bool" where
  "names_field key field \<longleftrightarrow> map lower_char key = map lower_char field"

fun set_string :: "(string \<Rightarrow> 'a \<Rightarrow> 'a) \<Rightarrow> json \<Rightarrow> 'a \<Rightarrow> 'a option" where
  "set_string f (JStr s) a = Some (f s a)"
| "set_string f JNull a = Some a"
| "set_string f _ a = None"

text \<open>A number whose value no \<open>float64\<close> can hold is an error.\<close>

fun set_float :: "(float64 \<Rightarrow> 'a \<Rightarrow> 'a) \<Rightarrow> json \<Rightarrow> 'a \<Rightarrow> 'a option" where
  "set_float f (JNum x) a = (if is_finite x then Some (f x a) else None)"
| "set_float f (JInt i) a = Some (f (Fin (of_int i)) a)"
| "set_float f JNull a = Some a"
| "set_float f _ a = None"

fun set_bool :: "(bool \<Rightarrow> 'a \<Rightarrow> 'a) \<Rightarrow> json \<Rightarrow> 'a \<Rightarrow> 'a option" where
  "set_bool f (JBool b) a = Some (f b a)"
| "set_bool f JNull a = Some a"
| "set_bool f _ a = None"

fun set_int :: "(int \<Rightarrow> 'a \<Rightarrow> 'a) \<Rightarrow> json \<Rightarrow> 'a \<Rightarrow> 'a option" where
  "set_int f (JInt i) a = (if in_int64 i then Some (f i a) else None)"
| "set_int f JNull a = Some a"
| "set_int f _ a = None"

text \<open>\<open>dec k v a\<close> decodes the value of one member; an error makes the result an error.\<close>

fun decode_members :: "(string \<Rightarrow> json \<Rightarrow> 'a \<Rightarrow> 'a option) \<Rightarrow> (string \<times> json) list \<Rightarrow> 'a \<Rightarrow> 'a option" where
  "decode_members dec [] a = Some a"
| "decode_members dec ((k, v) # kvs) a =
     (case dec k v a of None \<Rightarrow> None | Some a' \<Rightarrow> decode_members dec kvs a')"

fun decode_struct :: "(string \<Rightarrow> json \<Rightarrow> 'a \<Rightarrow> 'a option) \<Rightarrow> json \<Rightarrow> 'a \<Rightarrow> 'a option" where
  "decode_struct dec (JObj kvs) a = decode_members dec kvs a"
| "decode_struct dec JNull a = Some a"
| "decode_struct dec _ a = None"

section \<open>HTTP\<close>

text \<open>What a handler writes: the status line, the content type, the body.\<close>

record response =
  resp_status :: nat
  resp_ctype :: string
  resp_body :: json

abbreviation "StatusOK \<equiv> (200::nat)"
abbreviation "StatusAccepted \<equiv> (202::nat)"
abbreviation "StatusBadRequest \<equiv> (400::nat)"
abbreviation "StatusUnauthorized \<equiv> (401::nat)"
abbreviation "StatusForbidden \<equiv> (403::nat)"
abbreviation "StatusNotFound \<equiv> (404::nat)"
abbreviation "StatusInternalServerError \<equiv> (500::nat)"
abbreviation "StatusServiceUnavailable \<equiv> (503::nat)"

definition json_response :: "nat \<Rightarrow> json \<Rightarrow> response" where
  "json_response status body =
     \<lparr>resp_status = status, resp_ctype = ''application/json'', resp_body = body\<rparr>"

definition error_response :: "nat \<Rightarrow> string \<Rightarrow> response" where
  "error_response status msg = json_response status (JObj [(''error'', JStr msg)])"

lemma resp_status_json [simp]: "resp_status (json_response s b) = s"
  by (simp add: json_response_def)

lemma resp_status_error [simp]: "resp_status (error_response s m) = s"
  by (simp add: error_response_def)

lemma resp_body_json [simp]: "resp_body (json_response s b) = b"
  by (simp add: json_response_def)

lemma Marshal_Some: "Marshal j = Some j' \<longleftrightarrow> json_ok j \<and> j' = j"
  by (auto simp: Marshal_def)

end
