(* ===== verification/Redis_Api.thy ===== *)
theory Redis_Api
  imports Go_Json "HOL-Library.AList"
begin

text \<open>
  The Redis client the services call (\<open>github.com/redis/go-redis/v9\<close>) is not part of the
  repository: it is a parameter of the model, a record of commands over a server state of any
  type \<open>'r\<close>. The locale \<open>redis_server\<close> states the documented behaviour of the commands the code
  relies on, through what a key will hold at a time \<open>t\<close> if no further command runs
  (\<open>view r t k\<close>), the server's clock and the messages published so far. A command may fail
  (a lost connection); what it did to the server is then unknown for its own key and nothing else.

  \<open>mem_redis\<close> is a reference server with expiry, channels and a schedule of failing commands;
  it interprets the locale and serves as the concrete instance in the witnesses.
\<close>

datatype redis_err = RedisNil | RedisErr string

text \<open>An argument of a command, and the text the client sends for it.\<close>

datatype redis_arg = AStr string | AInt int | AFloat float64 | ABool bool

datatype redis_val = RStr string | RHash "(string \<times> string) list"

datatype pipe_cmd =
    PHSet string "(string \<times> redis_arg) list"
  | PExpire string duration
  | PPublish string json

record 'r redis_client =
  arg_text :: "redis_arg \<Rightarrow> string"
  cmd_Ping :: "'r \<Rightarrow> redis_err option \<times> 'r"
  cmd_Get :: "string \<Rightarrow> 'r \<Rightarrow> (redis_err + string) \<times> 'r"
  cmd_Set :: "string \<Rightarrow> string \<Rightarrow> duration \<Rightarrow> 'r \<Rightarrow> redis_err option \<times> 'r"
  cmd_SetNX :: "string \<Rightarrow> string \<Rightarrow> duration \<Rightarrow> 'r \<Rightarrow> (redis_err + bool) \<times> 'r"
  cmd_Del :: "string \<Rightarrow> 'r \<Rightarrow> redis_err option \<times> 'r"
  cmd_HGet :: "string \<Rightarrow> string \<Rightarrow> 'r \<Rightarrow> (redis_err + string) \<times> 'r"
  cmd_HMGet :: "string \<Rightarrow> string list \<Rightarrow> 'r \<Rightarrow> (redis_err + string option list) \<times> 'r"
  cmd_HGetAll :: "string \<Rightarrow> 'r \<Rightarrow> (redis_err + (string \<times> string) list) \<times> 'r"
  cmd_Publish :: "string \<Rightarrow> json \<Rightarrow> 'r \<Rightarrow> redis_err option \<times> 'r"
  cmd_PipeExec :: "bool \<Rightarrow> pipe_cmd list \<Rightarrow> 'r \<Rightarrow> redis_err option \<times> 'r"

type_synonym redis_view = "time \<Rightarrow> string \<Rightarrow> redis_val option"

section \<open>What the commands do to the view\<close>

definition hset_fields :: "(string \<times> string) list \<Rightarrow> (string \<times> string) list \<Rightarrow> (string \<times> string) list" where
  "hset_fields kvs h = fold (\<lambda>kv. AList.update (fst kv) (snd kv)) kvs h"

fun hash_of :: "redis_val option \<Rightarrow> (string \<times> string) list" where
  "hash_of (Some (RHash h)) = h"
| "hash_of (Some (RStr s)) = []"
| "hash_of None = []"

fun is_string :: "redis_val option \<Rightarrow> bool" where
  "is_string (Some (RStr s)) = True"
| "is_string (Some (RHash h)) = False"
| "is_string None = False"

text \<open>\<open>SET k v EX ttl\<close>: a positive \<open>ttl\<close> gives the key a deadline, 0 none.\<close>

definition set_view :: "time \<Rightarrow> string \<Rightarrow> redis_val \<Rightarrow> duration \<Rightarrow> redis_view \<Rightarrow> redis_view" where
  "set_view now k v ttl V =
     (\<lambda>t k'. if k' = k then (if 0 < ttl \<and> now + ttl \<le> t then None else Some v) else V t k')"

definition del_view :: "string \<Rightarrow> redis_view \<Rightarrow> redis_view" where
  "del_view k V = (\<lambda>t k'. if k' = k then None else V t k')"

text \<open>\<open>HSET\<close> keeps the deadline of a key that exists; \<open>EXPIRE\<close> replaces it.\<close>

fun pipe_view :: "(redis_arg \<Rightarrow> string) \<Rightarrow> time \<Rightarrow> pipe_cmd \<Rightarrow> redis_view \<Rightarrow> redis_view" where
  "pipe_view txt now (PHSet k kvs) V =
     (let h = hset_fields (map (\<lambda>kv. (fst kv, txt (snd kv))) kvs) (hash_of (V now k))
      in (\<lambda>t k'. if k' = k
                 then (if V now k \<noteq> None \<and> V t k = None then None else Some (RHash h))
                 else V t k'))"
| "pipe_view txt now (PExpire k ttl) V =
     (\<lambda>t k'. if k' = k
             then (if now + ttl \<le> t then None else V now k)
             else V t k')"
| "pipe_view txt now (PPublish ch p) V = V"

fun pipe_published :: "pipe_cmd list \<Rightarrow> (string \<times> json) list" where
  "pipe_published [] = []"
| "pipe_published (PPublish ch p # cs) = (ch, p) # pipe_published cs"
| "pipe_published (PHSet k kvs # cs) = pipe_published cs"
| "pipe_published (PExpire k ttl # cs) = pipe_published cs"

section \<open>The interface\<close>

locale redis_server =
  fixes rc :: "'r redis_client"
    and view :: "'r \<Rightarrow> redis_view"
    and clock :: "'r \<Rightarrow> time"
    and published :: "'r \<Rightarrow> (string \<times> json) list"
  assumes get_value: "cmd_Get rc k r = (Inr v, r') \<Longrightarrow> view r (clock r) k = Some (RStr v)"
    and get_nil: "cmd_Get rc k r = (Inl RedisNil, r') \<Longrightarrow> view r (clock r) k = None"
    and get_frame: "cmd_Get rc k r = (x4, r') \<Longrightarrow>
          clock r' = clock r \<and> published r' = published r \<and>
          (\<forall>t\<ge>clock r. view r' t = view r t)"
    and setnx_won: "cmd_SetNX rc k v ttl r = (Inr True, r') \<Longrightarrow>
          view r (clock r) k = None \<and>
          (\<forall>t\<ge>clock r. view r' t = set_view (clock r) k (RStr v) ttl (view r) t)"
    and setnx_lost: "cmd_SetNX rc k v ttl r = (Inr False, r') \<Longrightarrow>
          view r (clock r) k \<noteq> None \<and> (\<forall>t\<ge>clock r. view r' t = view r t)"
    and setnx_frame: "cmd_SetNX rc k v ttl r = (x0, r') \<Longrightarrow>
          clock r' = clock r \<and> published r' = published r \<and>
          (\<forall>t\<ge>clock r. \<forall>k'. k' \<noteq> k \<or> view r (clock r) k \<noteq> None \<longrightarrow> view r' t k' = view r t k')"
    and del_done: "cmd_Del rc k r = (None, r') \<Longrightarrow>
          (\<forall>t\<ge>clock r. view r' t = del_view k (view r) t)"
    and del_frame: "cmd_Del rc k r = (x1, r') \<Longrightarrow>
          clock r' = clock r \<and> published r' = published r \<and>
          (\<forall>t\<ge>clock r. \<forall>k'. k' \<noteq> k \<longrightarrow> view r' t k' = view r t k')"
    and publish_done: "cmd_Publish rc ch p r = (None, r') \<Longrightarrow>
          published r' = published r @ [(ch, p)]"
    and publish_frame: "cmd_Publish rc ch p r = (x2, r') \<Longrightarrow>
          clock r' = clock r \<and> (\<forall>t\<ge>clock r. view r' t = view r t)"
    and pipe_done: "cmd_PipeExec rc ctxDone cs r = (None, r') \<Longrightarrow>
          published r' = published r @ pipe_published cs \<and>
          (\<forall>t\<ge>clock r. view r' t = fold (pipe_view (arg_text rc) (clock r)) cs (view r) t)"
    and pipe_frame: "cmd_PipeExec rc ctxDone cs r = (x3, r') \<Longrightarrow> clock r' = clock r"
    and pipe_canceled: "cmd_PipeExec rc True cs r = (x5, r') \<Longrightarrow>
          x5 \<noteq> None \<and> published r' = published r \<and> (\<forall>t\<ge>clock r. view r' t = view r t)"
begin

text \<open>A key claimed with \<open>SETNX\<close> cannot be claimed again before its deadline, and can after it.\<close>

lemma setnx_claim_present:
  assumes "cmd_SetNX rc k v ttl r = (Inr True, r')" "clock r \<le> t" "t < clock r + ttl"
  shows "view r' t k = Some (RStr v)"
  using setnx_won [OF assms(1)] assms(2,3) by (simp add: set_view_def)

lemma setnx_claim_expires:
  assumes "cmd_SetNX rc k v ttl r = (Inr True, r')" "0 < ttl" "clock r + ttl \<le> t"
  shows "view r' t k = None"
proof -
  from assms(2,3) have "clock r \<le> t" by linarith
  with setnx_won [OF assms(1)] assms(2,3) show ?thesis by (simp add: set_view_def)
qed

lemma setnx_twice:
  assumes "cmd_SetNX rc k v ttl r = (Inr True, r')" "0 < ttl"
  shows "cmd_SetNX rc k w ttl' r' \<noteq> (Inr True, r'')"
proof
  assume "cmd_SetNX rc k w ttl' r' = (Inr True, r'')"
  then have "view r' (clock r') k = None" using setnx_won by blast
  moreover have "clock r' = clock r" using setnx_frame [OF assms(1)] by simp
  ultimately show False using setnx_claim_present [OF assms(1), of "clock r"] assms(2) by simp
qed

lemma setnx_after_del:
  assumes "cmd_Del rc k r = (None, r')"
  shows "cmd_SetNX rc k w ttl r' \<noteq> (Inr False, r'')"
proof
  assume "cmd_SetNX rc k w ttl r' = (Inr False, r'')"
  then have "view r' (clock r') k \<noteq> None" using setnx_lost by blast
  moreover have "clock r' = clock r" using del_frame [OF assms] by simp
  ultimately show False using del_done [OF assms] by (simp add: del_view_def)
qed

end

section \<open>A reference server\<close>

record mem_redis =
  mr_now :: time
  mr_keys :: "string \<rightharpoonup> redis_val \<times> time option"
  mr_pub :: "(string \<times> json) list"
  mr_faults :: "bool list"

definition mem_empty :: "time \<Rightarrow> bool list \<Rightarrow> mem_redis" where
  "mem_empty now faults = \<lparr>mr_now = now, mr_keys = Map.empty, mr_pub = [], mr_faults = faults\<rparr>"

fun mem_entry_at :: "(redis_val \<times> time option) option \<Rightarrow> time \<Rightarrow> redis_val option" where
  "mem_entry_at None t = None"
| "mem_entry_at (Some (v, None)) t = Some v"
| "mem_entry_at (Some (v, Some d)) t = (if t < d then Some v else None)"

definition mem_view :: "mem_redis \<Rightarrow> redis_view" where
  "mem_view r t k = mem_entry_at (mr_keys r k) t"

definition mem_advance :: "duration \<Rightarrow> mem_redis \<Rightarrow> mem_redis" where
  "mem_advance d r = r\<lparr>mr_now := mr_now r + d\<rparr>"

text \<open>Each command consumes one entry of the fault schedule; \<open>True\<close> makes it fail unexecuted.\<close>

definition mem_faulty :: "'x \<Rightarrow> (mem_redis \<Rightarrow> 'x \<times> mem_redis) \<Rightarrow> mem_redis \<Rightarrow> 'x \<times> mem_redis" where
  "mem_faulty e f r =
     (case mr_faults r of
        [] \<Rightarrow> f r
      | b # bs \<Rightarrow> if b then (e, r\<lparr>mr_faults := bs\<rparr>) else f (r\<lparr>mr_faults := bs\<rparr>))"

abbreviation "conn_err \<equiv> RedisErr ''connection refused''"
abbreviation "wrong_type \<equiv> RedisErr ''WRONGTYPE''"

definition mem_now :: "mem_redis \<Rightarrow> string \<Rightarrow> redis_val option" where
  "mem_now r k = mem_view r (mr_now r) k"

definition mem_deadline :: "mem_redis \<Rightarrow> duration \<Rightarrow> time option" where
  "mem_deadline r ttl = (if 0 < ttl then Some (mr_now r + ttl) else None)"

definition mem_Get :: "string \<Rightarrow> mem_redis \<Rightarrow> (redis_err + string) \<times> mem_redis" where
  "mem_Get k = mem_faulty (Inl conn_err)
     (\<lambda>r. (case mem_now r k of
             None \<Rightarrow> Inl RedisNil
           | Some (RStr s) \<Rightarrow> Inr s
           | Some (RHash h) \<Rightarrow> Inl wrong_type, r))"

definition mem_Set :: "string \<Rightarrow> string \<Rightarrow> duration \<Rightarrow> mem_redis \<Rightarrow> redis_err option \<times> mem_redis" where
  "mem_Set k v ttl = mem_faulty (Some conn_err)
     (\<lambda>r. (None, r\<lparr>mr_keys := (mr_keys r)(k \<mapsto> (RStr v, mem_deadline r ttl))\<rparr>))"

definition mem_SetNX :: "string \<Rightarrow> string \<Rightarrow> duration \<Rightarrow> mem_redis \<Rightarrow> (redis_err + bool) \<times> mem_redis" where
  "mem_SetNX k v ttl = mem_faulty (Inl conn_err)
     (\<lambda>r. if mem_now r k = None
          then (Inr True, r\<lparr>mr_keys := (mr_keys r)(k \<mapsto> (RStr v, mem_deadline r ttl))\<rparr>)
          else (Inr False, r))"

definition mem_Del :: "string \<Rightarrow> mem_redis \<Rightarrow> redis_err option \<times> mem_redis" where
  "mem_Del k = mem_faulty (Some conn_err) (\<lambda>r. (None, r\<lparr>mr_keys := (mr_keys r)(k := None)\<rparr>))"

definition mem_HGet :: "string \<Rightarrow> string \<Rightarrow> mem_redis \<Rightarrow> (redis_err + string) \<times> mem_redis" where
  "mem_HGet k f = mem_faulty (Inl conn_err)
     (\<lambda>r. (if is_string (mem_now r k) then Inl wrong_type
           else case map_of (hash_of (mem_now r k)) f of None \<Rightarrow> Inl RedisNil | Some v \<Rightarrow> Inr v, r))"

definition mem_HMGet :: "string \<Rightarrow> string list \<Rightarrow> mem_redis \<Rightarrow> (redis_err + string option list) \<times> mem_redis" where
  "mem_HMGet k fs = mem_faulty (Inl conn_err)
     (\<lambda>r. (if is_string (mem_now r k) then Inl wrong_type
           else Inr (map (map_of (hash_of (mem_now r k))) fs), r))"

definition mem_HGetAll :: "string \<Rightarrow> mem_redis \<Rightarrow> (redis_err + (string \<times> string) list) \<times> mem_redis" where
  "mem_HGetAll k = mem_faulty (Inl conn_err)
     (\<lambda>r. (if is_string (mem_now r k) then Inl wrong_type else Inr (hash_of (mem_now r k)), r))"

definition mem_Publish :: "string \<Rightarrow> json \<Rightarrow> mem_redis \<Rightarrow> redis_err option \<times> mem_redis" where
  "mem_Publish ch p = mem_faulty (Some conn_err) (\<lambda>r. (None, r\<lparr>mr_pub := mr_pub r @ [(ch, p)]\<rparr>))"

fun mem_pipe1 :: "(redis_arg \<Rightarrow> string) \<Rightarrow> pipe_cmd \<Rightarrow> mem_redis \<Rightarrow> redis_err option \<times> mem_redis" where
  "mem_pipe1 txt (PHSet k kvs) r =
     (if is_string (mem_now r k) then (Some wrong_type, r)
      else (None, r\<lparr>mr_keys := (mr_keys r)
             (k \<mapsto> (RHash (hset_fields (map (\<lambda>kv. (fst kv, txt (snd kv))) kvs) (hash_of (mem_now r k))),
                   if mem_now r k = None then None else Option.bind (mr_keys r k) snd))\<rparr>))"
| "mem_pipe1 txt (PExpire k ttl) r =
     (case mem_now r k of
        None \<Rightarrow> (None, r\<lparr>mr_keys := (mr_keys r)(k := None)\<rparr>)
      | Some v \<Rightarrow> (None, r\<lparr>mr_keys := (mr_keys r)(k \<mapsto> (v, Some (mr_now r + ttl)))\<rparr>))"
| "mem_pipe1 txt (PPublish ch p) r = (None, r\<lparr>mr_pub := mr_pub r @ [(ch, p)]\<rparr>)"

text \<open>A pipeline runs every command and reports the first error.\<close>

fun mem_pipe :: "(redis_arg \<Rightarrow> string) \<Rightarrow> pipe_cmd list \<Rightarrow> mem_redis \<Rightarrow> redis_err option \<times> mem_redis" where
  "mem_pipe txt [] r = (None, r)"
| "mem_pipe txt (c # cs) r =
     (let (e, r1) = mem_pipe1 txt c r; (e', r2) = mem_pipe txt cs r1
      in (case e of None \<Rightarrow> e' | Some x \<Rightarrow> Some x, r2))"

definition mem_PipeExec :: "(redis_arg \<Rightarrow> string) \<Rightarrow> bool \<Rightarrow> pipe_cmd list \<Rightarrow> mem_redis \<Rightarrow> redis_err option \<times> mem_redis" where
  "mem_PipeExec txt ctxDone cs r =
     (if ctxDone then (Some (RedisErr ''context canceled''), r)
      else mem_faulty (Some conn_err) (mem_pipe txt cs) r)"

definition mem_Ping :: "mem_redis \<Rightarrow> redis_err option \<times> mem_redis" where
  "mem_Ping = mem_faulty (Some conn_err) (\<lambda>r. (None, r))"

text \<open>The text of an argument: the float printer is a parameter, the rest is fixed.\<close>

fun mem_arg_text :: "(float64 \<Rightarrow> string) \<Rightarrow> redis_arg \<Rightarrow> string" where
  "mem_arg_text ft (AStr s) = s"
| "mem_arg_text ft (AInt i) = Itoa i"
| "mem_arg_text ft (AFloat x) = ft x"
| "mem_arg_text ft (ABool b) = (if b then ''1'' else ''0'')"

definition mem_client :: "(float64 \<Rightarrow> string) \<Rightarrow> mem_redis redis_client" where
  "mem_client ft =
     \<lparr>arg_text = mem_arg_text ft, cmd_Ping = mem_Ping, cmd_Get = mem_Get, cmd_Set = mem_Set,
      cmd_SetNX = mem_SetNX, cmd_Del = mem_Del, cmd_HGet = mem_HGet, cmd_HMGet = mem_HMGet, cmd_HGetAll = mem_HGetAll,
      cmd_Publish = mem_Publish, cmd_PipeExec = mem_PipeExec (mem_arg_text ft)\<rparr>"

lemmas mem_cmd_defs =
  mem_Ping_def mem_Get_def mem_Set_def mem_SetNX_def mem_Del_def mem_HGet_def mem_HMGet_def mem_HGetAll_def
  mem_Publish_def mem_PipeExec_def mem_faulty_def

section \<open>The reference server meets the interface\<close>

lemma mem_view_faults [simp]: "mem_view (r\<lparr>mr_faults := bs\<rparr>) = mem_view r"
  by (simp add: mem_view_def fun_eq_iff)

lemma mem_view_pub [simp]: "mem_view (r\<lparr>mr_pub := ps\<rparr>) = mem_view r"
  by (simp add: mem_view_def fun_eq_iff)

lemma mem_now_faults [simp]: "mem_now (r\<lparr>mr_faults := bs\<rparr>) = mem_now r"
  by (simp add: mem_now_def fun_eq_iff)

lemma mem_client_sel [simp]:
  "arg_text (mem_client ft) = mem_arg_text ft"
  "cmd_Ping (mem_client ft) = mem_Ping"
  "cmd_Get (mem_client ft) = mem_Get"
  "cmd_Set (mem_client ft) = mem_Set"
  "cmd_SetNX (mem_client ft) = mem_SetNX"
  "cmd_Del (mem_client ft) = mem_Del"
  "cmd_HGet (mem_client ft) = mem_HGet"
  "cmd_HMGet (mem_client ft) = mem_HMGet"
  "cmd_HGetAll (mem_client ft) = mem_HGetAll"
  "cmd_Publish (mem_client ft) = mem_Publish"
  "cmd_PipeExec (mem_client ft) = mem_PipeExec (mem_arg_text ft)"
  by (simp_all add: mem_client_def)

lemma mem_view_set:
  "mem_view (r\<lparr>mr_keys := (mr_keys r)(k \<mapsto> (v, mem_deadline r ttl))\<rparr>) t =
     set_view (mr_now r) k v ttl (mem_view r) t"
  by (auto simp: mem_view_def set_view_def mem_deadline_def)

lemma mem_view_del:
  "mem_view (r\<lparr>mr_keys := (mr_keys r)(k := None)\<rparr>) t = del_view k (mem_view r) t"
  by (auto simp: mem_view_def del_view_def)

lemma mem_entry_expired: "mem_entry_at e s = None \<Longrightarrow> s \<le> t \<Longrightarrow> mem_entry_at e t = None"
  by (induction e s rule: mem_entry_at.induct) (auto split: if_splits)

lemma mem_entry_same_value:
  "mem_entry_at e s = Some v \<Longrightarrow> mem_entry_at e t \<noteq> None \<Longrightarrow> mem_entry_at e t = Some v"
  by (induction e s rule: mem_entry_at.induct) (auto split: if_splits)

lemma mem_entry_rebind:
  "mem_entry_at e s = Some w \<Longrightarrow>
     mem_entry_at (Some (v, Option.bind e snd)) t = (if mem_entry_at e t = None then None else Some v)"
  by (induction e s rule: mem_entry_at.induct) (auto split: if_splits)

lemma mem_pipe1_clock: "mem_pipe1 txt c r = (e, r') \<Longrightarrow> mr_now r' = mr_now r"
  by (cases c) (auto split: if_splits option.splits)

lemma mem_pipe1_published:
  "mem_pipe1 txt c r = (e, r') \<Longrightarrow> mr_pub r' = mr_pub r @ pipe_published [c]"
  by (cases c) (auto split: if_splits option.splits)

lemma mem_pipe1_view:
  assumes "mem_pipe1 txt c r = (None, r')" "mr_now r \<le> t"
  shows "mem_view r' t = pipe_view txt (mr_now r) c (mem_view r) t"
proof (cases c)
  case (PHSet k kvs)
  with assms show ?thesis
    by (cases "mem_now r k")
       (auto simp: fun_eq_iff mem_view_def mem_now_def Let_def mem_entry_rebind
             split: if_splits)
next
  case (PExpire k ttl)
  with assms show ?thesis
    by (cases "mem_now r k") (auto simp: fun_eq_iff mem_view_def mem_now_def)
next
  case (PPublish ch p)
  with assms show ?thesis by (auto simp: mem_view_def fun_eq_iff)
qed

lemma pipe_published_append [simp]:
  "pipe_published (cs @ ds) = pipe_published cs @ pipe_published ds"
  by (induction cs rule: pipe_published.induct) auto

lemma pipe_published_Cons: "pipe_published (c # cs) = pipe_published [c] @ pipe_published cs"
  by (cases c) auto

text \<open>The effect of a command at a time depends on the view from the clock on only.\<close>

lemma pipe_view_cong:
  "\<forall>t\<ge>now. V t = W t \<Longrightarrow> now \<le> t \<Longrightarrow> pipe_view txt now c V t = pipe_view txt now c W t"
  by (cases c) (auto simp: fun_eq_iff Let_def)

lemma fold_pipe_view_cong:
  "\<forall>t\<ge>now. V t = W t \<Longrightarrow> now \<le> t \<Longrightarrow>
     fold (pipe_view txt now) cs V t = fold (pipe_view txt now) cs W t"
proof (induction cs arbitrary: V W)
  case Nil
  then show ?case by simp
next
  case (Cons c cs)
  then have "\<forall>t\<ge>now. pipe_view txt now c V t = pipe_view txt now c W t"
    using pipe_view_cong by blast
  then show ?case using Cons.IH Cons.prems(2) by simp
qed

lemma mem_pipe_clock: "mem_pipe txt cs r = (e, r') \<Longrightarrow> mr_now r' = mr_now r"
  by (induction cs arbitrary: r e r') (fastforce dest: mem_pipe1_clock split: prod.splits)+

lemma mem_pipe_published:
  "mem_pipe txt cs r = (e, r') \<Longrightarrow> mr_pub r' = mr_pub r @ pipe_published cs"
proof (induction cs arbitrary: r e r')
  case Nil
  then show ?case by simp
next
  case (Cons c cs)
  obtain e1 r1 where 1: "mem_pipe1 txt c r = (e1, r1)" by fastforce
  obtain e2 r2 where 2: "mem_pipe txt cs r1 = (e2, r2)" by fastforce
  from Cons.prems 1 2 have "r' = r2" by simp
  with Cons.IH [OF 2] mem_pipe1_published [OF 1] show ?case
    by (simp add: pipe_published_Cons [of c cs])
qed

lemma mem_pipe_view:
  "mem_pipe txt cs r = (None, r') \<Longrightarrow> mr_now r \<le> t \<Longrightarrow>
     mem_view r' t = fold (pipe_view txt (mr_now r)) cs (mem_view r) t"
proof (induction cs arbitrary: r r')
  case Nil
  then show ?case by simp
next
  case (Cons c cs)
  obtain e1 r1 where 1: "mem_pipe1 txt c r = (e1, r1)" by fastforce
  obtain e2 r2 where 2: "mem_pipe txt cs r1 = (e2, r2)" by fastforce
  from Cons.prems 1 2 have e: "e1 = None" "e2 = None" "r' = r2" by (auto split: option.splits)
  have now: "mr_now r1 = mr_now r" using mem_pipe1_clock [OF 1] .
  have "mem_view r' t = fold (pipe_view txt (mr_now r)) cs (mem_view r1) t"
    using Cons.IH [of r1 r2] 2 e now Cons.prems(2) by simp
  also have "\<dots> = fold (pipe_view txt (mr_now r)) cs (pipe_view txt (mr_now r) c (mem_view r)) t"
    using 1 e by (intro fold_pipe_view_cong) (auto simp: mem_pipe1_view Cons.prems(2))
  finally show ?case by simp
qed

text \<open>A command either failed unexecuted or ran on the same server state, less one scheduled fault.\<close>

lemma mem_faultyE:
  assumes "mem_faulty e f r = (x, r')"
  obtains (failed) bs where "x = e" "r' = r\<lparr>mr_faults := bs\<rparr>"
  | (ran) bs where "f (r\<lparr>mr_faults := bs\<rparr>) = (x, r')"
proof (cases "mr_faults r")
  case Nil
  moreover have "r\<lparr>mr_faults := mr_faults r\<rparr> = r" by (rule mem_redis.equality) simp_all
  ultimately have "f (r\<lparr>mr_faults := mr_faults r\<rparr>) = (x, r')"
    using assms by (simp only: mem_faulty_def list.case)
  then show thesis by (rule ran)
next
  case (Cons b bs)
  then show thesis
    using assms failed ran by (cases b) (auto simp: mem_faulty_def)
qed

lemma mem_SetNX_cases:
  assumes "mem_SetNX k v ttl r = (x, r')"
  shows "(x = Inl conn_err \<and> (\<exists>bs. r' = r\<lparr>mr_faults := bs\<rparr>)) \<or>
         (x = Inr True \<and> mem_now r k = None \<and> mr_now r' = mr_now r \<and> mr_pub r' = mr_pub r \<and>
            (\<forall>t. mem_view r' t = set_view (mr_now r) k (RStr v) ttl (mem_view r) t)) \<or>
         (x = Inr False \<and> mem_now r k \<noteq> None \<and> (\<exists>bs. r' = r\<lparr>mr_faults := bs\<rparr>))"
  using assms unfolding mem_SetNX_def
proof (cases rule: mem_faultyE)
  case (failed bs)
  then show ?thesis by blast
next
  case (ran bs)
  let ?q = "r\<lparr>mr_faults := bs\<rparr>"
  have "mem_view (?q\<lparr>mr_keys := (mr_keys ?q)(k \<mapsto> (RStr v, mem_deadline ?q ttl))\<rparr>) t
          = set_view (mr_now ?q) k (RStr v) ttl (mem_view ?q) t" for t
    by (rule mem_view_set)
  with ran show ?thesis by (cases "mem_now r k = None") auto
qed

interpretation mem: redis_server "mem_client ft" mem_view mr_now mr_pub for ft
proof (unfold_locales, goal_cases)
  case (1 k r v r')
  then have "mem_Get k r = (Inr v, r')" by simp
  then show ?case unfolding mem_Get_def
    by (cases rule: mem_faultyE) (auto simp: mem_now_def split: option.splits redis_val.splits)
next
  case (2 k r r')
  then have "mem_Get k r = (Inl RedisNil, r')" by simp
  then show ?case unfolding mem_Get_def
    by (cases rule: mem_faultyE) (auto simp: mem_now_def split: option.splits redis_val.splits)
next
  case (3 k r x r')
  then have "mem_Get k r = (x, r')" by simp
  then show ?case unfolding mem_Get_def by (cases rule: mem_faultyE) auto
next
  case (4 k v ttl r r')
  then show ?case using mem_SetNX_cases [of k v ttl r "Inr True" r'] by (simp add: mem_now_def)
next
  case (5 k v ttl r r')
  then show ?case using mem_SetNX_cases [of k v ttl r "Inr False" r'] by (auto simp: mem_now_def)
next
  case (6 k v ttl r x r')
  then show ?case using mem_SetNX_cases [of k v ttl r x r'] by (auto simp: set_view_def mem_now_def)
next
  case (7 k r r')
  then have "mem_Del k r = (None, r')" by simp
  then show ?case unfolding mem_Del_def
    by (cases rule: mem_faultyE) (auto simp: mem_view_def del_view_def)
next
  case (8 k r x r')
  then have "mem_Del k r = (x, r')" by simp
  then show ?case unfolding mem_Del_def
    by (cases rule: mem_faultyE) (auto simp: mem_view_def)
next
  case (9 ch p r r')
  then have "mem_Publish ch p r = (None, r')" by simp
  then show ?case unfolding mem_Publish_def by (cases rule: mem_faultyE) auto
next
  case (10 ch p r x r')
  then have "mem_Publish ch p r = (x, r')" by simp
  then show ?case unfolding mem_Publish_def by (cases rule: mem_faultyE) auto
next
  case (11 c cs r r')
  then have "mem_faulty (Some conn_err) (mem_pipe (mem_arg_text ft) cs) r = (None, r')"
    by (simp add: mem_PipeExec_def split: if_splits)
  then show ?case
  proof (cases rule: mem_faultyE)
    case (ran bs)
    then show ?thesis
      using mem_pipe_published [OF ran] mem_pipe_view [OF ran] by simp
  qed simp
next
  case (12 c cs r x r')
  show ?case
  proof (cases c)
    case True
    with 12 show ?thesis by (simp add: mem_PipeExec_def)
  next
    case False
    with 12 have "mem_faulty (Some conn_err) (mem_pipe (mem_arg_text ft) cs) r = (x, r')"
      by (simp add: mem_PipeExec_def)
    then show ?thesis by (cases rule: mem_faultyE) (auto dest: mem_pipe_clock)
  qed
next
  case (13 cs r x r')
  then show ?case by (auto simp: mem_PipeExec_def)
qed

section \<open>Strings and hashes\<close>

text \<open>The laws of the remaining commands, for the jobs and the handlers that read the live state.\<close>

locale redis_store = redis_server +
  assumes set_done: "cmd_Set rc k v ttl r = (None, r') \<Longrightarrow>
          (\<forall>t\<ge>clock r. view r' t = set_view (clock r) k (RStr v) ttl (view r) t)"
    and set_frame: "cmd_Set rc k v ttl r = (x6, r') \<Longrightarrow>
          clock r' = clock r \<and> published r' = published r \<and>
          (\<forall>t\<ge>clock r. \<forall>k'. k' \<noteq> k \<longrightarrow> view r' t k' = view r t k')"
    and hget_value: "cmd_HGet rc k f r = (Inr v, r') \<Longrightarrow> map_of (hash_of (view r (clock r) k)) f = Some v"
    and hget_nil: "cmd_HGet rc k f r = (Inl RedisNil, r') \<Longrightarrow> map_of (hash_of (view r (clock r) k)) f = None"
    and hget_frame: "cmd_HGet rc k f r = (x7, r') \<Longrightarrow>
          clock r' = clock r \<and> published r' = published r \<and> (\<forall>t\<ge>clock r. view r' t = view r t)"
    and hmget_values: "cmd_HMGet rc k fs r = (Inr vs, r') \<Longrightarrow> vs = map (map_of (hash_of (view r (clock r) k))) fs"
    and hmget_frame: "cmd_HMGet rc k fs r = (x8, r') \<Longrightarrow>
          clock r' = clock r \<and> published r' = published r \<and> (\<forall>t\<ge>clock r. view r' t = view r t)"
    and hgetall_value: "cmd_HGetAll rc k r = (Inr h, r') \<Longrightarrow> map_of h = map_of (hash_of (view r (clock r) k))"
    and hgetall_frame: "cmd_HGetAll rc k r = (x9, r') \<Longrightarrow>
          clock r' = clock r \<and> published r' = published r \<and> (\<forall>t\<ge>clock r. view r' t = view r t)"
begin

lemma set_now: "cmd_Set rc k v ttl r = (None, r') \<Longrightarrow> 0 \<le> ttl \<Longrightarrow> view r' (clock r') k = Some (RStr v)"
  using set_done [of k v ttl r r'] set_frame [of k v ttl r None r'] by (simp add: set_view_def)

end

interpretation mem: redis_store "mem_client ft" mem_view mr_now mr_pub for ft
proof (unfold_locales, goal_cases)
  case (1 k v ttl r r')
  then have "mem_Set k v ttl r = (None, r')" by simp
  then show ?case unfolding mem_Set_def by (cases rule: mem_faultyE) (auto simp: mem_view_def set_view_def mem_deadline_def)
next
  case (2 k v ttl r x r')
  then have "mem_Set k v ttl r = (x, r')" by simp
  then show ?case unfolding mem_Set_def by (cases rule: mem_faultyE) (auto simp: mem_view_def)
next
  case (3 k f r v r')
  then have "mem_HGet k f r = (Inr v, r')" by simp
  then show ?case unfolding mem_HGet_def
    by (cases rule: mem_faultyE) (auto simp: mem_now_def split: if_splits option.splits)
next
  case (4 k f r r')
  then have "mem_HGet k f r = (Inl RedisNil, r')" by simp
  then show ?case unfolding mem_HGet_def
    by (cases rule: mem_faultyE) (auto simp: mem_now_def split: if_splits option.splits)
next
  case (5 k f r x r')
  then have "mem_HGet k f r = (x, r')" by simp
  then show ?case unfolding mem_HGet_def by (cases rule: mem_faultyE) auto
next
  case (6 k fs r vs r')
  then have "mem_HMGet k fs r = (Inr vs, r')" by simp
  then show ?case unfolding mem_HMGet_def
    by (cases rule: mem_faultyE) (auto simp: mem_now_def split: if_splits)
next
  case (7 k fs r x r')
  then have "mem_HMGet k fs r = (x, r')" by simp
  then show ?case unfolding mem_HMGet_def by (cases rule: mem_faultyE) auto
next
  case (8 k r h r')
  then have "mem_HGetAll k r = (Inr h, r')" by simp
  then show ?case unfolding mem_HGetAll_def
    by (cases rule: mem_faultyE) (auto simp: mem_now_def split: if_splits)
next
  case (9 k r x r')
  then have "mem_HGetAll k r = (x, r')" by simp
  then show ?case unfolding mem_HGetAll_def by (cases rule: mem_faultyE) auto
qed

end
