(* ===== verification/Schema.thy ===== *)
theory Schema
  imports Go_Json
begin

text \<open>
  The relational schema (\<open>src/ingestion/scripts/init_db/init_db.go\<close>): one record per table,
  with the nullable columns as options, the \<open>CHECK\<close> constraints, and the rolling exclusion
  constraint that keeps two alerts of one vehicle and type at least five minutes apart. An
  SQL statement of the sources is a function from the tables and \<open>NOW()\<close> to its result and the
  new tables. The server (\<open>pg\<close>) runs statements under a schedule of outcomes: a statement
  may fail before it ran, or after it committed (a lost reply); a cancelled context fails it
  without running it.
\<close>

record telemetry_row =
  te_timestamp :: time
  te_received_at :: time
  te_vehicle_id :: string
  te_fleet_id :: string
  te_latitude :: float64
  te_longitude :: float64
  te_speed_kmh :: float64
  te_fuel_pct :: float64
  te_engine_temp_celsius :: float64
  te_battery_voltage :: float64
  te_odometer_km :: float64
  te_is_moving :: bool
  te_engine_on :: bool
  te_raw_payload :: string

record alert_row =
  al_id :: int
  al_vehicle_id :: string
  al_fleet_id :: string
  al_alert_type :: string
  al_severity :: string
  al_triggered_value :: "float64 option"
  al_created_at :: time
  al_acknowledged_at :: "time option"
  al_acknowledged_by :: "string option"
  al_resolved_at :: "time option"
  al_resolved_by :: "string option"

record vehicle_row =
  ve_vehicle_id :: string
  ve_fleet_id :: string
  ve_display_name :: string
  ve_registration_number :: string
  ve_vehicle_type :: string
  ve_capacity_tonnes :: "float64 option"
  ve_manufacture_year :: "int option"
  ve_active :: bool

record driver_row =
  dr_driver_id :: string
  dr_full_name :: string
  dr_phone_number :: string
  dr_license_number :: string
  dr_license_expiry :: string
  dr_active :: bool

record route_row =
  ro_route_id :: string
  ro_route_name :: string
  ro_origin_name :: string
  ro_origin_lat :: float64
  ro_origin_lng :: float64
  ro_destination_name :: string
  ro_destination_lat :: float64
  ro_destination_lng :: float64
  ro_corridor_radius_km :: float64
  ro_total_distance_km :: "float64 option"
  ro_active :: bool

record stop_row =
  st_stop_id :: string
  st_route_id :: string
  st_stop_sequence :: int
  st_stop_name :: string
  st_lat :: float64
  st_lng :: float64
  st_arrival_radius_km :: float64

record fleet_config_row =
  fc_fleet_id :: string
  fc_staleness_threshold_seconds :: int

record trip_row =
  tr_trip_id :: string
  tr_vehicle_id :: string
  tr_driver_id :: string
  tr_route_id :: string
  tr_status :: string
  tr_scheduled_departure :: time
  tr_actual_departure :: "time option"
  tr_completed_at :: "time option"
  tr_created_at :: time

record progress_row =
  pr_trip_id :: string
  pr_stop_id :: string
  pr_status :: string
  pr_arrived_at :: "time option"
  pr_departed_at :: "time option"

record db =
  vehicle_telemetry :: "telemetry_row list"
  vehicle_alerts :: "alert_row list"
  vehicle_alerts_id_seq :: int
  vehicle_registry :: "vehicle_row list"
  driver_registry :: "driver_row list"
  route_registry :: "route_row list"
  route_stops :: "stop_row list"
  fleet_config :: "fleet_config_row list"
  trip :: "trip_row list"
  trip_stop_progress :: "progress_row list"

definition empty_db :: db where
  "empty_db = \<lparr>vehicle_telemetry = [], vehicle_alerts = [], vehicle_alerts_id_seq = 1,
     vehicle_registry = [], driver_registry = [], route_registry = [], route_stops = [],
     fleet_config = [], trip = [], trip_stop_progress = []\<rparr>"

section \<open>Constraints\<close>

definition chk_alert_type :: "string \<Rightarrow> bool" where
  "chk_alert_type s \<longleftrightarrow>
     s \<in> set [''SPEEDING'', ''LOW_FUEL'', ''ENGINE_OVERHEAT'', ''ROUTE_DEVIATION'']"

definition chk_severity :: "string \<Rightarrow> bool" where
  "chk_severity s \<longleftrightarrow> s \<in> set [''INFO'', ''WARNING'', ''CRITICAL'']"

definition chk_trip_status :: "string \<Rightarrow> bool" where
  "chk_trip_status s \<longleftrightarrow> s \<in> set [''SCHEDULED'', ''IN_PROGRESS'', ''COMPLETED'', ''CANCELLED'']"

definition chk_stop_status :: "string \<Rightarrow> bool" where
  "chk_stop_status s \<longleftrightarrow> s \<in> set [''PENDING'', ''ARRIVED'', ''DEPARTED'', ''MISSED'']"

text \<open>\<open>vehicle_alerts_dedup_window_excl\<close>: the half-open ranges of five minutes from the two
  creation times overlap.\<close>

definition dedup_conflict :: "alert_row \<Rightarrow> alert_row \<Rightarrow> bool" where
  "dedup_conflict a b \<longleftrightarrow>
     al_vehicle_id a = al_vehicle_id b \<and> al_alert_type a = al_alert_type b \<and>
     al_created_at a < al_created_at b + 5 * Minute \<and>
     al_created_at b < al_created_at a + 5 * Minute"

fun dedup_window_excl :: "alert_row list \<Rightarrow> bool" where
  "dedup_window_excl [] = True"
| "dedup_window_excl (a # as) = (list_all (\<lambda>b. \<not> dedup_conflict a b) as \<and> dedup_window_excl as)"

definition alerts_wf :: "db \<Rightarrow> bool" where
  "alerts_wf d \<longleftrightarrow>
     distinct (map al_id (vehicle_alerts d)) \<and>
     list_all (\<lambda>a. al_id a < vehicle_alerts_id_seq d) (vehicle_alerts d) \<and>
     list_all (\<lambda>a. chk_alert_type (al_alert_type a) \<and> chk_severity (al_severity a)) (vehicle_alerts d) \<and>
     dedup_window_excl (vehicle_alerts d)"

text \<open>The primary keys of the other tables, and the \<open>CHECK\<close> constraints of trips and of their progress.\<close>

definition registry_wf :: "db \<Rightarrow> bool" where
  "registry_wf d \<longleftrightarrow>
     distinct (map ve_vehicle_id (vehicle_registry d)) \<and> distinct (map dr_driver_id (driver_registry d)) \<and>
     distinct (map ro_route_id (route_registry d)) \<and> distinct (map st_stop_id (route_stops d)) \<and>
     distinct (map fc_fleet_id (fleet_config d)) \<and> distinct (map tr_trip_id (trip d)) \<and>
     distinct (map (\<lambda>p. (pr_trip_id p, pr_stop_id p)) (trip_stop_progress d)) \<and>
     list_all (\<lambda>t. chk_trip_status (tr_status t)) (trip d) \<and>
     list_all (\<lambda>p. chk_stop_status (pr_status p)) (trip_stop_progress d)"

section \<open>Running statements\<close>

datatype sql_err =
    ConnErr
  | CtxCanceled
  | CheckViolation string
  | ExclusionViolation string
  | DataErr string
  | NoRows

datatype outcome = Succeed | FailBefore | FailAfter

record pg =
  pg_db :: db
  pg_now :: time
  pg_plan :: "outcome list"

type_synonym 'x statement = "time \<Rightarrow> db \<Rightarrow> (sql_err + 'x) \<times> db"

text \<open>One statement, in its own transaction: an error of the statement rolls its writes back
  (a statement that returns \<open>Inl\<close> leaves the tables as its function gives them, which is the
  tables it was given but for a consumed sequence value).\<close>

definition pg_run :: "bool \<Rightarrow> 'x statement \<Rightarrow> pg \<Rightarrow> (sql_err + 'x) \<times> pg" where
  "pg_run ctxDone stmt p =
     (if ctxDone then (Inl CtxCanceled, p)
      else (let next = (case pg_plan p of [] \<Rightarrow> Succeed | o' # os \<Rightarrow> o');
                p' = p\<lparr>pg_plan := tl (pg_plan p)\<rparr>
            in case next of
                 FailBefore \<Rightarrow> (Inl ConnErr, p')
               | FailAfter \<Rightarrow> (Inl ConnErr, p'\<lparr>pg_db := snd (stmt (pg_now p) (pg_db p))\<rparr>)
               | Succeed \<Rightarrow> (case stmt (pg_now p) (pg_db p) of (r, d) \<Rightarrow> (r, p'\<lparr>pg_db := d\<rparr>))))"

text \<open>A query reads the tables; \<open>QueryRow\<close> fails with \<open>NoRows\<close> when its result is empty and gives
  the first row otherwise.\<close>

definition pg_query :: "(time \<Rightarrow> db \<Rightarrow> 'x) \<Rightarrow> pg \<Rightarrow> (sql_err + 'x) \<times> pg" where
  "pg_query f p = pg_run False (\<lambda>now d. (Inr (f now d), d)) p"

definition pg_query_row :: "(time \<Rightarrow> db \<Rightarrow> 'x list) \<Rightarrow> pg \<Rightarrow> (sql_err + 'x) \<times> pg" where
  "pg_query_row f p =
     (case pg_query f p of
        (Inl e, p') \<Rightarrow> (Inl e, p')
      | (Inr [], p') \<Rightarrow> (Inl NoRows, p')
      | (Inr (x # xs), p') \<Rightarrow> (Inr x, p'))"

section \<open>Alert statements\<close>

definition new_alert :: "int \<Rightarrow> string \<Rightarrow> string \<Rightarrow> string \<Rightarrow> string \<Rightarrow> float64 \<Rightarrow> time \<Rightarrow> alert_row" where
  "new_alert i vid fid ty sev v now =
     \<lparr>al_id = i, al_vehicle_id = vid, al_fleet_id = fid, al_alert_type = ty, al_severity = sev,
      al_triggered_value = Some v, al_created_at = now, al_acknowledged_at = None,
      al_acknowledged_by = None, al_resolved_at = None, al_resolved_by = None\<rparr>"

definition alert_conflicts :: "alert_row \<Rightarrow> db \<Rightarrow> bool" where
  "alert_conflicts a d \<longleftrightarrow> list_ex (\<lambda>b. dedup_conflict a b) (vehicle_alerts d)"

text \<open>An \<open>INSERT\<close> of one alert: the sequence value is consumed in any case; the \<open>CHECK\<close>
  constraints fail the statement; a conflict with the exclusion constraint makes it do
  nothing under \<open>ON CONFLICT ... DO NOTHING\<close> and fails it otherwise.\<close>

definition insert_alert_row ::
  "bool \<Rightarrow> string \<Rightarrow> string \<Rightarrow> string \<Rightarrow> string \<Rightarrow> float64 \<Rightarrow> nat statement" where
  "insert_alert_row doNothing vid fid ty sev v now d =
     (let i = vehicle_alerts_id_seq d;
          a = new_alert i vid fid ty sev v now;
          d' = d\<lparr>vehicle_alerts_id_seq := i + 1\<rparr>
      in if \<not> chk_alert_type ty then (Inl (CheckViolation ''chk_alert_type''), d')
         else if \<not> chk_severity sev then (Inl (CheckViolation ''chk_severity''), d')
         else if alert_conflicts a d
              then (if doNothing then (Inr 0, d')
                    else (Inl (ExclusionViolation ''vehicle_alerts_dedup_window_excl''), d'))
         else (Inr 1, d'\<lparr>vehicle_alerts := vehicle_alerts d @ [a]\<rparr>))"

text \<open>\<open>UPDATE vehicle_alerts SET ... WHERE ...\<close>: the number of rows affected.\<close>

definition update_alerts ::
  "(alert_row \<Rightarrow> bool) \<Rightarrow> (time \<Rightarrow> alert_row \<Rightarrow> alert_row) \<Rightarrow> nat statement" where
  "update_alerts P f now d =
     (Inr (length (filter P (vehicle_alerts d))),
      d\<lparr>vehicle_alerts := map (\<lambda>a. if P a then f now a else a) (vehicle_alerts d)\<rparr>)"

section \<open>Lemmas\<close>

lemma dedup_conflict_sym: "dedup_conflict a b = dedup_conflict b a"
  by (auto simp: dedup_conflict_def)

lemma dedup_window_excl_append:
  "dedup_window_excl (as @ [b]) \<longleftrightarrow> dedup_window_excl as \<and> list_all (\<lambda>a. \<not> dedup_conflict a b) as"
  by (induction as) (auto simp: list_all_iff)

lemma dedup_window_excl_nth:
  "dedup_window_excl as \<Longrightarrow> i < length as \<Longrightarrow> j < length as \<Longrightarrow> i \<noteq> j \<Longrightarrow>
     \<not> dedup_conflict (as ! i) (as ! j)"
proof (induction as arbitrary: i j)
  case Nil
  then show ?case by simp
next
  case (Cons a as)
  then show ?case
    by (cases i; cases j) (auto simp: list_all_iff dedup_conflict_sym)
qed

text \<open>An update that keeps identity, type, severity and creation time of every row keeps the
  constraints.\<close>

lemma dedup_window_excl_map:
  assumes "\<And>a. al_vehicle_id (f a) = al_vehicle_id a" "\<And>a. al_alert_type (f a) = al_alert_type a"
    "\<And>a. al_created_at (f a) = al_created_at a"
  shows "dedup_window_excl (map f as) = dedup_window_excl as"
  by (induction as) (auto simp: list_all_iff dedup_conflict_def assms)

lemma update_alerts_wf:
  assumes "alerts_wf d" "update_alerts P f now d = (r, d')"
    "\<And>a. al_id (f now a) = al_id a" "\<And>a. al_vehicle_id (f now a) = al_vehicle_id a"
    "\<And>a. al_alert_type (f now a) = al_alert_type a" "\<And>a. al_severity (f now a) = al_severity a"
    "\<And>a. al_created_at (f now a) = al_created_at a"
  shows "alerts_wf d'"
proof -
  let ?g = "\<lambda>a. if P a then f now a else a"
  have "map al_id (map ?g (vehicle_alerts d)) = map al_id (vehicle_alerts d)"
    using assms(3) by simp
  moreover have "dedup_window_excl (map ?g (vehicle_alerts d)) = dedup_window_excl (vehicle_alerts d)"
    by (rule dedup_window_excl_map) (simp_all add: assms)
  moreover have "d' = d\<lparr>vehicle_alerts := map ?g (vehicle_alerts d)\<rparr>"
    using assms(2) by (simp add: update_alerts_def)
  ultimately show ?thesis
    using assms(1,3,5,6) by (auto simp: alerts_wf_def list_all_iff simp del: map_map)
qed

lemma insert_alert_row_wf:
  assumes "alerts_wf d" "insert_alert_row dn vid fid ty sev v now d = (r, d')"
  shows "alerts_wf d'"
proof -
  let ?i = "vehicle_alerts_id_seq d"
  let ?a = "new_alert ?i vid fid ty sev v now"
  have seq: "alerts_wf (d\<lparr>vehicle_alerts_id_seq := ?i + 1\<rparr>)"
    using assms(1) by (fastforce simp: alerts_wf_def list_all_iff)
  show ?thesis
  proof (cases "chk_alert_type ty \<and> chk_severity sev \<and> \<not> alert_conflicts ?a d")
    case True
    then have "d' = d\<lparr>vehicle_alerts_id_seq := ?i + 1, vehicle_alerts := vehicle_alerts d @ [?a]\<rparr>"
      using assms(2) by (simp add: insert_alert_row_def Let_def)
    with True assms(1) show ?thesis
      by (fastforce simp: alerts_wf_def list_all_iff list_ex_iff dedup_window_excl_append
            alert_conflicts_def dedup_conflict_sym new_alert_def)
  next
    case False
    then have "d' = d\<lparr>vehicle_alerts_id_seq := ?i + 1\<rparr>"
      using assms(2) by (auto simp: insert_alert_row_def Let_def split: if_splits)
    with seq show ?thesis by simp
  qed
qed

text \<open>What \<open>pg_run\<close> can do to the tables: nothing, or run the statement once.\<close>

lemma pg_run_db:
  "pg_run c stmt p = (r, p') \<Longrightarrow>
     pg_db p' = pg_db p \<or> pg_db p' = snd (stmt (pg_now p) (pg_db p))"
  by (auto simp: pg_run_def Let_def split: if_splits outcome.splits prod.splits)

lemma pg_run_now: "pg_run c stmt p = (r, p') \<Longrightarrow> pg_now p' = pg_now p"
  by (auto simp: pg_run_def Let_def split: if_splits outcome.splits prod.splits)

lemma pg_run_Inr:
  "pg_run c stmt p = (Inr x, p') \<Longrightarrow>
     \<not> c \<and> fst (stmt (pg_now p) (pg_db p)) = Inr x \<and> pg_db p' = snd (stmt (pg_now p) (pg_db p))"
  by (auto simp: pg_run_def Let_def split: if_splits outcome.splits prod.splits)

lemma pg_run_canceled [simp]: "pg_run True stmt p = (Inl CtxCanceled, p)"
  by (simp add: pg_run_def)

lemma pg_run_wf:
  assumes "\<And>r d'. stmt (pg_now p) (pg_db p) = (r, d') \<Longrightarrow> alerts_wf d'"
    "alerts_wf (pg_db p)" "pg_run c stmt p = (r, p')"
  shows "alerts_wf (pg_db p')"
  using pg_run_db [OF assms(3)] assms(1,2) by (metis surj_pair snd_conv)

lemma pg_query_db: "pg_query f p = (r, p') \<Longrightarrow> pg_db p' = pg_db p \<and> pg_now p' = pg_now p"
  by (auto simp: pg_query_def pg_run_def Let_def split: outcome.splits list.splits)

lemma pg_query_row_db: "pg_query_row f p = (r, p') \<Longrightarrow> pg_db p' = pg_db p \<and> pg_now p' = pg_now p"
  by (auto simp: pg_query_row_def dest!: pg_query_db split: prod.splits sum.splits list.splits)

lemma pg_query_Inr: "pg_query f p = (Inr x, p') \<Longrightarrow> x = f (pg_now p) (pg_db p)"
  by (auto simp: pg_query_def pg_run_def Let_def split: outcome.splits list.splits)

lemma pg_query_row_Inr:
  "pg_query_row f p = (Inr x, p') \<Longrightarrow> \<exists>xs. f (pg_now p) (pg_db p) = x # xs"
  using pg_query_Inr [of f p]
  by (auto simp: pg_query_row_def split: prod.splits sum.splits list.splits)

lemma pg_query_up: "pg_plan p = [] \<Longrightarrow> pg_query f p = (Inr (f (pg_now p) (pg_db p)), p)"
  by (simp add: pg_query_def pg_run_def)

lemma pg_run_up: "pg_plan p = [] \<Longrightarrow>
  pg_run False stmt p = (case stmt (pg_now p) (pg_db p) of (r, d) \<Rightarrow> (r, p\<lparr>pg_db := d\<rparr>))"
  by (simp add: pg_run_def split: prod.splits)

text \<open>A read of the tables: an answer is the truth, and a server that is up answers.\<close>

lemma pg_query_read:
  assumes "pg_query f p = (res, p')"
  shows "pg_db p' = pg_db p" "pg_now p' = pg_now p" "pg_plan p = [] \<Longrightarrow> pg_plan p' = []"
    and "case res of Inl e \<Rightarrow> pg_plan p \<noteq> [] | Inr x \<Rightarrow> x = f (pg_now p) (pg_db p)"
  using assms by (auto simp: pg_query_def pg_run_def Let_def split: outcome.splits list.splits)

lemma pg_query_row_read:
  assumes "pg_query_row f p = (res, p')"
  shows "pg_db p' = pg_db p" "pg_now p' = pg_now p" "pg_plan p = [] \<Longrightarrow> pg_plan p' = []"
    and "case res of Inl e \<Rightarrow> pg_plan p = [] \<longrightarrow> f (pg_now p) (pg_db p) = []
         | Inr x \<Rightarrow> \<exists>xs. f (pg_now p) (pg_db p) = x # xs"
proof -
  obtain q p1 where q: "pg_query f p = (q, p1)" by fastforce
  from assms q have r: "p' = p1" "(\<exists>e. q = Inl e \<and> res = Inl e) \<or> (q = Inr [] \<and> res = Inl NoRows) \<or>
      (\<exists>x xs. q = Inr (x # xs) \<and> res = Inr x)"
    by (auto simp: pg_query_row_def split: sum.splits list.splits)
  then show "pg_db p' = pg_db p" "pg_now p' = pg_now p" "pg_plan p = [] \<Longrightarrow> pg_plan p' = []"
    using pg_query_read [OF q] by auto
  show "case res of Inl e \<Rightarrow> pg_plan p = [] \<longrightarrow> f (pg_now p) (pg_db p) = []
         | Inr x \<Rightarrow> \<exists>xs. f (pg_now p) (pg_db p) = x # xs"
    using r(2) pg_query_read(4) [OF q] by (elim disjE exE conjE) (simp_all, metis)
qed

end
