(* ===== verification/Ingest_Store.thy ===== *)
theory Ingest_Store
  imports Ingest_Domain Redis_Api Schema
begin

text \<open>
  The stores of the ingestion service: the Redis store (\<open>src/ingestion/internal/store/redis.go\<close>)
  over the client interface of \<open>Redis_Api\<close>, and the TimescaleDB store
  (\<open>src/ingestion/internal/store/timescale.go\<close>) over the tables of \<open>Schema\<close>. Errors are wrapped
  with the source's messages.

  The interfaces the pipeline declares (\<open>alertDedupStore\<close>, \<open>alertStore\<close>, \<open>apiKeyStore\<close>) are
  locales; the Redis store is shown to meet its two over every Redis server with the documented
  behaviour (\<open>sublocale\<close>), and the interpretation on the reference server discharges them.
\<close>

section \<open>RedisStore\<close>

definition auth_key :: "string \<Rightarrow> string" where
  "auth_key apiKey = ''vehicle:auth:'' @ apiKey"

definition state_key :: "string \<Rightarrow> string" where
  "state_key vid = ''vehicle:'' @ vid @ '':state''"

definition alert_key :: "string \<Rightarrow> AlertType \<Rightarrow> string" where
  "alert_key vid ty = ''alert:'' @ vid @ '':'' @ ty"

definition telemetry_channel :: "string \<Rightarrow> string" where
  "telemetry_channel fid = ''fleet:'' @ fid @ '':telemetry''"

definition alerts_channel :: "string \<Rightarrow> string" where
  "alerts_channel fid = ''fleet:'' @ fid @ '':alerts''"

fun err_text :: "redis_err \<Rightarrow> string" where
  "err_text RedisNil = ''redis: nil''"
| "err_text (RedisErr s) = s"

text \<open>The map the source builds for one message, as arguments of \<open>HSET\<close> and as JSON.\<close>

definition stateData :: "TelemetryMessage \<Rightarrow> (string \<times> redis_arg) list" where
  "stateData msg =
     [(''vehicle_id'', AStr (tm_VehicleID msg)), (''fleet_id'', AStr (tm_FleetID msg)),
      (''lat'', AFloat (tm_Latitude msg)), (''lng'', AFloat (tm_Longitude msg)),
      (''speed_kmh'', AFloat (tm_SpeedKmh msg)), (''fuel_pct'', AFloat (tm_FuelPct msg)),
      (''engine_temp'', AFloat (tm_EngineTempC msg)), (''battery'', AFloat (tm_BatteryVoltage msg)),
      (''is_moving'', ABool (tm_IsMoving msg)), (''engine_on'', ABool (tm_EngineOn msg)),
      (''timestamp'', AInt (Unix (tm_Timestamp msg))),
      (''received_at'', AInt (Unix (tm_ReceivedAt msg)))]"

fun arg_json :: "redis_arg \<Rightarrow> json" where
  "arg_json (AStr s) = JStr s"
| "arg_json (AInt i) = JInt i"
| "arg_json (AFloat x) = JNum x"
| "arg_json (ABool b) = JBool b"

definition state_json :: "TelemetryMessage \<Rightarrow> json" where
  "state_json msg = JObj (map (\<lambda>kv. (fst kv, arg_json (snd kv))) (stateData msg))"

text \<open>Queueing the three commands of one message; \<open>Inl\<close> is the early return on a failed
  \<open>json.Marshal\<close>, before anything was sent.\<close>

definition queue_state :: "TelemetryMessage \<Rightarrow> string + pipe_cmd list" where
  "queue_state msg =
     (case Marshal (state_json msg) of
        None \<Rightarrow> Inl (''marshal state for '' @ tm_VehicleID msg)
      | Some payload \<Rightarrow>
          Inr [PHSet (state_key (tm_VehicleID msg)) (stateData msg),
               PExpire (state_key (tm_VehicleID msg)) (30 * Second),
               PPublish (telemetry_channel (tm_FleetID msg)) payload])"

fun queue_states :: "TelemetryMessage list \<Rightarrow> string + pipe_cmd list" where
  "queue_states [] = Inr []"
| "queue_states (m # ms) =
     (case queue_state m of
        Inl e \<Rightarrow> Inl e
      | Inr cs \<Rightarrow> (case queue_states ms of Inl e \<Rightarrow> Inl e | Inr ds \<Rightarrow> Inr (cs @ ds)))"

definition PipelineStateUpdates ::
  "'r redis_client \<Rightarrow> bool \<Rightarrow> TelemetryMessage list \<Rightarrow> 'r \<Rightarrow> string option \<times> 'r" where
  "PipelineStateUpdates rc ctxDone msgs r =
     (case queue_states msgs of
        Inl e \<Rightarrow> (Some e, r)
      | Inr cmds \<Rightarrow>
          (case cmd_PipeExec rc ctxDone cmds r of
             (Some e, r') \<Rightarrow> (Some (''redis state pipeline failed: '' @ err_text e), r')
           | (None, r') \<Rightarrow> (None, r')))"

definition PipelineStateUpdate ::
  "'r redis_client \<Rightarrow> bool \<Rightarrow> TelemetryMessage \<Rightarrow> 'r \<Rightarrow> string option \<times> 'r" where
  "PipelineStateUpdate rc ctxDone msg r = PipelineStateUpdates rc ctxDone [msg] r"

definition GetAPIKey :: "'r redis_client \<Rightarrow> string \<Rightarrow> 'r \<Rightarrow> (string + string) \<times> 'r" where
  "GetAPIKey rc apiKey r =
     (case cmd_Get rc (auth_key apiKey) r of
        (Inl RedisNil, r') \<Rightarrow> (Inr [], r')
      | (Inl (RedisErr e), r') \<Rightarrow> (Inl (''redis get api key failed: '' @ e), r')
      | (Inr val, r') \<Rightarrow> (Inr val, r'))"

definition TryClaimAlertDedup ::
  "'r redis_client \<Rightarrow> string \<Rightarrow> AlertType \<Rightarrow> 'r \<Rightarrow> (string + bool) \<times> 'r" where
  "TryClaimAlertDedup rc vid ty r =
     (case cmd_SetNX rc (alert_key vid ty) ''1'' (5 * Minute) r of
        (Inl e, r') \<Rightarrow> (Inl (''claim alert dedup window: '' @ err_text e), r')
      | (Inr claimed, r') \<Rightarrow> (Inr claimed, r'))"

definition ReleaseAlertDedup ::
  "'r redis_client \<Rightarrow> string \<Rightarrow> AlertType \<Rightarrow> 'r \<Rightarrow> string option \<times> 'r" where
  "ReleaseAlertDedup rc vid ty r =
     (case cmd_Del rc (alert_key vid ty) r of
        (Some e, r') \<Rightarrow> (Some (''release alert dedup window: '' @ err_text e), r')
      | (None, r') \<Rightarrow> (None, r'))"

definition PublishAlert :: "'r redis_client \<Rightarrow> string \<Rightarrow> json \<Rightarrow> 'r \<Rightarrow> string option \<times> 'r" where
  "PublishAlert rc fid payload r =
     (case cmd_Publish rc (alerts_channel fid) payload r of
        (Some e, r') \<Rightarrow> (Some (err_text e), r')
      | (None, r') \<Rightarrow> (None, r'))"

section \<open>TimescaleStore\<close>

datatype sql_val = VTime time | VText string | VFloat float64 | VBool bool

definition telemetryColumns :: "string list" where
  "telemetryColumns =
     [''timestamp'', ''vehicle_id'', ''fleet_id'', ''latitude'', ''longitude'', ''speed_kmh'',
      ''fuel_pct'', ''engine_temp_celsius'', ''battery_voltage'', ''odometer_km'', ''is_moving'',
      ''engine_on'', ''raw_payload'']"

definition telemetry_values :: "TelemetryMessage \<Rightarrow> sql_val list" where
  "telemetry_values m =
     [VTime (tm_Timestamp m), VText (tm_VehicleID m), VText (tm_FleetID m),
      VFloat (tm_Latitude m), VFloat (tm_Longitude m), VFloat (tm_SpeedKmh m),
      VFloat (tm_FuelPct m), VFloat (tm_EngineTempC m), VFloat (tm_BatteryVoltage m),
      VFloat (tm_OdometerKm m), VBool (tm_IsMoving m), VBool (tm_EngineOn m),
      VText (tm_RawPayload m)]"

text \<open>The server's side of \<open>COPY vehicle_telemetry (columns) FROM\<close>: each value goes to the column
  named at its position; \<open>received_at\<close> is not among the columns and takes its default, \<open>NOW()\<close>.\<close>

fun col_time :: "(string \<rightharpoonup> sql_val) \<Rightarrow> string \<Rightarrow> time option" where
  "col_time r c = (case r c of Some (VTime t) \<Rightarrow> Some t | _ \<Rightarrow> None)"

fun col_text :: "(string \<rightharpoonup> sql_val) \<Rightarrow> string \<Rightarrow> string option" where
  "col_text r c = (case r c of Some (VText t) \<Rightarrow> Some t | _ \<Rightarrow> None)"

fun col_float :: "(string \<rightharpoonup> sql_val) \<Rightarrow> string \<Rightarrow> float64 option" where
  "col_float r c = (case r c of Some (VFloat t) \<Rightarrow> Some t | _ \<Rightarrow> None)"

fun col_bool :: "(string \<rightharpoonup> sql_val) \<Rightarrow> string \<Rightarrow> bool option" where
  "col_bool r c = (case r c of Some (VBool t) \<Rightarrow> Some t | _ \<Rightarrow> None)"

definition copy_row :: "time \<Rightarrow> string list \<Rightarrow> sql_val list \<Rightarrow> telemetry_row option" where
  "copy_row now cols vals =
     (if length cols \<noteq> length vals then None
      else let r = map_of (zip cols vals) in
        case (col_time r ''timestamp'', col_text r ''vehicle_id'', col_text r ''fleet_id'',
              col_float r ''latitude'', col_float r ''longitude'', col_float r ''speed_kmh'',
              col_float r ''fuel_pct'', col_float r ''engine_temp_celsius'',
              col_float r ''battery_voltage'', col_float r ''odometer_km'',
              col_bool r ''is_moving'', col_bool r ''engine_on'', col_text r ''raw_payload'') of
          (Some ts, Some vid, Some fid, Some la, Some lo, Some sp, Some fu, Some en, Some ba,
           Some od, Some mo, Some eo, Some raw) \<Rightarrow>
             Some \<lparr>te_timestamp = ts, te_received_at = now, te_vehicle_id = vid, te_fleet_id = fid,
                   te_latitude = la, te_longitude = lo, te_speed_kmh = sp, te_fuel_pct = fu,
                   te_engine_temp_celsius = en, te_battery_voltage = ba, te_odometer_km = od,
                   te_is_moving = mo, te_engine_on = eo, te_raw_payload = raw\<rparr>
        | _ \<Rightarrow> None)"

fun copy_rows :: "time \<Rightarrow> string list \<Rightarrow> sql_val list list \<Rightarrow> telemetry_row list option" where
  "copy_rows now cols [] = Some []"
| "copy_rows now cols (v # vs) =
     (case (copy_row now cols v, copy_rows now cols vs) of
        (Some r, Some rs) \<Rightarrow> Some (r # rs)
      | _ \<Rightarrow> None)"

definition copy_telemetry :: "string list \<Rightarrow> sql_val list list \<Rightarrow> nat statement" where
  "copy_telemetry cols rows now d =
     (case copy_rows now cols rows of
        None \<Rightarrow> (Inl (DataErr ''COPY''), d)
      | Some rs \<Rightarrow> (Inr (length rs), d\<lparr>vehicle_telemetry := vehicle_telemetry d @ rs\<rparr>))"

definition BatchInsert :: "bool \<Rightarrow> TelemetryMessage list \<Rightarrow> pg \<Rightarrow> sql_err option \<times> pg" where
  "BatchInsert ctxDone msgs p =
     (if msgs = [] then (None, p)
      else case pg_run ctxDone (copy_telemetry telemetryColumns (map telemetry_values msgs)) p of
             (Inl e, p') \<Rightarrow> (Some e, p')
           | (Inr n, p') \<Rightarrow> (None, p'))"

definition InsertAlert ::
  "string \<Rightarrow> string \<Rightarrow> AlertType \<Rightarrow> AlertSeverity \<Rightarrow> float64 \<Rightarrow> pg \<Rightarrow> sql_err option \<times> pg" where
  "InsertAlert vid fid ty sev v p =
     (case pg_run False (insert_alert_row True vid fid ty sev v) p of
        (Inl e, p') \<Rightarrow> (Some e, p')
      | (Inr n, p') \<Rightarrow> (None, p'))"

section \<open>The interfaces the clients declare\<close>

text \<open>\<open>alertDedupStore\<close>: the claims held, by vehicle and alert type, and the alerts published.
  A claim that reports success was free before and is held after; a refused one was held; a
  release that reports success frees the claim. A failed call may have done its work or not.\<close>

locale alert_dedup_store =
  fixes tryClaim :: "string \<Rightarrow> AlertType \<Rightarrow> 'r \<Rightarrow> (string + bool) \<times> 'r"
    and release :: "string \<Rightarrow> AlertType \<Rightarrow> 'r \<Rightarrow> string option \<times> 'r"
    and publish :: "string \<Rightarrow> json \<Rightarrow> 'r \<Rightarrow> string option \<times> 'r"
    and held :: "'r \<Rightarrow> string \<Rightarrow> AlertType \<Rightarrow> bool"
    and sep :: "string \<Rightarrow> AlertType \<Rightarrow> string \<Rightarrow> AlertType \<Rightarrow> bool"
  assumes claim_won: "tryClaim v ty r = (Inr True, r') \<Longrightarrow> \<not> held r v ty \<and> held r' v ty"
    and claim_lost: "tryClaim v ty r = (Inr False, r') \<Longrightarrow> held r v ty \<and> held r' v ty"
    and claim_keeps: "tryClaim v ty r = (x0, r') \<Longrightarrow> held r v ty \<Longrightarrow> held r' v ty"
    and claim_frame: "tryClaim v ty r = (x1, r') \<Longrightarrow> sep v ty v' ty' \<Longrightarrow> held r' v' ty' = held r v' ty'"
    and release_done: "release v ty r = (None, r') \<Longrightarrow> \<not> held r' v ty"
    and release_frame: "release v ty r = (x2, r') \<Longrightarrow> sep v ty v' ty' \<Longrightarrow> held r' v' ty' = held r v' ty'"
    and publish_keeps: "publish f p r = (x3, r') \<Longrightarrow> held r' = held r"
begin

lemma claim_exclusive:
  "tryClaim v ty r = (Inr True, r') \<Longrightarrow> tryClaim v ty r' \<noteq> (Inr True, r'')"
  using claim_won by blast

lemma reclaim_after_release:
  "release v ty r = (None, r') \<Longrightarrow> tryClaim v ty r' \<noteq> (Inr False, r'')"
  using release_done claim_lost by blast

end

text \<open>\<open>apiKeyStore\<close>: the fleet a key is mapped to; an unknown key is the empty fleet.\<close>

locale api_key_store =
  fixes getAPIKey :: "string \<Rightarrow> 'r \<Rightarrow> (string + string) \<times> 'r"
    and owner :: "'r \<Rightarrow> string \<Rightarrow> string option"
  assumes key_owner: "getAPIKey k r = (Inr f, r') \<Longrightarrow> f \<noteq> [] \<Longrightarrow> owner r k = Some f"
    and key_unknown: "getAPIKey k r = (Inr [], r') \<Longrightarrow> owner r k = None \<or> owner r k = Some []"
    and key_frame: "getAPIKey k r = (x1, r') \<Longrightarrow> owner r' = owner r"

section \<open>Lemmas\<close>

lemma telemetry_values_length: "length (telemetry_values m) = length telemetryColumns"
  by (simp add: telemetry_values_def telemetryColumns_def)

lemma copy_row_telemetry:
  "copy_row now telemetryColumns (telemetry_values m) =
     Some \<lparr>te_timestamp = tm_Timestamp m, te_received_at = now, te_vehicle_id = tm_VehicleID m,
           te_fleet_id = tm_FleetID m, te_latitude = tm_Latitude m, te_longitude = tm_Longitude m,
           te_speed_kmh = tm_SpeedKmh m, te_fuel_pct = tm_FuelPct m,
           te_engine_temp_celsius = tm_EngineTempC m, te_battery_voltage = tm_BatteryVoltage m,
           te_odometer_km = tm_OdometerKm m, te_is_moving = tm_IsMoving m,
           te_engine_on = tm_EngineOn m, te_raw_payload = tm_RawPayload m\<rparr>"
  by (simp add: copy_row_def telemetry_values_def telemetryColumns_def)

text \<open>The whole batch is copied, one row per message, in order.\<close>

definition telemetry_row_of :: "time \<Rightarrow> TelemetryMessage \<Rightarrow> telemetry_row" where
  "telemetry_row_of now m = the (copy_row now telemetryColumns (telemetry_values m))"

lemma copy_rows_telemetry:
  "copy_rows now telemetryColumns (map telemetry_values ms) = Some (map (telemetry_row_of now) ms)"
  by (induction ms) (simp_all add: telemetry_row_of_def copy_row_telemetry)

lemma BatchInsert_ok:
  assumes "BatchInsert c ms p = (None, p')"
  shows "vehicle_telemetry (pg_db p') =
           vehicle_telemetry (pg_db p) @ map (telemetry_row_of (pg_now p)) ms \<and> (ms = [] \<or> \<not> c)"
proof (cases "ms = []")
  case True
  with assms show ?thesis by (simp add: BatchInsert_def)
next
  case False
  with assms obtain n where
    "pg_run c (copy_telemetry telemetryColumns (map telemetry_values ms)) p = (Inr n, p')"
    by (auto simp: BatchInsert_def split: prod.splits sum.splits)
  from pg_run_Inr [OF this] show ?thesis
    by (auto simp: copy_telemetry_def copy_rows_telemetry)
qed

lemma BatchInsert_canceled: "ms \<noteq> [] \<Longrightarrow> BatchInsert True ms p = (Some CtxCanceled, p)"
  by (simp add: BatchInsert_def)

lemma BatchInsert_rows:
  assumes "BatchInsert c ms p = (x, p')"
  shows "vehicle_telemetry (pg_db p') = vehicle_telemetry (pg_db p) \<or>
         vehicle_telemetry (pg_db p') = vehicle_telemetry (pg_db p) @ map (telemetry_row_of (pg_now p)) ms"
proof (cases "ms = []")
  case True
  with assms show ?thesis by (simp add: BatchInsert_def)
next
  case False
  with assms obtain y where
    "pg_run c (copy_telemetry telemetryColumns (map telemetry_values ms)) p = (y, p')"
    by (auto simp: BatchInsert_def split: prod.splits sum.splits)
  from pg_run_db [OF this] show ?thesis
    by (auto simp: copy_telemetry_def copy_rows_telemetry)
qed

lemma BatchInsert_now: "BatchInsert c ms p = (x, p') \<Longrightarrow> pg_now p' = pg_now p"
  by (auto simp: BatchInsert_def dest: pg_run_now split: if_splits prod.splits sum.splits)

lemma InsertAlert_wf:
  assumes "alerts_wf (pg_db p)" "InsertAlert vid fid ty sev v p = (x, p')"
  shows "alerts_wf (pg_db p')"
proof -
  obtain y where y: "pg_run False (insert_alert_row True vid fid ty sev v) p = (y, p')"
    using assms(2) by (auto simp: InsertAlert_def split: prod.splits sum.splits)
  show ?thesis
    by (rule pg_run_wf [OF _ assms(1) y]) (rule insert_alert_row_wf [OF assms(1)])
qed

subsection \<open>Keys\<close>

lemma state_key_inj [simp]: "state_key v = state_key w \<longleftrightarrow> v = w"
  by (simp add: state_key_def)

lemma auth_key_inj [simp]: "auth_key v = auth_key w \<longleftrightarrow> v = w"
  by (simp add: auth_key_def)

lemma append_sep_inj:
  "c \<notin> set b \<Longrightarrow> c \<notin> set b' \<Longrightarrow> a @ c # b = a' @ c # b' \<longleftrightarrow> a = a' \<and> b = b'"
proof (induction a arbitrary: a')
  case Nil
  then show ?case by (cases a') (auto simp: append_eq_Cons_conv)
next
  case (Cons x xs)
  show ?case
  proof (cases a')
    case Nil
    then show ?thesis using Cons.prems by auto
  next
    case (Cons y ys)
    then show ?thesis using Cons.IH [OF Cons.prems, of ys] by simp
  qed
qed

lemma alert_key_inj:
  "CHR '':'' \<notin> set ty \<Longrightarrow> CHR '':'' \<notin> set ty' \<Longrightarrow>
     alert_key v ty = alert_key v' ty' \<longleftrightarrow> v = v' \<and> ty = ty'"
  using append_sep_inj [of "CHR '':''" ty ty' v v'] by (simp add: alert_key_def)

subsection \<open>Hash fields\<close>

lemma map_of_hset_fields: "map_of (hset_fields kvs h) = map_of h ++ map_of (rev kvs)"
  unfolding hset_fields_def
  by (induction kvs arbitrary: h) (auto simp: update_conv' map_add_upd)

lemma hset_fields_mem:
  assumes "distinct (map fst kvs)" "(f, v) \<in> set kvs"
  shows "map_of (hset_fields kvs h) f = Some v"
proof -
  have "distinct (map fst (rev kvs))" using assms(1) by (simp flip: rev_map)
  then have "map_of (rev kvs) f = Some v" using assms(2) by (simp add: map_of_eq_Some_iff)
  then show ?thesis by (simp add: map_of_hset_fields)
qed

lemma stateData_distinct: "distinct (map fst (stateData m))"
  by (simp add: stateData_def)

subsection \<open>A batch of state updates\<close>

lemma queue_states_append:
  "queue_states (ms @ ns) =
     (case queue_states ms of
        Inl e \<Rightarrow> Inl e
      | Inr cs \<Rightarrow> (case queue_states ns of Inl e \<Rightarrow> Inl e | Inr ds \<Rightarrow> Inr (cs @ ds)))"
  by (induction ms) (auto split: sum.splits)

lemma queue_state_Inr:
  "queue_state m = Inr cs \<Longrightarrow>
     cs = [PHSet (state_key (tm_VehicleID m)) (stateData m),
           PExpire (state_key (tm_VehicleID m)) (30 * Second),
           PPublish (telemetry_channel (tm_FleetID m)) (state_json m)]"
  by (auto simp: queue_state_def Marshal_Some split: option.splits)

lemma queue_states_published:
  "queue_states ms = Inr cs \<Longrightarrow>
     pipe_published cs = map (\<lambda>m. (telemetry_channel (tm_FleetID m), state_json m)) ms"
  by (induction ms arbitrary: cs) (auto dest!: queue_state_Inr split: sum.splits)

lemma queue_states_other_key:
  "queue_states ms = Inr cs \<Longrightarrow> \<forall>m\<in>set ms. tm_VehicleID m \<noteq> v \<Longrightarrow>
     fold (pipe_view txt now) cs V t (state_key v) = V t (state_key v)"
  by (induction ms arbitrary: cs V)
     (auto dest!: queue_state_Inr simp: Let_def split: sum.splits)

lemma queue_state_view:
  assumes "queue_state m = Inr cs" "now \<le> t"
  shows "\<exists>h. fold (pipe_view txt now) cs V t (state_key (tm_VehicleID m)) =
               (if t < now + 30 * Second then Some (RHash h) else None) \<and>
             (\<forall>(f, a)\<in>set (stateData m). map_of h f = Some (txt a))"
proof -
  let ?kvs = "map (\<lambda>kv. (fst kv, txt (snd kv))) (stateData m)"
  let ?h = "hset_fields ?kvs (hash_of (V now (state_key (tm_VehicleID m))))"
  have "distinct (map fst ?kvs)" using stateData_distinct [of m] by (simp add: comp_def)
  then have "\<forall>(f, a)\<in>set (stateData m). map_of ?h f = Some (txt a)"
    by (force intro: hset_fields_mem)
  moreover have "fold (pipe_view txt now) cs V t (state_key (tm_VehicleID m)) =
      (if t < now + 30 * Second then Some (RHash ?h) else None)"
    using queue_state_Inr [OF assms(1)] assms(2) by (auto simp: Let_def)
  ultimately show ?thesis by blast
qed

context redis_server
begin

lemma state_update_view:
  assumes "PipelineStateUpdates rc c (ms @ m # ns) r = (None, r')"
    and "\<forall>n\<in>set ns. tm_VehicleID n \<noteq> tm_VehicleID m" and "clock r \<le> t"
  shows "\<exists>h. view r' t (state_key (tm_VehicleID m)) =
               (if t < clock r + 30 * Second then Some (RHash h) else None) \<and>
             (\<forall>(f, a)\<in>set (stateData m). map_of h f = Some (arg_text rc a))"
proof -
  obtain cs c0 ds where q: "queue_states ms = Inr cs" "queue_state m = Inr c0" "queue_states ns = Inr ds"
    and ex: "cmd_PipeExec rc c (cs @ c0 @ ds) r = (None, r')"
    using assms(1)
    by (auto simp: PipelineStateUpdates_def queue_states_append split: sum.splits option.splits prod.splits)
  let ?f = "pipe_view (arg_text rc) (clock r)"
  have "view r' t = fold ?f (cs @ c0 @ ds) (view r) t"
    using pipe_done [OF ex] assms(3) by blast
  then have "view r' t (state_key (tm_VehicleID m)) =
      fold ?f c0 (fold ?f cs (view r)) t (state_key (tm_VehicleID m))"
    using queue_states_other_key [OF q(3) assms(2)] by simp
  then show ?thesis
    using queue_state_view [OF q(2) assms(3)] by simp
qed

lemma state_update_published:
  assumes "PipelineStateUpdates rc c ms r = (None, r')"
  shows "published r' =
           published r @ map (\<lambda>m. (telemetry_channel (tm_FleetID m), state_json m)) ms"
  using assms pipe_done
  by (fastforce simp: PipelineStateUpdates_def queue_states_published
        split: sum.splits option.splits prod.splits)

end

section \<open>The Redis store meets the interfaces\<close>

sublocale redis_server \<subseteq> dedup: alert_dedup_store
    "TryClaimAlertDedup rc" "ReleaseAlertDedup rc" "PublishAlert rc"
    "\<lambda>r v ty. view r (clock r) (alert_key v ty) \<noteq> None"
    "\<lambda>v ty v' ty'. alert_key v ty \<noteq> alert_key v' ty'"
proof (unfold_locales, goal_cases)
  case (1 v ty r r')
  then have "cmd_SetNX rc (alert_key v ty) ''1'' (5 * Minute) r = (Inr True, r')"
    by (auto simp: TryClaimAlertDedup_def split: prod.splits sum.splits)
  from setnx_won [OF this] setnx_frame [OF this] show ?case
    by (simp add: set_view_def Minute_def)
next
  case (2 v ty r r')
  then have "cmd_SetNX rc (alert_key v ty) ''1'' (5 * Minute) r = (Inr False, r')"
    by (auto simp: TryClaimAlertDedup_def split: prod.splits sum.splits)
  from setnx_lost [OF this] setnx_frame [OF this] show ?case by simp
next
  case (3 v ty r x0 r')
  then obtain y where "cmd_SetNX rc (alert_key v ty) ''1'' (5 * Minute) r = (y, r')"
    by (auto simp: TryClaimAlertDedup_def split: prod.splits sum.splits)
  from setnx_frame [OF this] 3(2) show ?case by auto
next
  case (4 v ty r x1 r' v' ty')
  then obtain y where "cmd_SetNX rc (alert_key v ty) ''1'' (5 * Minute) r = (y, r')"
    by (auto simp: TryClaimAlertDedup_def split: prod.splits sum.splits)
  from setnx_frame [OF this] 4(2) show ?case by simp
next
  case (5 v ty r r')
  then have "cmd_Del rc (alert_key v ty) r = (None, r')"
    by (auto simp: ReleaseAlertDedup_def split: prod.splits option.splits)
  from del_done [OF this] del_frame [OF this] show ?case by (simp add: del_view_def)
next
  case (6 v ty r x2 r' v' ty')
  then obtain y where "cmd_Del rc (alert_key v ty) r = (y, r')"
    by (auto simp: ReleaseAlertDedup_def split: prod.splits option.splits)
  from del_frame [OF this] 6(2) show ?case by simp
next
  case (7 f p r x3 r')
  then obtain y where "cmd_Publish rc (alerts_channel f) p r = (y, r')"
    by (auto simp: PublishAlert_def split: prod.splits option.splits)
  from publish_frame [OF this] show ?case by simp
qed

fun string_of_entry :: "redis_val option \<Rightarrow> string option" where
  "string_of_entry (Some (RStr s)) = Some s"
| "string_of_entry (Some (RHash h)) = None"
| "string_of_entry None = None"

sublocale redis_server \<subseteq> keys: api_key_store
    "GetAPIKey rc" "\<lambda>r k. string_of_entry (view r (clock r) (auth_key k))"
proof (unfold_locales, goal_cases)
  case (1 k r f r')
  then have "cmd_Get rc (auth_key k) r = (Inr f, r')"
    by (auto simp: GetAPIKey_def split: prod.splits sum.splits redis_err.splits)
  from get_value [OF this] show ?case by simp
next
  case (2 k r r')
  then consider "cmd_Get rc (auth_key k) r = (Inl RedisNil, r')"
    | "cmd_Get rc (auth_key k) r = (Inr [], r')"
    by (auto simp: GetAPIKey_def split: prod.splits sum.splits redis_err.splits)
  then show ?case using get_nil get_value by cases auto
next
  case (3 k r x1 r')
  then obtain y where "cmd_Get rc (auth_key k) r = (y, r')"
    by (auto simp: GetAPIKey_def split: prod.splits sum.splits redis_err.splits)
  from get_frame [OF this] show ?case by simp
qed

end
