(* ===== verification/Config.thy ===== *)
theory Config
  imports Go_Prelude
begin

text \<open>
  The configuration of both services (\<open>src/ingestion/internal/config/config.go\<close>,
  \<open>src/serving/internal/config/config.go\<close>): every setting is read from the environment, with a
  default for an unset or empty variable and, for integers, for one that does not parse.
  The environment is a function from names to values, \<open>''''\<close> for an unset one (\<open>os.Getenv\<close>).
\<close>

type_synonym environment = "string \<Rightarrow> string"

definition getEnv :: "environment \<Rightarrow> string \<Rightarrow> string \<Rightarrow> string" where
  "getEnv env key fallback = (let v = env key in if v \<noteq> [] then v else fallback)"

definition getEnvInt :: "environment \<Rightarrow> string \<Rightarrow> int \<Rightarrow> int" where
  "getEnvInt env key fallback =
     (let v = env key
      in if v = [] then fallback
         else case Atoi v of None \<Rightarrow> fallback | Some n \<Rightarrow> n)"

record IngestConfig =
  ic_HTTPPort :: string
  ic_DBHost :: string
  ic_DBPort :: string
  ic_DBUser :: string
  ic_DBPassword :: string
  ic_DBName :: string
  ic_DBMaxConns :: int
  ic_RedisAddr :: string
  ic_RedisPassword :: string
  ic_RedisDB :: int
  ic_DBChannelSize :: int
  ic_StateChannelSize :: int
  ic_AlertChannelSize :: int
  ic_DBBatchSize :: int
  ic_DBFlushIntervalMS :: int
  ic_DBWriterWorkers :: int
  ic_StateWriterWorkers :: int
  ic_AlertWorkers :: int
  ic_AuthCacheTTLSeconds :: int
  ic_ValidAPIKeys :: "string list"

definition ingest_Load :: "environment \<Rightarrow> IngestConfig" where
  "ingest_Load env =
     \<lparr>ic_HTTPPort = getEnv env ''HTTP_PORT'' ''8001'',
      ic_DBHost = getEnv env ''DB_HOST'' ''localhost'',
      ic_DBPort = getEnv env ''DB_PORT'' ''5432'',
      ic_DBUser = getEnv env ''DB_USER'' ''fleet_user'',
      ic_DBPassword = getEnv env ''DB_PASSWORD'' ''fleet_password'',
      ic_DBName = getEnv env ''DB_NAME'' ''fleet_monitor'',
      ic_DBMaxConns = wrap32 (getEnvInt env ''DB_MAX_CONNS'' 15),
      ic_RedisAddr = getEnv env ''REDIS_ADDR'' ''localhost:6379'',
      ic_RedisPassword = getEnv env ''REDIS_PASSWORD'' '''',
      ic_RedisDB = getEnvInt env ''REDIS_DB'' 0,
      ic_DBChannelSize = getEnvInt env ''DB_CHANNEL_SIZE'' 10000,
      ic_StateChannelSize = getEnvInt env ''STATE_CHANNEL_SIZE'' 50000,
      ic_AlertChannelSize = getEnvInt env ''ALERT_CHANNEL_SIZE'' 10000,
      ic_DBBatchSize = getEnvInt env ''DB_BATCH_SIZE'' 500,
      ic_DBFlushIntervalMS = getEnvInt env ''DB_FLUSH_INTERVAL_MS'' 100,
      ic_DBWriterWorkers = getEnvInt env ''DB_WRITER_WORKERS'' 10,
      ic_StateWriterWorkers = getEnvInt env ''STATE_WRITER_WORKERS'' 5,
      ic_AlertWorkers = getEnvInt env ''ALERT_WORKERS'' 3,
      ic_AuthCacheTTLSeconds = getEnvInt env ''AUTH_CACHE_TTL_SECONDS'' 300,
      ic_ValidAPIKeys = Split (CHR '','') (getEnv env ''VALID_API_KEYS'' '''')\<rparr>"

text \<open>The serving service has its own copies of the two readers.\<close>

definition srv_getEnv :: "environment \<Rightarrow> string \<Rightarrow> string \<Rightarrow> string" where
  "srv_getEnv env key fallback = (let v = env key in if v \<noteq> [] then v else fallback)"

definition srv_getEnvInt :: "environment \<Rightarrow> string \<Rightarrow> int \<Rightarrow> int" where
  "srv_getEnvInt env key fallback =
     (let v = env key
      in if v = [] then fallback
         else case Atoi v of None \<Rightarrow> fallback | Some n \<Rightarrow> n)"

record ServingConfig =
  sc_HTTPPort :: string
  sc_DBHost :: string
  sc_DBPort :: string
  sc_DBUser :: string
  sc_DBPassword :: string
  sc_DBName :: string
  sc_DBMaxConns :: int
  sc_RedisAddr :: string
  sc_RedisPassword :: string
  sc_RedisDB :: int
  sc_ValidAPIKeys :: "string list"
  sc_AuthCacheTTLSeconds :: int
  sc_HeartbeatIntervalSeconds :: int
  sc_StalenessThresholdSeconds :: int
  sc_StopDetectorIntervalSeconds :: int
  sc_DeviationDetectorIntervalSeconds :: int

definition serving_Load :: "environment \<Rightarrow> ServingConfig" where
  "serving_Load env =
     \<lparr>sc_HTTPPort = srv_getEnv env ''HTTP_PORT'' ''8002'',
      sc_DBHost = srv_getEnv env ''DB_HOST'' ''localhost'',
      sc_DBPort = srv_getEnv env ''DB_PORT'' ''5432'',
      sc_DBUser = srv_getEnv env ''DB_USER'' ''fleet_user'',
      sc_DBPassword = srv_getEnv env ''DB_PASSWORD'' ''fleet_password'',
      sc_DBName = srv_getEnv env ''DB_NAME'' ''fleet_monitor'',
      sc_DBMaxConns = wrap32 (srv_getEnvInt env ''DB_MAX_CONNS'' 10),
      sc_RedisAddr = srv_getEnv env ''REDIS_ADDR'' ''localhost:6379'',
      sc_RedisPassword = srv_getEnv env ''REDIS_PASSWORD'' '''',
      sc_RedisDB = srv_getEnvInt env ''REDIS_DB'' 0,
      sc_ValidAPIKeys = Split (CHR '','') (srv_getEnv env ''VALID_API_KEYS'' ''''),
      sc_AuthCacheTTLSeconds = srv_getEnvInt env ''AUTH_CACHE_TTL_SECONDS'' 300,
      sc_HeartbeatIntervalSeconds = srv_getEnvInt env ''HEARTBEAT_INTERVAL_SECONDS'' 30,
      sc_StalenessThresholdSeconds = srv_getEnvInt env ''STALENESS_THRESHOLD_SECONDS'' 60,
      sc_StopDetectorIntervalSeconds = srv_getEnvInt env ''STOP_DETECTOR_INTERVAL_SECONDS'' 30,
      sc_DeviationDetectorIntervalSeconds = srv_getEnvInt env ''DEVIATION_DETECTOR_INTERVAL_SECONDS'' 60\<rparr>"

text \<open>The connection string both stores build for the pool.\<close>

definition connStr :: "string \<Rightarrow> string \<Rightarrow> string \<Rightarrow> string \<Rightarrow> string \<Rightarrow> int \<Rightarrow> string" where
  "connStr user password host port name maxConns =
     ''postgres://'' @ user @ '':'' @ password @ ''@'' @ host @ '':'' @ port @ ''/'' @ name @
     ''?pool_max_conns='' @ Itoa maxConns"

section \<open>Lemmas\<close>

lemma srv_getEnv_eq [simp]: "srv_getEnv = getEnv" "srv_getEnvInt = getEnvInt"
  by (simp_all add: fun_eq_iff srv_getEnv_def srv_getEnvInt_def getEnv_def getEnvInt_def)

lemma getEnvInt_set: "in_int64 n \<Longrightarrow> env key = Itoa n \<Longrightarrow> getEnvInt env key d = n"
  by (simp add: getEnvInt_def Atoi_def ParseInt_Itoa)

lemma getEnvInt_unset: "env key = [] \<Longrightarrow> getEnvInt env key d = d"
  by (simp add: getEnvInt_def)

lemma getEnvInt_range: "in_int64 d \<Longrightarrow> in_int64 (getEnvInt env key d)"
  by (auto simp: getEnvInt_def Let_def Atoi_def dest: ParseInt_range split: option.splits)

lemma ValidAPIKeys_no_comma:
  "k \<in> set (ic_ValidAPIKeys (ingest_Load env)) \<Longrightarrow> CHR '','' \<notin> set k"
  by (auto simp: ingest_Load_def dest: Split_no_sep)

end
