(* ===== verification/Ingest_Auth.thy ===== *)
theory Ingest_Auth
  imports Ingest_Store Config
begin

text \<open>
  The ingestion authenticator (\<open>src/ingestion/internal/auth/authenticator.go\<close>): static keys from
  the configuration, a cache in memory whose entries expire, Redis behind it. The key store is
  the Go interface \<open>apiKeyStore\<close>, an argument of the operations. The two readings of the clock
  in one call (the expiry test, the deadline of a new entry) are arguments too.

  The locale \<open>key_authenticator\<close> is what the HTTP middleware and the WebSocket hub rely on
  (the Go interfaces \<open>Validator\<close> and \<open>ws.Authenticator\<close>); it is interpreted on \<open>FleetID\<close>.
\<close>

record cacheEntry =
  ce_fleetID :: string
  ce_expiresAt :: time

record Authenticator =
  au_localCache :: "string \<rightharpoonup> cacheEntry"
  au_ttl :: duration
  au_staticKeys :: "string \<Rightarrow> bool"

definition static_key_map :: "string list \<Rightarrow> string \<Rightarrow> bool" where
  "static_key_map ks = fold (\<lambda>k m. if k \<noteq> [] then m(k := True) else m) ks (\<lambda>_. False)"

definition NewAuthenticator :: "IngestConfig \<Rightarrow> Authenticator" where
  "NewAuthenticator cfg =
     \<lparr>au_localCache = Map.empty,
      au_ttl = duration_of (ic_AuthCacheTTLSeconds cfg) Second,
      au_staticKeys = static_key_map (ic_ValidAPIKeys cfg)\<rparr>"

definition FleetID ::
  "(string \<Rightarrow> 'r \<Rightarrow> (string + string) \<times> 'r) \<Rightarrow> time \<Rightarrow> time \<Rightarrow> string \<Rightarrow> Authenticator \<Rightarrow> 'r \<Rightarrow>
     (string \<times> bool) \<times> Authenticator \<times> 'r" where
  "FleetID getAPIKey now now' apiKey a r =
     (if apiKey = [] then (([], False), a, r)
      else if au_staticKeys a apiKey then (([], True), a, r)
      else case (case au_localCache a apiKey of
                   None \<Rightarrow> None
                 | Some entry \<Rightarrow> if now < ce_expiresAt entry then Some (ce_fleetID entry) else None) of
             Some fleetID \<Rightarrow> ((fleetID, True), a, r)
           | None \<Rightarrow>
               (let a' = a\<lparr>au_localCache := (au_localCache a)(apiKey := None)\<rparr>
                in case getAPIKey apiKey r of
                     (Inl err, r') \<Rightarrow> (([], False), a', r')
                   | (Inr fleetID, r') \<Rightarrow>
                       if fleetID = [] then (([], False), a', r')
                       else ((fleetID, True),
                             a'\<lparr>au_localCache := (au_localCache a')
                                  (apiKey \<mapsto> \<lparr>ce_fleetID = fleetID, ce_expiresAt = now' + au_ttl a\<rparr>)\<rparr>,
                             r')))"

definition Validate ::
  "(string \<Rightarrow> 'r \<Rightarrow> (string + string) \<times> 'r) \<Rightarrow> time \<Rightarrow> time \<Rightarrow> string \<Rightarrow> Authenticator \<Rightarrow> 'r \<Rightarrow>
     bool \<times> Authenticator \<times> 'r" where
  "Validate getAPIKey now now' apiKey a r =
     (case FleetID getAPIKey now now' apiKey a r of ((_, ok), a', r') \<Rightarrow> (ok, a', r'))"

section \<open>Histories of calls\<close>

text \<open>A call with its clock readings and the answer the key store has for its key at that time.\<close>

record auth_call =
  ac_now :: time
  ac_now' :: time
  ac_key :: string
  ac_reply :: "string + string"

definition auth_call_result :: "auth_call \<Rightarrow> Authenticator \<Rightarrow> (string \<times> bool) \<times> Authenticator" where
  "auth_call_result c a =
     (case FleetID (\<lambda>k r. (ac_reply c, r)) (ac_now c) (ac_now' c) (ac_key c) a () of
        (res, a', _) \<Rightarrow> (res, a'))"

fun auth_run :: "auth_call list \<Rightarrow> Authenticator \<Rightarrow> Authenticator" where
  "auth_run [] a = a"
| "auth_run (c # cs) a = auth_run cs (snd (auth_call_result c a))"

section \<open>The interface of an authenticator\<close>

locale key_authenticator =
  fixes fleetID :: "string \<Rightarrow> 's \<Rightarrow> (string \<times> bool) \<times> 's"
    and entitled :: "'s \<Rightarrow> string \<Rightarrow> string \<Rightarrow> bool"
  assumes no_key: "fst (fleetID [] s) = ([], False)"
    and refused: "fleetID k s = ((f, False), s') \<Longrightarrow> f = []"
    and entitlement: "fleetID k s = ((f, True), s') \<Longrightarrow> f \<noteq> [] \<Longrightarrow> entitled s k f"
begin

text \<open>A key accepted for a named fleet is entitled to that fleet.\<close>

lemma fleet_named:
  "fleetID k s = ((f, ok), s') \<Longrightarrow> f \<noteq> [] \<Longrightarrow> ok \<and> k \<noteq> [] \<and> entitled s k f"
proof -
  assume f: "fleetID k s = ((f, ok), s')" "f \<noteq> []"
  then have ok using refused by (cases ok) auto
  moreover have "k \<noteq> []" using f no_key [of s] by (cases "k = []") auto
  ultimately show ?thesis using f entitlement by auto
qed

end

section \<open>Lemmas\<close>

lemma static_key_map_iff: "static_key_map ks k \<longleftrightarrow> k \<in> set ks \<and> k \<noteq> []"
proof -
  have "fold (\<lambda>k m. if k \<noteq> [] then m(k := True) else m) ks m k \<longleftrightarrow> m k \<or> k \<in> set ks \<and> k \<noteq> []"
    for m :: "string \<Rightarrow> bool"
    by (induction ks arbitrary: m) auto
  then show ?thesis by (simp add: static_key_map_def)
qed

lemma FleetID_static [simp]: "au_staticKeys (fst (snd (FleetID g n n' k a r))) = au_staticKeys a"
  by (auto simp: FleetID_def Let_def split: option.splits prod.splits sum.splits)

lemma FleetID_ttl [simp]: "au_ttl (fst (snd (FleetID g n n' k a r))) = au_ttl a"
  by (auto simp: FleetID_def Let_def split: option.splits prod.splits sum.splits)

lemma FleetID_refused: "FleetID g n n' k a r = ((f, False), a', r') \<Longrightarrow> f = []"
  by (auto simp: FleetID_def Let_def split: if_splits option.splits prod.splits sum.splits)

text \<open>Where an accepted fleet comes from: a live cache entry, or the key store just now.\<close>

lemma FleetID_source:
  assumes "FleetID g n n' k a r = ((f, True), a', r')" "f \<noteq> []"
  shows "k \<noteq> [] \<and> \<not> au_staticKeys a k \<and>
     ((\<exists>e. au_localCache a k = Some e \<and> n < ce_expiresAt e \<and> ce_fleetID e = f \<and> a' = a \<and> r' = r) \<or>
      g k r = (Inr f, r'))"
  using assms
  by (auto simp: FleetID_def Let_def split: if_splits option.splits prod.splits sum.splits)

text \<open>The cache after a call: old entries, or the key store's answer with a full lifetime.\<close>

lemma FleetID_cache:
  assumes "FleetID g n n' k a r = (res, a', r')" "au_localCache a' k' = Some e"
  shows "au_localCache a k' = Some e \<or>
     (k' = k \<and> g k r = (Inr (ce_fleetID e), r') \<and> ce_fleetID e \<noteq> [] \<and> ce_expiresAt e = n' + au_ttl a)"
  using assms
  by (auto simp: FleetID_def Let_def split: if_splits option.splits prod.splits sum.splits)

definition cache_justified :: "auth_call set \<Rightarrow> Authenticator \<Rightarrow> bool" where
  "cache_justified H a \<longleftrightarrow>
     (\<forall>k e. au_localCache a k = Some e \<longrightarrow>
        (\<exists>c\<in>H. ac_key c = k \<and> ac_reply c = Inr (ce_fleetID e) \<and> ce_fleetID e \<noteq> [] \<and>
                ce_expiresAt e = ac_now' c + au_ttl a))"

lemma auth_call_result_ttl [simp]: "au_ttl (snd (auth_call_result c a)) = au_ttl a"
  by (cases "FleetID (\<lambda>k r. (ac_reply c, r)) (ac_now c) (ac_now' c) (ac_key c) a ()")
     (metis (no_types, lifting) FleetID_ttl auth_call_result_def fst_conv old.prod.case snd_conv)

lemma auth_call_result_static [simp]:
  "au_staticKeys (snd (auth_call_result c a)) = au_staticKeys a"
  by (cases "FleetID (\<lambda>k r. (ac_reply c, r)) (ac_now c) (ac_now' c) (ac_key c) a ()")
     (metis (no_types, lifting) FleetID_static auth_call_result_def fst_conv old.prod.case snd_conv)

lemma auth_run_ttl [simp]: "au_ttl (auth_run cs a) = au_ttl a"
  by (induction cs arbitrary: a) auto

lemma auth_run_static [simp]: "au_staticKeys (auth_run cs a) = au_staticKeys a"
  by (induction cs arbitrary: a) auto

lemma auth_call_justified:
  assumes "cache_justified H a"
  shows "cache_justified (insert c H) (snd (auth_call_result c a))"
  unfolding cache_justified_def
proof (intro allI impI)
  fix k e
  assume e: "au_localCache (snd (auth_call_result c a)) k = Some e"
  obtain res a' where run: "FleetID (\<lambda>k r. (ac_reply c, r)) (ac_now c) (ac_now' c) (ac_key c) a () = (res, a', ())"
    by (metis (full_types) old.unit.exhaust surj_pair)
  with e have "au_localCache a' k = Some e" by (simp add: auth_call_result_def)
  from FleetID_cache [OF run this] assms
  show "\<exists>d\<in>insert c H. ac_key d = k \<and> ac_reply d = Inr (ce_fleetID e) \<and> ce_fleetID e \<noteq> [] \<and>
          ce_expiresAt e = ac_now' d + au_ttl (snd (auth_call_result c a))"
    by (auto simp: cache_justified_def)
qed

lemma auth_run_justified:
  "cache_justified H a \<Longrightarrow> cache_justified (H \<union> set cs) (auth_run cs a)"
proof (induction cs arbitrary: a H)
  case Nil
  then show ?case by simp
next
  case (Cons c cs)
  from Cons.IH [OF auth_call_justified [OF Cons.prems]] show ?case by simp
qed

lemma NewAuthenticator_justified: "cache_justified {} (NewAuthenticator cfg)"
  by (simp add: cache_justified_def NewAuthenticator_def)

section \<open>The authenticator meets its interface\<close>

text \<open>Over a key store: the state is the authenticator with the store, the entitlement a live
  cache entry or the store's mapping.\<close>

definition fleet_lookup ::
  "'r redis_client \<Rightarrow> time \<Rightarrow> time \<Rightarrow> string \<Rightarrow> Authenticator \<times> 'r \<Rightarrow> (string \<times> bool) \<times> Authenticator \<times> 'r" where
  "fleet_lookup rc now now' k s = FleetID (GetAPIKey rc) now now' k (fst s) (snd s)"

sublocale redis_server \<subseteq> authn: key_authenticator "fleet_lookup rc now now'"
    "\<lambda>s k f. (\<exists>e. au_localCache (fst s) k = Some e \<and> ce_fleetID e = f \<and> now < ce_expiresAt e) \<or>
             view (snd s) (clock (snd s)) (auth_key k) = Some (RStr f)"
  for now now' :: time
proof (unfold_locales, goal_cases)
  case (1 s)
  then show ?case by (simp add: fleet_lookup_def FleetID_def)
next
  case (2 k s f s')
  then show ?case
    using FleetID_refused unfolding fleet_lookup_def by (metis surj_pair)
next
  case (3 k s f s')
  obtain a' r' where s': "s' = (a', r')" by (cases s')
  have run: "FleetID (GetAPIKey rc) now now' k (fst s) (snd s) = ((f, True), a', r')"
    using 3(1) s' by (simp add: fleet_lookup_def)
  from FleetID_source [OF run 3(2)] show ?case
  proof (elim conjE disjE)
    assume g: "GetAPIKey rc k (snd s) = (Inr f, r')"
    have "view (snd s) (clock (snd s)) (auth_key k) = Some (RStr f)"
      using keys.key_owner [OF g 3(2)]
      by (cases "view (snd s) (clock (snd s)) (auth_key k)" rule: string_of_entry.cases) auto
    then show ?thesis ..
  qed auto
qed

end
