(* ===== verification/Ingest_Metrics.thy ===== *)
theory Ingest_Metrics
  imports Go_Prelude
begin

text \<open>
  The counters of the ingestion service (\<open>src/ingestion/internal/metrics/metrics.go\<close>): seven
  \<open>atomic.Int64\<close> values, whose \<open>Add\<close> wraps around, and the text the metrics endpoint writes.
\<close>

record metrics =
  MessagesReceived :: int
  DBWriteSuccess :: int
  DBWriteFailures :: int
  DBChannelDrops :: int
  StateChannelDrops :: int
  AlertChannelDrops :: int
  DBDispatchRejected :: int

definition zero_metrics :: metrics where
  "zero_metrics = \<lparr>MessagesReceived = 0, DBWriteSuccess = 0, DBWriteFailures = 0,
     DBChannelDrops = 0, StateChannelDrops = 0, AlertChannelDrops = 0, DBDispatchRejected = 0\<rparr>"

definition counter_add :: "int \<Rightarrow> int \<Rightarrow> int" where
  "counter_add n x = wrap64 (x + n)"

definition add_received :: "metrics \<Rightarrow> metrics" where
  "add_received m = m\<lparr>MessagesReceived := counter_add 1 (MessagesReceived m)\<rparr>"

definition add_success :: "nat \<Rightarrow> metrics \<Rightarrow> metrics" where
  "add_success n m = m\<lparr>DBWriteSuccess := counter_add (int n) (DBWriteSuccess m)\<rparr>"

definition add_failures :: "nat \<Rightarrow> metrics \<Rightarrow> metrics" where
  "add_failures n m = m\<lparr>DBWriteFailures := counter_add (int n) (DBWriteFailures m)\<rparr>"

definition add_rejected :: "metrics \<Rightarrow> metrics" where
  "add_rejected m = m\<lparr>DBDispatchRejected := counter_add 1 (DBDispatchRejected m)\<rparr>"

definition metric_line :: "string \<Rightarrow> int \<Rightarrow> string" where
  "metric_line name v = name @ '' '' @ Itoa v @ [CHR 0x0A]"

definition HandleMetrics :: "metrics \<Rightarrow> string \<times> string" where
  "HandleMetrics m =
     (''text/plain; version=0.0.4'',
      metric_line ''ingestion_messages_received_total'' (MessagesReceived m) @
      metric_line ''ingestion_db_write_success_total'' (DBWriteSuccess m) @
      metric_line ''ingestion_db_write_failures_total'' (DBWriteFailures m) @
      metric_line ''ingestion_db_channel_drops_total'' (DBChannelDrops m) @
      metric_line ''ingestion_state_channel_drops_total'' (StateChannelDrops m) @
      metric_line ''ingestion_alert_channel_drops_total'' (AlertChannelDrops m) @
      metric_line ''ingestion_db_dispatch_rejected_total'' (DBDispatchRejected m))"

lemma wrap64_add_left: "wrap64 (wrap64 x + y) = wrap64 (x + y)"
proof -
  have "(wrap64 x + y + 2 ^ 63) mod 2 ^ 64 = ((x + 2 ^ 63) mod 2 ^ 64 + y) mod 2 ^ 64"
    by (simp add: wrap64_def)
  also have "\<dots> = (x + y + 2 ^ 63) mod 2 ^ 64"
    by (simp add: mod_simps ac_simps)
  finally show ?thesis by (simp add: wrap64_def)
qed

lemma counter_add_add: "counter_add n (counter_add m x) = counter_add (m + n) x"
  by (simp add: counter_add_def wrap64_add_left add.assoc)

lemmas metrics_defs = add_received_def add_success_def add_failures_def add_rejected_def

end
