(* ===== verification/Ingest_Dispatcher.thy ===== *)
theory Ingest_Dispatcher
  imports Ingest_Domain Ingest_Metrics
begin

text \<open>
  The dispatcher (\<open>src/ingestion/internal/pipeline/dispatcher.go\<close>). \<open>Dispatch\<close> admits a message
  without blocking; \<open>Run\<close> is a goroutine that takes a message from the ingress channel and sends
  it to the three worker channels, blocking on each. Its control points are the blocking
  \<open>select\<close>s: a step relation says which of them can proceed. The whole pipeline adds the
  environment: requests, workers receiving from the three channels, and the cancellation of the
  context. No channel of the dispatcher is ever closed, so a send does not panic.
\<close>

record Dispatcher =
  d_ingress :: "TelemetryMessage chan"
  d_DBChan :: "TelemetryMessage chan"
  d_StateChan :: "TelemetryMessage chan"
  d_AlertChan :: "TelemetryMessage chan"

text \<open>\<open>None\<close>: one of the four \<open>make\<close> calls panics on a negative size.\<close>

definition NewDispatcher :: "int \<Rightarrow> int \<Rightarrow> int \<Rightarrow> Dispatcher option" where
  "NewDispatcher dbSize stateSize alertSize =
     (case (make_chan stateSize, make_chan dbSize, make_chan stateSize, make_chan alertSize) of
        (Some i, Some db, Some st, Some al) \<Rightarrow>
          Some \<lparr>d_ingress = i, d_DBChan = db, d_StateChan = st, d_AlertChan = al\<rparr>
      | _ \<Rightarrow> None)"

definition Dispatch :: "TelemetryMessage \<Rightarrow> Dispatcher \<Rightarrow> metrics \<Rightarrow> bool \<times> Dispatcher \<times> metrics" where
  "Dispatch msg d m =
     (case ch_send msg (d_ingress d) of
        Sent c \<Rightarrow> (True, d\<lparr>d_ingress := c\<rparr>, m)
      | _ \<Rightarrow> (False, d, add_rejected m))"

text \<open>\<open>send\<close>: the channel accepts the message, or the context is done; when both are possible
  either may happen.\<close>

inductive send :: "bool \<Rightarrow> TelemetryMessage \<Rightarrow> TelemetryMessage chan \<Rightarrow> bool \<Rightarrow> TelemetryMessage chan \<Rightarrow> bool"
  for ctxDone where
  send_ok: "ch_send msg ch = Sent ch' \<Longrightarrow> send ctxDone msg ch True ch'"
| send_done: "ctxDone \<Longrightarrow> send ctxDone msg ch False ch"

datatype run_pc =
    Selecting
  | SendingDB TelemetryMessage
  | SendingState TelemetryMessage
  | SendingAlert TelemetryMessage
  | Returned

inductive run_step :: "bool \<Rightarrow> run_pc \<times> Dispatcher \<Rightarrow> run_pc \<times> Dispatcher \<Rightarrow> bool" for ctxDone where
  select_done: "ctxDone \<Longrightarrow> run_step ctxDone (Selecting, d) (Returned, d)"
| select_msg: "ch_recv (d_ingress d) = Received m c \<Longrightarrow>
    run_step ctxDone (Selecting, d) (SendingDB m, d\<lparr>d_ingress := c\<rparr>)"
| db_step: "send ctxDone m (d_DBChan d) ok c \<Longrightarrow>
    run_step ctxDone (SendingDB m, d)
      (if ok then SendingState m else Returned, d\<lparr>d_DBChan := c\<rparr>)"
| state_step: "send ctxDone m (d_StateChan d) ok c \<Longrightarrow>
    run_step ctxDone (SendingState m, d)
      (if ok then SendingAlert m else Returned, d\<lparr>d_StateChan := c\<rparr>)"
| alert_step: "send ctxDone m (d_AlertChan d) ok c \<Longrightarrow>
    run_step ctxDone (SendingAlert m, d)
      (if ok then Selecting else Returned, d\<lparr>d_AlertChan := c\<rparr>)"

section \<open>The pipeline with its environment\<close>

text \<open>The last four fields record the history: the messages admitted, and the ones each kind of
  worker received, in order.\<close>

record pipeline =
  pl_disp :: Dispatcher
  pl_pc :: run_pc
  pl_done :: bool
  pl_metrics :: metrics
  pl_accepted :: "TelemetryMessage list"
  pl_db :: "TelemetryMessage list"
  pl_state :: "TelemetryMessage list"
  pl_alert :: "TelemetryMessage list"

definition pipeline_init :: "Dispatcher \<Rightarrow> pipeline" where
  "pipeline_init d = \<lparr>pl_disp = d, pl_pc = Selecting, pl_done = False, pl_metrics = zero_metrics,
     pl_accepted = [], pl_db = [], pl_state = [], pl_alert = []\<rparr>"

text \<open>Steps of the system itself: the dispatcher, and a worker taking a message.\<close>

inductive internal_step :: "pipeline \<Rightarrow> pipeline \<Rightarrow> bool" where
  run: "run_step (pl_done s) (pl_pc s, pl_disp s) (pc, d) \<Longrightarrow>
    internal_step s (s\<lparr>pl_pc := pc, pl_disp := d\<rparr>)"
| take_db: "ch_recv (d_DBChan (pl_disp s)) = Received m c \<Longrightarrow>
    internal_step s (s\<lparr>pl_disp := (pl_disp s)\<lparr>d_DBChan := c\<rparr>, pl_db := pl_db s @ [m]\<rparr>)"
| take_state: "ch_recv (d_StateChan (pl_disp s)) = Received m c \<Longrightarrow>
    internal_step s (s\<lparr>pl_disp := (pl_disp s)\<lparr>d_StateChan := c\<rparr>, pl_state := pl_state s @ [m]\<rparr>)"
| take_alert: "ch_recv (d_AlertChan (pl_disp s)) = Received m c \<Longrightarrow>
    internal_step s (s\<lparr>pl_disp := (pl_disp s)\<lparr>d_AlertChan := c\<rparr>, pl_alert := pl_alert s @ [m]\<rparr>)"

inductive pipeline_step :: "pipeline \<Rightarrow> pipeline \<Rightarrow> bool" where
  request: "Dispatch m (pl_disp s) (pl_metrics s) = (ok, d, mt) \<Longrightarrow>
    pipeline_step s (s\<lparr>pl_disp := d, pl_metrics := mt,
                       pl_accepted := (if ok then pl_accepted s @ [m] else pl_accepted s)\<rparr>)"
| cancel: "pipeline_step s (s\<lparr>pl_done := True\<rparr>)"
| internal: "internal_step s t \<Longrightarrow> pipeline_step s t"

text \<open>The capacities are positive: a send on a channel of capacity 0 waits for its receiver, which
  the buffered channels of the prelude do not describe. The configured sizes default to thousands.\<close>

inductive pipeline_reachable :: "int \<Rightarrow> int \<Rightarrow> int \<Rightarrow> pipeline \<Rightarrow> bool" for db st al where
  start: "0 < db \<Longrightarrow> 0 < st \<Longrightarrow> 0 < al \<Longrightarrow> NewDispatcher db st al = Some d \<Longrightarrow>
    pipeline_reachable db st al (pipeline_init d)"
| step: "pipeline_reachable db st al s \<Longrightarrow> pipeline_step s t \<Longrightarrow> pipeline_reachable db st al t"

inductive_cases send_trueE: "send c m ch True ch'"
inductive_cases send_falseE: "send c m ch False ch'"
inductive_cases run_stepE: "run_step c (pc, d) (pc', d')"

section \<open>Where an admitted message can be\<close>

fun in_db :: "run_pc \<Rightarrow> TelemetryMessage list" where
  "in_db (SendingDB m) = [m]"
| "in_db _ = []"

fun in_state :: "run_pc \<Rightarrow> TelemetryMessage list" where
  "in_state (SendingDB m) = [m]"
| "in_state (SendingState m) = [m]"
| "in_state _ = []"

fun in_alert :: "run_pc \<Rightarrow> TelemetryMessage list" where
  "in_alert (SendingDB m) = [m]"
| "in_alert (SendingState m) = [m]"
| "in_alert (SendingAlert m) = [m]"
| "in_alert _ = []"

text \<open>One of the three lanes: the admitted messages are, in order, those received by the lane's
  workers, those in its channel, at most one held by the dispatcher, those in the ingress
  channel. While the dispatcher runs, the one it holds is the one its control point says.\<close>

definition lane :: "TelemetryMessage list \<Rightarrow> TelemetryMessage list \<Rightarrow> TelemetryMessage chan \<Rightarrow>
    TelemetryMessage list \<Rightarrow> run_pc \<Rightarrow> TelemetryMessage chan \<Rightarrow> bool" where
  "lane acc out ch held pc ing \<longleftrightarrow>
     (\<exists>l. acc = out @ cbuf ch @ l @ cbuf ing \<and> length l \<le> 1 \<and> (pc \<noteq> Returned \<longrightarrow> l = held))"

definition chans_open :: "Dispatcher \<Rightarrow> bool" where
  "chans_open d \<longleftrightarrow>
     \<not> cclosed (d_ingress d) \<and> \<not> cclosed (d_DBChan d) \<and> \<not> cclosed (d_StateChan d) \<and> \<not> cclosed (d_AlertChan d) \<and>
     chan_ok (d_ingress d) \<and> chan_ok (d_DBChan d) \<and> chan_ok (d_StateChan d) \<and> chan_ok (d_AlertChan d) \<and>
     0 < ccap (d_ingress d) \<and> 0 < ccap (d_DBChan d) \<and> 0 < ccap (d_StateChan d) \<and> 0 < ccap (d_AlertChan d)"

definition pipeline_inv :: "pipeline \<Rightarrow> bool" where
  "pipeline_inv s \<longleftrightarrow>
     chans_open (pl_disp s) \<and> (pl_pc s = Returned \<longrightarrow> pl_done s) \<and>
     lane (pl_accepted s) (pl_db s) (d_DBChan (pl_disp s)) (in_db (pl_pc s)) (pl_pc s) (d_ingress (pl_disp s)) \<and>
     lane (pl_accepted s) (pl_state s) (d_StateChan (pl_disp s)) (in_state (pl_pc s)) (pl_pc s) (d_ingress (pl_disp s)) \<and>
     lane (pl_accepted s) (pl_alert s) (d_AlertChan (pl_disp s)) (in_alert (pl_pc s)) (pl_pc s) (d_ingress (pl_disp s))"

text \<open>The work left before every admitted message has reached its three workers.\<close>

fun pc_work :: "run_pc \<Rightarrow> nat" where
  "pc_work (SendingDB m) = 6"
| "pc_work (SendingState m) = 4"
| "pc_work (SendingAlert m) = 2"
| "pc_work Selecting = 0"
| "pc_work Returned = 0"

definition work_left :: "pipeline \<Rightarrow> nat" where
  "work_left s =
     7 * length (cbuf (d_ingress (pl_disp s))) + pc_work (pl_pc s) +
     length (cbuf (d_DBChan (pl_disp s))) + length (cbuf (d_StateChan (pl_disp s))) +
     length (cbuf (d_AlertChan (pl_disp s)))"

definition delivered :: "pipeline \<Rightarrow> bool" where
  "delivered s \<longleftrightarrow> pl_db s = pl_accepted s \<and> pl_state s = pl_accepted s \<and> pl_alert s = pl_accepted s"

section \<open>Lemmas\<close>

lemma ch_send_Sent [simp]:
  "ch_send x ch = Sent ch' \<longleftrightarrow>
     \<not> cclosed ch \<and> length (cbuf ch) < ccap ch \<and> ch' = ch\<lparr>cbuf := cbuf ch @ [x]\<rparr>"
  by (auto simp: ch_send_def)

lemma ch_recv_Received [simp]:
  "ch_recv ch = Received x ch' \<longleftrightarrow> (\<exists>xs. cbuf ch = x # xs \<and> ch' = ch\<lparr>cbuf := xs\<rparr>)"
  by (auto simp: ch_recv_def split: list.splits)

lemma Dispatch_True:
  "Dispatch m d mt = (True, d', mt') \<longleftrightarrow>
     \<not> cclosed (d_ingress d) \<and> length (cbuf (d_ingress d)) < ccap (d_ingress d) \<and>
     d' = d\<lparr>d_ingress := (d_ingress d)\<lparr>cbuf := cbuf (d_ingress d) @ [m]\<rparr>\<rparr> \<and> mt' = mt"
  by (auto simp: Dispatch_def ch_send_def split: send_result.splits if_splits)

lemma Dispatch_False:
  "Dispatch m d mt = (False, d', mt') \<Longrightarrow> d' = d \<and> mt' = add_rejected mt"
  by (auto simp: Dispatch_def split: send_result.splits)

lemma NewDispatcher_Some:
  "NewDispatcher db st al = Some d \<longleftrightarrow> 0 \<le> db \<and> 0 \<le> st \<and> 0 \<le> al \<and>
     d = \<lparr>d_ingress = \<lparr>cbuf = [], ccap = nat st, cclosed = False\<rparr>,
          d_DBChan = \<lparr>cbuf = [], ccap = nat db, cclosed = False\<rparr>,
          d_StateChan = \<lparr>cbuf = [], ccap = nat st, cclosed = False\<rparr>,
          d_AlertChan = \<lparr>cbuf = [], ccap = nat al, cclosed = False\<rparr>\<rparr>"
  by (auto simp: NewDispatcher_def make_chan_def)

lemma pipeline_inv_init:
  "0 < db \<Longrightarrow> 0 < st \<Longrightarrow> 0 < al \<Longrightarrow> NewDispatcher db st al = Some d \<Longrightarrow> pipeline_inv (pipeline_init d)"
  by (auto simp: NewDispatcher_Some pipeline_inv_def pipeline_init_def chans_open_def chan_ok_def lane_def)

lemma lane_admit:
  "lane acc out ch h pc ing \<Longrightarrow>
     lane (acc @ [m]) out ch h pc (ing\<lparr>cbuf := cbuf ing @ [m]\<rparr>)"
  by (auto simp: lane_def)

lemma lane_take:
  "lane acc out ch h pc ing \<Longrightarrow> cbuf ch = m # ms \<Longrightarrow> lane acc (out @ [m]) (ch\<lparr>cbuf := ms\<rparr>) h pc ing"
  by (auto simp: lane_def)

lemma lane_recv:
  "lane acc out ch [] Selecting ing \<Longrightarrow> cbuf ing = m # ms \<Longrightarrow> pc \<noteq> Returned \<Longrightarrow>
     lane acc out ch [m] pc (ing\<lparr>cbuf := ms\<rparr>)"
  by (auto simp: lane_def)

lemma lane_send:
  "lane acc out ch [m] pc ing \<Longrightarrow> pc \<noteq> Returned \<Longrightarrow>
     lane acc out (ch\<lparr>cbuf := cbuf ch @ [m]\<rparr>) [] pc' ing"
  by (auto simp: lane_def)

lemma lane_keep:
  "lane acc out ch h pc ing \<Longrightarrow> pc \<noteq> Returned \<Longrightarrow> lane acc out ch h pc' ing"
  by (auto simp: lane_def)

lemma lane_return:
  "lane acc out ch h pc ing \<Longrightarrow> pc \<noteq> Returned \<Longrightarrow> lane acc out ch h' Returned ing"
  by (auto simp: lane_def)

lemma chan_ok_upd:
  "chan_ok ch \<Longrightarrow> cbuf ch = m # ms \<Longrightarrow> chan_ok (ch\<lparr>cbuf := ms\<rparr>)"
  "length (cbuf ch) < ccap ch \<Longrightarrow> chan_ok (ch\<lparr>cbuf := cbuf ch @ [m]\<rparr>)"
  by (auto simp: chan_ok_def)

lemmas lane_intros = lane_admit lane_take lane_recv lane_send lane_keep lane_return chan_ok_upd

lemmas pipeline_inv_simps = pipeline_inv_def chans_open_def

lemma run_step_inv:
  assumes "run_step (pl_done s) (pl_pc s, pl_disp s) (pc, d)" "pipeline_inv s"
  shows "pipeline_inv (s\<lparr>pl_pc := pc, pl_disp := d\<rparr>)"
  using assms(1)
proof (cases rule: run_step.cases)
  case select_done
  then show ?thesis using assms(2) by (auto simp: pipeline_inv_def intro: lane_return)
next
  case (select_msg m c)
  then show ?thesis using assms(2)
    by (auto simp: pipeline_inv_simps intro!: lane_recv chan_ok_upd)
next
  case (db_step m ok c)
  then show ?thesis using assms(2)
    by (cases ok) (auto simp: pipeline_inv_simps intro: lane_intros elim!: send_trueE send_falseE)
next
  case (state_step m ok c)
  then show ?thesis using assms(2)
    by (cases ok) (auto simp: pipeline_inv_simps intro: lane_intros elim!: send_trueE send_falseE)
next
  case (alert_step m ok c)
  then show ?thesis using assms(2)
    by (cases ok) (auto simp: pipeline_inv_simps intro: lane_intros elim!: send_trueE send_falseE)
qed

lemma internal_step_inv: "internal_step s t \<Longrightarrow> pipeline_inv s \<Longrightarrow> pipeline_inv t"
proof (induction rule: internal_step.induct)
  case (run s pc d)
  then show ?case by (rule run_step_inv)
qed (auto simp: pipeline_inv_def chans_open_def intro: lane_take chan_ok_upd)

lemma pipeline_step_inv: "pipeline_step s t \<Longrightarrow> pipeline_inv s \<Longrightarrow> pipeline_inv t"
proof (induction rule: pipeline_step.induct)
  case (request m s ok d mt)
  then show ?case
    by (cases ok) (auto simp: Dispatch_True pipeline_inv_def chans_open_def
        dest!: Dispatch_False intro: lane_admit chan_ok_upd)
next
  case (cancel s)
  then show ?case by (simp add: pipeline_inv_def)
next
  case (internal s t)
  then show ?case by (blast intro: internal_step_inv)
qed

lemma pipeline_reachable_inv: "pipeline_reachable db st al s \<Longrightarrow> pipeline_inv s"
  by (induction rule: pipeline_reachable.induct) (blast intro: pipeline_inv_init pipeline_step_inv)+

section \<open>The pipeline drains\<close>

lemma run_step_work:
  assumes "run_step False (pl_pc s, pl_disp s) (pc, d)"
  shows "work_left (s\<lparr>pl_pc := pc, pl_disp := d\<rparr>) < work_left s"
  using assms
proof (cases rule: run_step.cases)
  case (select_msg m c)
  then show ?thesis by (auto simp: work_left_def)
next
  case (db_step m ok c)
  then show ?thesis by (cases ok) (auto simp: work_left_def elim!: send_trueE send_falseE)
next
  case (state_step m ok c)
  then show ?thesis by (cases ok) (auto simp: work_left_def elim!: send_trueE send_falseE)
next
  case (alert_step m ok c)
  then show ?thesis by (cases ok) (auto simp: work_left_def elim!: send_trueE send_falseE)
qed simp

lemma internal_step_work: "internal_step s t \<Longrightarrow> \<not> pl_done s \<Longrightarrow> work_left t < work_left s"
proof (induction rule: internal_step.induct)
  case (run s pc d)
  then show ?case using run_step_work by simp
qed (auto simp: work_left_def)

lemma internal_step_frame:
  "internal_step s t \<Longrightarrow> pl_done t = pl_done s \<and> pl_accepted t = pl_accepted s"
  by (induction rule: internal_step.induct) auto

lemma internal_steps_frame:
  "internal_step\<^sup>*\<^sup>* s t \<Longrightarrow> pl_done t = pl_done s \<and> pl_accepted t = pl_accepted s"
  by (induction rule: rtranclp_induct) (auto dest: internal_step_frame)

lemma internal_steps_inv: "internal_step\<^sup>*\<^sup>* s t \<Longrightarrow> pipeline_inv s \<Longrightarrow> pipeline_inv t"
  by (induction rule: rtranclp_induct) (auto intro: internal_step_inv)

lemma internal_steps_bound:
  "(internal_step ^^ n) s t \<Longrightarrow> \<not> pl_done s \<Longrightarrow> n + work_left t \<le> work_left s"
proof (induction n arbitrary: t)
  case (Suc n)
  then obtain u where u: "(internal_step ^^ n) s u" "internal_step u t" by auto
  moreover have "\<not> pl_done u"
    using internal_steps_frame [OF relpowp_imp_rtranclp [OF u(1)]] Suc.prems by simp
  ultimately show ?case using Suc.IH [OF u(1)] internal_step_work [of u t] Suc.prems by simp
qed auto

lemma run_step_ready:
  assumes "pipeline_inv s" "\<not> pl_done s"
    and "pl_pc s \<noteq> Selecting \<or> cbuf (d_ingress (pl_disp s)) \<noteq> []"
    and "cbuf (d_DBChan (pl_disp s)) = []" "cbuf (d_StateChan (pl_disp s)) = []"
        "cbuf (d_AlertChan (pl_disp s)) = []"
  shows "\<exists>pc d. run_step (pl_done s) (pl_pc s, pl_disp s) (pc, d)"
proof (cases "pl_pc s")
  case Selecting
  then obtain m ms where "cbuf (d_ingress (pl_disp s)) = m # ms"
    using assms(3) by (auto simp: neq_Nil_conv)
  then show ?thesis using Selecting by (auto intro!: exI run_step.select_msg)
next
  case (SendingDB m)
  then show ?thesis using assms run_step.db_step [where d = "pl_disp s" and m = m, OF send_ok]
    by (fastforce simp: pipeline_inv_simps)
next
  case (SendingState m)
  then show ?thesis using assms run_step.state_step [where d = "pl_disp s" and m = m, OF send_ok]
    by (fastforce simp: pipeline_inv_simps)
next
  case (SendingAlert m)
  then show ?thesis using assms run_step.alert_step [where d = "pl_disp s" and m = m, OF send_ok]
    by (fastforce simp: pipeline_inv_simps)
next
  case Returned
  then show ?thesis using assms by (simp add: pipeline_inv_def)
qed

lemma run_ready:
  assumes "pipeline_inv s" "\<not> pl_done s"
    and "pl_pc s \<noteq> Selecting \<or> cbuf (d_ingress (pl_disp s)) \<noteq> []"
    and "cbuf (d_DBChan (pl_disp s)) = []" "cbuf (d_StateChan (pl_disp s)) = []"
        "cbuf (d_AlertChan (pl_disp s)) = []"
  shows "\<exists>t. internal_step s t"
  using run_step_ready [OF assms] by (blast intro: internal_step.run)

lemma take_ready:
  "cbuf (d_DBChan (pl_disp s)) \<noteq> [] \<or> cbuf (d_StateChan (pl_disp s)) \<noteq> [] \<or>
   cbuf (d_AlertChan (pl_disp s)) \<noteq> [] \<Longrightarrow> \<exists>t. internal_step s t"
  by (auto simp: neq_Nil_conv) (meson ch_recv_Received internal_step.intros)+

lemma stuck_delivered:
  assumes "pipeline_inv s" "\<not> pl_done s" "\<nexists>t. internal_step s t"
  shows "delivered s"
proof -
  have "cbuf (d_DBChan (pl_disp s)) = []" "cbuf (d_StateChan (pl_disp s)) = []"
       "cbuf (d_AlertChan (pl_disp s)) = []"
    using take_ready assms(3) by blast+
  moreover from this have "pl_pc s = Selecting" "cbuf (d_ingress (pl_disp s)) = []"
    using run_ready [OF assms(1,2)] assms(3) by blast+
  ultimately show ?thesis using assms(1) by (auto simp: pipeline_inv_def lane_def delivered_def)
qed

lemma drains:
  "pipeline_inv s \<Longrightarrow> \<not> pl_done s \<Longrightarrow> \<exists>t. internal_step\<^sup>*\<^sup>* s t \<and> delivered t"
proof (induction "work_left s" arbitrary: s rule: less_induct)
  case less
  show ?case
  proof (cases "\<exists>t. internal_step s t")
    case True
    then obtain t where t: "internal_step s t" by blast
    then have "\<exists>u. internal_step\<^sup>*\<^sup>* t u \<and> delivered u"
      using less.hyps [of t] less.prems internal_step_work internal_step_inv internal_step_frame
      by blast
    then show ?thesis using t by (blast intro: converse_rtranclp_into_rtranclp)
  next
    case False
    then show ?thesis using stuck_delivered [OF less.prems] by blast
  qed
qed

section \<open>After a cancellation\<close>

lemma returned_stays:
  assumes "pipeline_step s t" "pl_pc s = Returned"
  shows "pl_pc t = Returned \<and>
         (\<exists>ms. cbuf (d_ingress (pl_disp t)) = cbuf (d_ingress (pl_disp s)) @ ms)"
  using assms(1)
proof (cases rule: pipeline_step.cases)
  case (request m ok d mt)
  then show ?thesis using assms(2) by (cases ok) (auto simp: Dispatch_True dest!: Dispatch_False)
next
  case cancel
  then show ?thesis using assms(2) by simp
next
  case internal
  then show ?thesis using assms(2) by (auto elim!: internal_step.cases elim: run_step.cases)
qed

lemma returned_forever:
  "pipeline_step\<^sup>*\<^sup>* s t \<Longrightarrow> pl_pc s = Returned \<Longrightarrow>
     pl_pc t = Returned \<and> (\<exists>ms. cbuf (d_ingress (pl_disp t)) = cbuf (d_ingress (pl_disp s)) @ ms)"
  by (induction rule: rtranclp_induct) (auto dest: returned_stays)

section \<open>Properties\<close>

definition sample_dispatcher :: Dispatcher where
  "sample_dispatcher = the (NewDispatcher 1 1 1)"

definition sample_admitted :: pipeline where
  "sample_admitted = (pipeline_init sample_dispatcher)
     \<lparr>pl_disp := fst (snd (Dispatch sample_msg sample_dispatcher zero_metrics)),
      pl_metrics := snd (snd (Dispatch sample_msg sample_dispatcher zero_metrics)),
      pl_accepted := [sample_msg]\<rparr>"

lemma sample_start: "pipeline_reachable 1 1 1 (pipeline_init sample_dispatcher)"
  by (rule pipeline_reachable.start) (simp_all add: sample_dispatcher_def NewDispatcher_Some NewDispatcher_def make_chan_def)

lemma sample_reachable: "pipeline_reachable 1 1 1 sample_admitted"
proof -
  have "pipeline_step (pipeline_init sample_dispatcher) sample_admitted"
    using pipeline_step.request [of sample_msg "pipeline_init sample_dispatcher" True]
    by (simp add: sample_admitted_def pipeline_init_def sample_dispatcher_def NewDispatcher_def
        make_chan_def Dispatch_def ch_send_def)
  then show ?thesis by (rule pipeline_reachable.step [OF sample_start])
qed

lemma sample_running: "\<not> pl_done sample_admitted"
  by (simp add: sample_admitted_def pipeline_init_def)

text \<open>Admission control: \<open>Dispatch\<close> accepts a message exactly when the ingress queue is open and
  has room, appends it there and touches nothing else; otherwise it changes no channel and counts
  one rejection. It never blocks and never panics on the open queue.\<close>

theorem Dispatch_admission:
  assumes "\<not> cclosed (d_ingress d)"
  shows "Dispatch m d mt =
     (if length (cbuf (d_ingress d)) < ccap (d_ingress d)
      then (True, d\<lparr>d_ingress := (d_ingress d)\<lparr>cbuf := cbuf (d_ingress d) @ [m]\<rparr>\<rparr>, mt)
      else (False, d, mt\<lparr>DBDispatchRejected := wrap64 (DBDispatchRejected mt + 1)\<rparr>))"
  using assms by (simp add: Dispatch_def ch_send_def add_rejected_def counter_add_def)

theorem Dispatch_admission_witness:
  "Dispatch sample_msg (pl_disp sample_admitted) zero_metrics =
     (False, pl_disp sample_admitted, zero_metrics\<lparr>DBDispatchRejected := 1\<rparr>)"
  using Dispatch_admission [of "pl_disp sample_admitted" sample_msg zero_metrics]
  by (simp add: sample_admitted_def sample_dispatcher_def NewDispatcher_def make_chan_def Dispatch_def
      ch_send_def zero_metrics_def wrap64_def)

text \<open>C5. No loss, no duplication, no reordering: in every reachable state of the pipeline, and for
  each of the three lanes, the messages admitted so far are exactly, in order, those the lane's
  workers received, those in its channel, at most one in the dispatcher's hand and those in the
  ingress queue; the queues stay within their capacities.\<close>

theorem pipeline_conservation:
  assumes "pipeline_reachable db st al s"
  shows "\<exists>l1 l2 l3. length l1 \<le> 1 \<and> length l2 \<le> 1 \<and> length l3 \<le> 1 \<and>
     pl_accepted s = pl_db s @ cbuf (d_DBChan (pl_disp s)) @ l1 @ cbuf (d_ingress (pl_disp s)) \<and>
     pl_accepted s = pl_state s @ cbuf (d_StateChan (pl_disp s)) @ l2 @ cbuf (d_ingress (pl_disp s)) \<and>
     pl_accepted s = pl_alert s @ cbuf (d_AlertChan (pl_disp s)) @ l3 @ cbuf (d_ingress (pl_disp s)) \<and>
     chans_open (pl_disp s)"
  using pipeline_reachable_inv [OF assms] by (auto simp: pipeline_inv_def lane_def)

theorem pipeline_conservation_witness:
  "\<exists>l1. length l1 \<le> 1 \<and>
     pl_accepted sample_admitted = pl_db sample_admitted @ cbuf (d_DBChan (pl_disp sample_admitted)) @ l1 @
       cbuf (d_ingress (pl_disp sample_admitted))"
  using pipeline_conservation [OF sample_reachable] by blast

text \<open>Every accepted message is delivered: while the context is not cancelled, the dispatcher
  and the workers can take only finitely many steps without a new request, some run of them
  delivers every accepted message to all three kinds of worker, and every run that cannot go on
  has delivered them all.\<close>

theorem pipeline_drains:
  assumes "pipeline_reachable db st al s" "\<not> pl_done s"
  shows "(\<exists>t. internal_step\<^sup>*\<^sup>* s t \<and> delivered t \<and> pl_accepted t = pl_accepted s) \<and>
     (\<forall>n t. (internal_step ^^ n) s t \<longrightarrow> n \<le> work_left s) \<and>
     (\<forall>t. internal_step\<^sup>*\<^sup>* s t \<and> (\<nexists>u. internal_step t u) \<longrightarrow> delivered t)"
proof (intro conjI allI impI)
  have inv: "pipeline_inv s" using pipeline_reachable_inv [OF assms(1)] .
  show "\<exists>t. internal_step\<^sup>*\<^sup>* s t \<and> delivered t \<and> pl_accepted t = pl_accepted s"
    using drains [OF inv assms(2)] internal_steps_frame by blast
  show "n \<le> work_left s" if "(internal_step ^^ n) s t" for n t
    using internal_steps_bound [OF that assms(2)] by simp
  show "delivered t" if "internal_step\<^sup>*\<^sup>* s t \<and> (\<nexists>u. internal_step t u)" for t
    using that internal_steps_inv [OF _ inv] internal_steps_frame assms(2) stuck_delivered by blast
qed

theorem pipeline_drains_witness:
  "\<exists>t. internal_step\<^sup>*\<^sup>* sample_admitted t \<and> delivered t \<and> pl_accepted t = [sample_msg]"
  using pipeline_drains [OF sample_reachable sample_running] by (simp add: sample_admitted_def)

text \<open>Cancellation strands what was accepted: a state can be reached in which a message was
  accepted, the context is cancelled and \<open>Run\<close> has returned, and after it, whatever happens, the
  message stays in the ingress queue and \<open>Run\<close> never starts again.\<close>

theorem cancellation_strands_messages:
  "\<exists>s. pipeline_reachable 1 1 1 s \<and> pl_accepted s = [sample_msg] \<and>
     (\<forall>t. pipeline_step\<^sup>*\<^sup>* s t \<longrightarrow>
        pl_pc t = Returned \<and> sample_msg \<in> set (cbuf (d_ingress (pl_disp t))))"
proof -
  let ?c = "sample_admitted\<lparr>pl_done := True\<rparr>"
  let ?r = "?c\<lparr>pl_pc := Returned, pl_disp := pl_disp ?c\<rparr>"
  have "pl_pc ?c = Selecting" by (simp add: sample_admitted_def pipeline_init_def)
  then have "internal_step ?c ?r"
    using run_step.select_done [of True "pl_disp ?c"] by (intro internal_step.run) simp
  then have "pipeline_reachable 1 1 1 ?r"
    by (blast intro: pipeline_reachable.step [OF pipeline_reachable.step [OF sample_reachable]]
        pipeline_step.cancel pipeline_step.internal)
  moreover have "pl_accepted ?r = [sample_msg]" "sample_msg \<in> set (cbuf (d_ingress (pl_disp ?r)))"
    by (simp_all add: sample_admitted_def sample_dispatcher_def NewDispatcher_def make_chan_def Dispatch_def ch_send_def)
  moreover have "pl_pc t = Returned \<and> sample_msg \<in> set (cbuf (d_ingress (pl_disp t)))"
    if "pipeline_step\<^sup>*\<^sup>* ?r t" for t
    using returned_forever [OF that] calculation(3) by auto
  ultimately show ?thesis by blast
qed

theorem cancellation_strands_messages_witness:
  "\<exists>s. pipeline_reachable 1 1 1 s \<and> pl_accepted s = [sample_msg] \<and> pl_pc s = Returned \<and>
     sample_msg \<in> set (cbuf (d_ingress (pl_disp s)))"
  using cancellation_strands_messages by blast

end
