(* ===== verification/Ingest_Writers.thy ===== *)
theory Ingest_Writers
  imports Ingest_Store Ingest_Metrics
begin

text \<open>
  The two batch writers of the pipeline (\<open>src/ingestion/internal/pipeline/db_writer.go\<close>,
  \<open>state_writer.go\<close>). \<open>Run\<close> is a loop around a \<open>select\<close>; one iteration is a function of the case
  that was chosen, of whether the context is cancelled when the store is called, and of the
  time. A run is a list of such events. The store calls are those of \<open>Ingest_Store\<close>.

  The locale \<open>batching_writer\<close> is what the two loops share; both interpret it. The field
  \<open>wr_flushed\<close> is a history variable: the batches handed to the store.
\<close>

datatype select_case = CaseMsg TelemetryMessage | CaseClosed | CaseTick | CaseDone

record 'e writer =
  wr_batch :: "TelemetryMessage list"
  wr_running :: bool
  wr_env :: 'e
  wr_flushed :: "TelemetryMessage list list"

definition writer_init :: "'e \<Rightarrow> 'e writer" where
  "writer_init env = \<lparr>wr_batch = [], wr_running = True, wr_env = env, wr_flushed = []\<rparr>"

text \<open>What a received case adds to the stream of messages.\<close>

fun case_input :: "select_case \<Rightarrow> TelemetryMessage list" where
  "case_input (CaseMsg m) = [m]"
| "case_input CaseClosed = []"
| "case_input CaseTick = []"
| "case_input CaseDone = []"

section \<open>DBWriter\<close>

record DBWriter =
  dw_batchSize :: int
  dw_flushMS :: int

definition NewDBWriter :: "int \<Rightarrow> int \<Rightarrow> DBWriter" where
  "NewDBWriter batchSize flushMS =
     \<lparr>dw_batchSize = (if batchSize < 1 then 1 else batchSize),
      dw_flushMS = (if flushMS < 1 then 1 else flushMS)\<rparr>"

text \<open>The period of the ticker; \<open>time.NewTicker\<close> panics (\<open>None\<close>) on a period that is not positive.\<close>

definition flush_ticker :: "DBWriter \<Rightarrow> duration option" where
  "flush_ticker w = (let d = duration_of (dw_flushMS w) Millisecond in if d \<le> 0 then None else Some d)"

text \<open>\<open>c\<close>: the context is done at the first call; \<open>c2\<close>: it is done after the sleep.\<close>

definition flush ::
  "bool \<Rightarrow> bool \<Rightarrow> TelemetryMessage list \<Rightarrow> pg \<times> metrics \<Rightarrow> pg \<times> metrics" where
  "flush c c2 batch env =
     (case BatchInsert c batch (fst env) of
        (None, p) \<Rightarrow> (p, add_success (length batch) (snd env))
      | (Some e, p) \<Rightarrow>
          (let p = p\<lparr>pg_now := pg_now p + 500 * Millisecond\<rparr>
           in case BatchInsert (c \<or> c2) batch p of
                (None, p) \<Rightarrow> (p, add_success (length batch) (snd env))
              | (Some e, p) \<Rightarrow> (p, add_failures (length batch) (snd env))))"

record db_event =
  de_case :: select_case
  de_done :: bool
  de_done2 :: bool
  de_now :: time

definition db_flush :: "db_event \<Rightarrow> TelemetryMessage list \<Rightarrow> (pg \<times> metrics) writer \<Rightarrow> (pg \<times> metrics) writer" where
  "db_flush ev batch s =
     s\<lparr>wr_env := flush (de_done ev \<or> de_case ev = CaseDone) (de_done2 ev) batch (wr_env s),
       wr_flushed := wr_flushed s @ [batch], wr_batch := []\<rparr>"

definition at_time :: "time \<Rightarrow> (pg \<times> metrics) writer \<Rightarrow> (pg \<times> metrics) writer" where
  "at_time now s = s\<lparr>wr_env := ((fst (wr_env s))\<lparr>pg_now := now\<rparr>, snd (wr_env s))\<rparr>"

definition DBWriter_step :: "DBWriter \<Rightarrow> db_event \<Rightarrow> (pg \<times> metrics) writer \<Rightarrow> (pg \<times> metrics) writer" where
  "DBWriter_step w ev s0 =
     (if \<not> wr_running s0 then s0
      else let s = at_time (de_now ev) s0 in
      (case de_case ev of
         CaseClosed \<Rightarrow>
           (if wr_batch s \<noteq> [] then db_flush ev (wr_batch s) s else s)\<lparr>wr_running := False\<rparr>
       | CaseMsg m \<Rightarrow>
           (let batch = wr_batch s @ [m]
            in if dw_batchSize w \<le> int (length batch) then db_flush ev batch s
               else s\<lparr>wr_batch := batch\<rparr>)
       | CaseTick \<Rightarrow> if wr_batch s \<noteq> [] then db_flush ev (wr_batch s) s else s
       | CaseDone \<Rightarrow>
           (if wr_batch s \<noteq> [] then db_flush ev (wr_batch s) s else s)\<lparr>wr_running := False\<rparr>))"

definition DBWriter_Run :: "DBWriter \<Rightarrow> db_event list \<Rightarrow> pg \<times> metrics \<Rightarrow> (pg \<times> metrics) writer" where
  "DBWriter_Run w evs env = fold (DBWriter_step w) evs (writer_init env)"

section \<open>StateWriter\<close>

definition flushBatch ::
  "'r redis_client \<Rightarrow> bool \<Rightarrow> TelemetryMessage list \<Rightarrow> 'r \<Rightarrow> 'r" where
  "flushBatch rc c batch r =
     (if batch = [] then r else snd (PipelineStateUpdates rc c batch r))"

record state_event =
  se_case :: select_case
  se_done :: bool

definition state_flush ::
  "'r redis_client \<Rightarrow> state_event \<Rightarrow> TelemetryMessage list \<Rightarrow> 'r writer \<Rightarrow> 'r writer" where
  "state_flush rc ev batch s =
     s\<lparr>wr_env := flushBatch rc (se_done ev \<or> se_case ev = CaseDone) batch (wr_env s),
       wr_flushed := (if batch = [] then wr_flushed s else wr_flushed s @ [batch]), wr_batch := []\<rparr>"

definition StateWriter_step :: "'r redis_client \<Rightarrow> state_event \<Rightarrow> 'r writer \<Rightarrow> 'r writer" where
  "StateWriter_step rc ev s =
     (if \<not> wr_running s then s
      else
      (case se_case ev of
         CaseClosed \<Rightarrow> (state_flush rc ev (wr_batch s) s)\<lparr>wr_running := False\<rparr>
       | CaseMsg m \<Rightarrow>
           (let batch = wr_batch s @ [m]
            in if 100 \<le> length batch then state_flush rc ev batch s else s\<lparr>wr_batch := batch\<rparr>)
       | CaseTick \<Rightarrow> if wr_batch s \<noteq> [] then state_flush rc ev (wr_batch s) s else s
       | CaseDone \<Rightarrow> (state_flush rc ev (wr_batch s) s)\<lparr>wr_running := False\<rparr>))"

definition StateWriter_Run :: "'r redis_client \<Rightarrow> state_event list \<Rightarrow> 'r \<Rightarrow> 'r writer" where
  "StateWriter_Run rc evs r = fold (StateWriter_step rc) evs (writer_init r)"

section \<open>What the two loops share\<close>

locale batching_writer =
  fixes step :: "'ev \<Rightarrow> 'e writer \<Rightarrow> 'e writer"
    and ev_case :: "'ev \<Rightarrow> select_case"
    and limit :: nat
  assumes stopped: "\<not> wr_running s \<Longrightarrow> step e s = s"
    and takes: "wr_running s \<Longrightarrow>
          concat (wr_flushed (step e s)) @ wr_batch (step e s) =
          concat (wr_flushed s) @ wr_batch s @ case_input (ev_case e)"
    and stays_below: "wr_running s \<Longrightarrow> length (wr_batch s) < limit \<Longrightarrow> length (wr_batch (step e s)) < limit"
    and batch_sizes: "wr_running s \<Longrightarrow> length (wr_batch s) < limit \<Longrightarrow>
          b \<in> set (wr_flushed (step e s)) \<Longrightarrow> b \<in> set (wr_flushed s) \<or> b \<noteq> [] \<and> length b \<le> limit"
    and stops: "wr_running s \<Longrightarrow> wr_running (step e s) \<longleftrightarrow> ev_case e \<notin> {CaseClosed, CaseDone}"
    and final: "wr_running s \<Longrightarrow> \<not> wr_running (step e s) \<Longrightarrow> wr_batch (step e s) = []"
begin

fun received :: "'ev list \<Rightarrow> 'e writer \<Rightarrow> TelemetryMessage list" where
  "received [] s = []"
| "received (e # es) s = (if wr_running s then case_input (ev_case e) @ received es (step e s) else [])"

lemma stopped_fold: "\<not> wr_running s \<Longrightarrow> fold step es s = s"
  by (induction es) (simp_all add: stopped)

lemma conservation:
  "concat (wr_flushed (fold step es s)) @ wr_batch (fold step es s) =
     concat (wr_flushed s) @ wr_batch s @ received es s"
proof (induction es arbitrary: s)
  case (Cons e es)
  then show ?case
    by (cases "wr_running s") (simp_all add: takes [of s e] stopped stopped_fold)
qed simp

lemma below_limit:
  "length (wr_batch s) < limit \<Longrightarrow> length (wr_batch (fold step es s)) < limit"
proof (induction es arbitrary: s)
  case (Cons e es)
  then show ?case by (cases "wr_running s") (simp_all add: stays_below stopped)
qed simp

lemma flushed_sizes:
  "length (wr_batch s) < limit \<Longrightarrow> b \<in> set (wr_flushed (fold step es s)) \<Longrightarrow>
     b \<in> set (wr_flushed s) \<or> b \<noteq> [] \<and> length b \<le> limit"
proof (induction es arbitrary: s)
  case (Cons e es)
  show ?case
  proof (cases "wr_running s")
    case True
    then show ?thesis
      using Cons.IH [of "step e s"] Cons.prems stays_below [of s e] batch_sizes [of s b e] by auto
  next
    case False
    then show ?thesis using Cons by (simp add: stopped)
  qed
qed simp

text \<open>A closed channel or a cancelled context ends the loop, with every message handed over.\<close>

lemma final_fold:
  "wr_running s \<Longrightarrow> \<not> wr_running (fold step es s) \<Longrightarrow> wr_batch (fold step es s) = []"
proof (induction es arbitrary: s)
  case (Cons e es)
  then show ?case
    by (cases "wr_running (step e s)") (simp_all add: final stopped_fold)
qed simp

lemma stops_fold:
  "wr_running s \<Longrightarrow>
     wr_running (fold step es s) \<longleftrightarrow> (\<forall>e\<in>set es. ev_case e \<notin> {CaseClosed, CaseDone})"
proof (induction es arbitrary: s)
  case (Cons e es)
  then show ?case
    by (cases "wr_running (step e s)") (use stops [of s e] in \<open>auto simp: stopped_fold\<close>)
qed simp

end

lemmas writer_defs = db_flush_def at_time_def DBWriter_step_def state_flush_def StateWriter_step_def

interpretation dbw: batching_writer "DBWriter_step (NewDBWriter n ms)" de_case "nat (dw_batchSize (NewDBWriter n ms))"
  for n ms
  by unfold_locales
    (auto simp: writer_defs NewDBWriter_def Let_def split: select_case.splits if_splits)

interpretation stw: batching_writer "StateWriter_step rc" se_case 100
  for rc :: "'r redis_client"
  by unfold_locales
    (auto simp: writer_defs Let_def split: select_case.splits if_splits)

section \<open>What a flush does to the table and the counters\<close>

definition store_rows :: "TelemetryMessage list \<Rightarrow> pg \<Rightarrow> pg" where
  "store_rows ms p =
     p\<lparr>pg_db := (pg_db p)\<lparr>vehicle_telemetry :=
         vehicle_telemetry (pg_db p) @ map (telemetry_row_of (pg_now p)) ms\<rparr>\<rparr>"

definition next_outcome :: "pg \<Rightarrow> outcome" where
  "next_outcome p = (case pg_plan p of [] \<Rightarrow> Succeed | o' # os \<Rightarrow> o')"

definition step_plan :: "pg \<Rightarrow> pg" where
  "step_plan p = p\<lparr>pg_plan := tl (pg_plan p)\<rparr>"

lemma BatchInsert_outcome:
  assumes "ms \<noteq> []"
  shows "BatchInsert c ms p =
     (if c then (Some CtxCanceled, p)
      else case next_outcome p of
             Succeed \<Rightarrow> (None, step_plan (store_rows ms p))
           | FailBefore \<Rightarrow> (Some ConnErr, step_plan p)
           | FailAfter \<Rightarrow> (Some ConnErr, step_plan (store_rows ms p)))"
  using assms
  by (auto simp: BatchInsert_def pg_run_def copy_telemetry_def copy_rows_telemetry next_outcome_def
        step_plan_def store_rows_def Let_def split: outcome.splits list.splits)

text \<open>A row without its receipt time, which the server chooses at the time of the \<open>COPY\<close>.\<close>

definition row_content :: "telemetry_row \<Rightarrow> telemetry_row" where
  "row_content r = r\<lparr>te_received_at := 0\<rparr>"

definition stored_content :: "pg \<Rightarrow> telemetry_row list" where
  "stored_content p = map row_content (vehicle_telemetry (pg_db p))"

definition msg_content :: "TelemetryMessage \<Rightarrow> telemetry_row" where
  "msg_content m = telemetry_row_of 0 m"

lemma row_content_of [simp]: "row_content (telemetry_row_of t m) = msg_content m"
  by (simp add: row_content_def msg_content_def telemetry_row_of_def copy_row_telemetry)

lemma stored_content_simps [simp]:
  "stored_content (store_rows ms p) = stored_content p @ map msg_content ms"
  "stored_content (step_plan p) = stored_content p"
  "stored_content (p\<lparr>pg_now := t\<rparr>) = stored_content p"
  "pg_plan (store_rows ms p) = pg_plan p" "pg_plan (step_plan p) = tl (pg_plan p)"
  "pg_db (step_plan p) = pg_db p"
  by (simp_all add: stored_content_def store_rows_def step_plan_def)

text \<open>One flush of a batch that is not empty: the batch is stored \<open>k\<close> times; a counted success
  means at least once.\<close>

lemma flush_effect:
  assumes "batch \<noteq> []" "flush c c2 batch (p, mt) = (p', mt')"
  shows "\<exists>k\<le>2. stored_content p' = stored_content p @ concat (replicate k (map msg_content batch)) \<and>
     (mt' = add_success (length batch) mt \<and> 1 \<le> k \<or> mt' = add_failures (length batch) mt) \<and>
     (FailAfter \<notin> set (pg_plan p) \<longrightarrow>
        mt' = add_success (length batch) mt \<and> k = 1 \<or> mt' = add_failures (length batch) mt \<and> k = 0)"
proof -
  have plan: "next_outcome q = FailAfter \<Longrightarrow> FailAfter \<in> set (pg_plan q)" for q
    by (auto simp: next_outcome_def split: list.splits)
  have tl: "FailAfter \<in> set (tl xs) \<Longrightarrow> FailAfter \<in> set xs" for xs
    by (cases xs) auto
  note sp = BatchInsert_outcome [OF assms(1)] flush_def Let_def
  have two: "concat (replicate 2 xs) = xs @ xs" for xs :: "telemetry_row list"
    by (simp add: numeral_2_eq_2)
  show ?thesis
  proof (cases "stored_content p' = stored_content p")
    case True
    then show ?thesis using assms(2)
      by (intro exI [of _ 0]) (auto simp: sp assms(1) split: if_splits outcome.splits)
  next
    case neq: False
    show ?thesis
    proof (cases "stored_content p' = stored_content p @ map msg_content batch")
      case True
      then show ?thesis using assms(2) neq
        by (intro exI [of _ 1])
           (auto simp: sp assms(1) split: if_splits outcome.splits dest!: plan intro: tl)
    next
      case False
      then show ?thesis using assms(2) neq
        by (intro exI [of _ 2])
           (auto simp: sp two assms(1) split: if_splits outcome.splits dest!: plan)
    qed
  qed
qed

definition writes_total :: "metrics \<Rightarrow> int" where
  "writes_total m = wrap64 (DBWriteSuccess m + DBWriteFailures m)"

lemma wrap64_add_right: "wrap64 (x + wrap64 y) = wrap64 (x + y)"
  using wrap64_add_left [of y x] by (simp add: add.commute)

lemma writes_total_add [simp]:
  "writes_total (add_success n m) = wrap64 (writes_total m + int n)"
  "writes_total (add_failures n m) = wrap64 (writes_total m + int n)"
  by (simp_all add: writes_total_def add_success_def add_failures_def counter_add_def
      wrap64_add_left wrap64_add_right ac_simps)

lemma flush_total:
  "flush c c2 batch (p, mt) = (p', mt') \<Longrightarrow> writes_total mt' = wrap64 (writes_total mt + int (length batch))"
  by (auto simp: flush_def Let_def split: prod.splits option.splits)

text \<open>What the two counters claim beyond the messages handed to the store: no step changes it.\<close>

definition unaccounted :: "(pg \<times> metrics) writer \<Rightarrow> int" where
  "unaccounted s = wrap64 (writes_total (snd (wr_env s)) - int (length (concat (wr_flushed s))))"

lemma db_flush_unaccounted: "unaccounted (db_flush ev b s) = unaccounted s"
proof -
  let ?f = "flush (de_done ev \<or> de_case ev = CaseDone) (de_done2 ev) b (wr_env s)"
  let ?n = "int (length (concat (wr_flushed s)))"
  have "writes_total (snd ?f) = wrap64 (writes_total (snd (wr_env s)) + int (length b))"
    using flush_total [of _ _ b "fst (wr_env s)" "snd (wr_env s)" "fst ?f" "snd ?f"] by simp
  then have "unaccounted (db_flush ev b s) =
      wrap64 (wrap64 (writes_total (snd (wr_env s)) + int (length b)) + (- ?n - int (length b)))"
    by (simp add: unaccounted_def db_flush_def algebra_simps)
  then show ?thesis by (simp add: wrap64_add_left unaccounted_def)
qed

lemma unaccounted_simps [simp]:
  "unaccounted (at_time t s) = unaccounted s" "unaccounted (s\<lparr>wr_batch := b\<rparr>) = unaccounted s"
  "unaccounted (s\<lparr>wr_running := r\<rparr>) = unaccounted s"
  by (simp_all add: unaccounted_def at_time_def)

lemma DBWriter_step_unaccounted: "unaccounted (DBWriter_step w ev s) = unaccounted s"
  by (simp add: DBWriter_step_def Let_def db_flush_unaccounted split: select_case.split)

lemma DBWriter_fold_unaccounted: "unaccounted (fold (DBWriter_step w) evs s) = unaccounted s"
  by (induction evs arbitrary: s) (simp_all add: DBWriter_step_unaccounted)

text \<open>With a live context and a server that loses no reply, a flush stores its batch once.\<close>

lemma flush_live:
  "batch \<noteq> [] \<Longrightarrow> pg_plan p = [] \<Longrightarrow>
     flush False c2 batch (p, mt) = (step_plan (store_rows batch p), add_success (length batch) mt)"
  by (simp add: flush_def BatchInsert_outcome next_outcome_def)

definition live_event :: "db_event \<Rightarrow> bool" where
  "live_event ev \<longleftrightarrow> \<not> de_done ev \<and> de_case ev \<noteq> CaseDone"

lemma DBWriter_step_live:
  assumes "live_event ev" "wr_running s" "pg_plan (fst (wr_env s)) = []"
    and "stored_content (fst (wr_env s)) = c0 @ map msg_content (concat (wr_flushed s))"
  shows "pg_plan (fst (wr_env (DBWriter_step w ev s))) = [] \<and>
     stored_content (fst (wr_env (DBWriter_step w ev s))) =
       c0 @ map msg_content (concat (wr_flushed (DBWriter_step w ev s)))"
proof -
  have fl: "flush False c2 b env = (step_plan (store_rows b (fst env)), add_success (length b) (snd env))"
    if "b \<noteq> []" "pg_plan (fst env) = []" for c2 b env
    using flush_live [of b "fst env" c2 "snd env"] that by simp
  show ?thesis
    using assms
    by (auto simp: DBWriter_step_def at_time_def db_flush_def live_event_def Let_def fl
        split: select_case.splits)
qed

lemma DBWriter_fold_live:
  assumes "\<forall>ev\<in>set evs. live_event ev" "pg_plan (fst (wr_env s)) = []"
    and "stored_content (fst (wr_env s)) = c0 @ map msg_content (concat (wr_flushed s))"
  shows "stored_content (fst (wr_env (fold (DBWriter_step w) evs s))) =
       c0 @ map msg_content (concat (wr_flushed (fold (DBWriter_step w) evs s)))"
  using assms
proof (induction evs arbitrary: s)
  case (Cons ev evs)
  then show ?case
  proof (cases "wr_running s")
    case True
    then show ?thesis using Cons DBWriter_step_live [of ev s c0 w] by auto
  next
    case False
    then show ?thesis using Cons by (simp add: DBWriter_step_def)
  qed
qed simp

section \<open>Properties\<close>

definition sample_pg :: "outcome list \<Rightarrow> pg" where
  "sample_pg plan = \<lparr>pg_db = empty_db, pg_now = 1700000002 * Second, pg_plan = plan\<rparr>"

lemma stored_sample: "stored_content (sample_pg plan) = []"
  by (simp add: stored_content_def sample_pg_def empty_db_def)

definition sample_event :: "select_case \<Rightarrow> db_event" where
  "sample_event c = \<lparr>de_case = c, de_done = False, de_done2 = False, de_now = 1700000003 * Second\<rparr>"

text \<open>The batch writer loses and reorders nothing: whatever the events of its \<open>select\<close>, the
  batches it handed to the store, one after the other, followed by the batch it still holds, are
  the messages it received, in order; the held batch is smaller than the batch size and every
  flushed batch has between one and batch-size messages; when the loop has ended (channel closed
  or context cancelled) nothing is held.\<close>

theorem DBWriter_conservation:
  fixes n ms :: int
  defines "w \<equiv> NewDBWriter n ms"
  shows "concat (wr_flushed (DBWriter_Run w evs env)) @ wr_batch (DBWriter_Run w evs env) =
           dbw.received n ms evs (writer_init env) \<and>
         length (wr_batch (DBWriter_Run w evs env)) < nat (dw_batchSize w) \<and>
         list_all (\<lambda>b. b \<noteq> [] \<and> length b \<le> nat (dw_batchSize w)) (wr_flushed (DBWriter_Run w evs env)) \<and>
         (wr_running (DBWriter_Run w evs env) \<or> wr_batch (DBWriter_Run w evs env) = [])"
proof -
  have lim: "0 < nat (dw_batchSize w)" by (simp add: w_def NewDBWriter_def)
  show ?thesis
    using dbw.conservation [of n ms evs "writer_init env"] dbw.below_limit [of "writer_init env" n ms evs]
      dbw.flushed_sizes [of "writer_init env" n ms _ evs] dbw.final_fold [of "writer_init env" n ms evs] lim
    by (auto simp: DBWriter_Run_def writer_init_def w_def list_all_iff)
qed

text \<open>Every row is accounted for: with a live context and a database that answers, the
  telemetry table grows by exactly the rows of the messages flushed, in order and once each.\<close>

theorem DBWriter_persists_once:
  assumes "\<forall>ev\<in>set evs. live_event ev" "pg_plan p = []"
  shows "stored_content (fst (wr_env (DBWriter_Run w evs (p, mt)))) =
           stored_content p @ map msg_content (concat (wr_flushed (DBWriter_Run w evs (p, mt))))"
  using DBWriter_fold_live [OF assms(1), of "writer_init (p, mt)" "stored_content p" w] assms(2)
  by (simp add: DBWriter_Run_def writer_init_def)

theorem DBWriter_persists_once_witness:
  "stored_content (fst (wr_env (DBWriter_Run (NewDBWriter 2 100)
       [sample_event (CaseMsg sample_msg), sample_event CaseTick] (sample_pg [], zero_metrics)))) =
     [msg_content sample_msg]"
  using DBWriter_persists_once [of "[sample_event (CaseMsg sample_msg), sample_event CaseTick]"
      "sample_pg []" "NewDBWriter 2 100" zero_metrics]
  by (simp add: sample_event_def live_event_def sample_pg_def DBWriter_Run_def DBWriter_step_def
      NewDBWriter_def at_time_def db_flush_def writer_init_def stored_content_def empty_db_def)

text \<open>C21. One flush, under any failures: the batch is stored zero, one or two times as a whole, it is
  counted once, as a success or as a failure; a counted success is stored at least once; and if
  the database loses no reply after committing, a success is stored exactly once and a failure not
  at all.\<close>

theorem flush_outcomes:
  assumes "batch \<noteq> []" "flush c c2 batch (p, mt) = (p', mt')"
  shows "\<exists>k\<le>2. stored_content p' = stored_content p @ concat (replicate k (map msg_content batch)) \<and>
     (mt' = add_success (length batch) mt \<and> 1 \<le> k \<or> mt' = add_failures (length batch) mt) \<and>
     (FailAfter \<notin> set (pg_plan p) \<longrightarrow>
        mt' = add_success (length batch) mt \<and> k = 1 \<or> mt' = add_failures (length batch) mt \<and> k = 0)"
  using flush_effect [OF assms] .

theorem flush_outcomes_witness:
  "\<exists>k\<le>2. stored_content (fst (flush False False [sample_msg] (sample_pg [FailAfter], zero_metrics))) =
     concat (replicate k [msg_content sample_msg])"
  using flush_outcomes [of "[sample_msg]" False False "sample_pg [FailAfter]" zero_metrics
      "fst (flush False False [sample_msg] (sample_pg [FailAfter], zero_metrics))"
      "snd (flush False False [sample_msg] (sample_pg [FailAfter], zero_metrics))"]
  by (auto simp: stored_content_def sample_pg_def empty_db_def)

text \<open>The retry can store a batch twice: when the reply to the first \<open>COPY\<close> is lost after it
  committed, the second one succeeds, the flush counts one success, and the table holds the
  message two times.\<close>

theorem flush_can_duplicate:
  "stored_content (fst (flush False False [sample_msg] (sample_pg [FailAfter], zero_metrics))) =
     [msg_content sample_msg, msg_content sample_msg] \<and>
   DBWriteSuccess (snd (flush False False [sample_msg] (sample_pg [FailAfter], zero_metrics))) = 1 \<and>
   DBWriteFailures (snd (flush False False [sample_msg] (sample_pg [FailAfter], zero_metrics))) = 0"
proof -
  have "flush False False [sample_msg] (sample_pg [FailAfter], zero_metrics) =
      (step_plan (store_rows [sample_msg] ((step_plan (store_rows [sample_msg] (sample_pg [FailAfter])))
         \<lparr>pg_now := pg_now (sample_pg [FailAfter]) + 500 * Millisecond\<rparr>)), add_success 1 zero_metrics)"
    by (simp add: flush_def BatchInsert_outcome next_outcome_def sample_pg_def step_plan_def store_rows_def)
  then show ?thesis
    by (simp add: stored_sample add_success_def zero_metrics_def counter_add_def wrap64_def)
qed

text \<open>The counters account for every flushed message: the sum of the success and failure
  counters grows by exactly the number of messages handed to the store, modulo the 64-bit
  wrap-around, whatever fails.\<close>

theorem DBWriter_counters:
  "writes_total (snd (wr_env (DBWriter_Run w evs (p, mt)))) =
     wrap64 (writes_total mt + int (length (concat (wr_flushed (DBWriter_Run w evs (p, mt))))))"
proof -
  let ?s = "DBWriter_Run w evs (p, mt)"
  let ?n = "int (length (concat (wr_flushed ?s)))"
  have eq: "wrap64 (writes_total (snd (wr_env ?s)) - ?n) = wrap64 (writes_total mt)"
    using DBWriter_fold_unaccounted [of w evs "writer_init (p, mt)"]
    by (simp add: DBWriter_Run_def writer_init_def unaccounted_def)
  have "wrap64 (writes_total (snd (wr_env ?s)) - ?n + ?n) = wrap64 (writes_total mt + ?n)"
    using arg_cong [OF eq, of "\<lambda>x. wrap64 (x + ?n)"] by (simp only: wrap64_add_left)
  then show ?thesis by (simp add: writes_total_def)
qed

text \<open>C39. On shutdown the batch is lost: when the loop takes the \<open>ctx.Done()\<close> case it flushes under
  the cancelled context, so the database is not touched, the whole batch is counted as failed, and
  the loop ends holding nothing.\<close>

theorem DBWriter_shutdown_loses_batch:
  assumes "wr_running s" "de_case ev = CaseDone"
  shows "pg_db (fst (wr_env (DBWriter_step w ev s))) = pg_db (fst (wr_env s)) \<and>
     DBWriteFailures (snd (wr_env (DBWriter_step w ev s))) =
       (if wr_batch s = [] then DBWriteFailures (snd (wr_env s))
        else counter_add (int (length (wr_batch s))) (DBWriteFailures (snd (wr_env s)))) \<and>
     \<not> wr_running (DBWriter_step w ev s) \<and> wr_batch (DBWriter_step w ev s) = []"
  using assms
  by (auto simp: DBWriter_step_def at_time_def db_flush_def flush_def BatchInsert_canceled add_failures_def Let_def)

theorem DBWriter_shutdown_loses_batch_witness:
  "pg_db (fst (wr_env (DBWriter_step (NewDBWriter 500 100) (sample_event CaseDone)
       \<lparr>wr_batch = [sample_msg], wr_running = True, wr_env = (sample_pg [], zero_metrics), wr_flushed = []\<rparr>))) =
     empty_db"
  using DBWriter_shutdown_loses_batch
    [of "\<lparr>wr_batch = [sample_msg], wr_running = True, wr_env = (sample_pg [], zero_metrics), wr_flushed = []\<rparr>"
        "sample_event CaseDone" "NewDBWriter 500 100"]
  by (simp add: sample_event_def sample_pg_def)

text \<open>The state writer shares the batching contract, with batches of at most 100 messages.\<close>

theorem StateWriter_conservation:
  "concat (wr_flushed (StateWriter_Run rc evs r)) @ wr_batch (StateWriter_Run rc evs r) =
     stw.received rc evs (writer_init r) \<and>
   length (wr_batch (StateWriter_Run rc evs r)) < 100 \<and>
   list_all (\<lambda>b. b \<noteq> [] \<and> length b \<le> 100) (wr_flushed (StateWriter_Run rc evs r)) \<and>
   (wr_running (StateWriter_Run rc evs r) \<or> wr_batch (StateWriter_Run rc evs r) = [])"
  using stw.conservation [of rc evs "writer_init r"] stw.below_limit [of "writer_init r" rc evs]
    stw.flushed_sizes [of "writer_init r" _ rc evs] stw.final_fold [of "writer_init r" rc evs]
  by (auto simp: StateWriter_Run_def writer_init_def list_all_iff)

definition sample_redis :: mem_redis where
  "sample_redis = mem_empty (1700000002 * Second) []"

abbreviation "sample_client \<equiv> mem_client (\<lambda>x. ''0'')"

text \<open>A live vehicle's state: after a batch that the Redis pipeline reports done, the state hash of a
  vehicle holds every field of its last message in the batch, and disappears 30 seconds later
  unless written again; and one message per telemetry message was published to its fleet's
  channel, in order.\<close>

theorem state_update_visible:
  assumes "redis_server rc view clock published"
    and "PipelineStateUpdates rc c (ms @ m # ns) r = (None, r')"
    and "\<forall>n\<in>set ns. tm_VehicleID n \<noteq> tm_VehicleID m" and "clock r \<le> t"
  shows "(\<exists>h. view r' t (state_key (tm_VehicleID m)) =
               (if t < clock r + 30 * Second then Some (RHash h) else None) \<and>
             (\<forall>(f, a)\<in>set (stateData m). map_of h f = Some (arg_text rc a))) \<and>
         published r' = published r @
           map (\<lambda>m. (telemetry_channel (tm_FleetID m), state_json m)) (ms @ m # ns)"
  using redis_server.state_update_view [OF assms] redis_server.state_update_published [OF assms(1,2)]
  by blast

theorem state_update_visible_witness:
  "\<exists>h. mem_view (snd (PipelineStateUpdates sample_client False [sample_msg] sample_redis))
         (1700000012 * Second) ''vehicle:TRUCK-1:state'' = Some (RHash h) \<and>
       map_of h ''fleet_id'' = Some ''fleet-a''"
proof -
  have "PipelineStateUpdates sample_client False ([] @ sample_msg # []) sample_redis =
      (None, snd (PipelineStateUpdates sample_client False [sample_msg] sample_redis))"
    by (simp add: PipelineStateUpdates_def queue_state_def Marshal_def state_json_def stateData_def
        sample_msg_def sample_redis_def mem_empty_def mem_PipeExec_def mem_faulty_def
        mem_now_def mem_view_def Let_def)
  from state_update_visible [OF mem.redis_server_axioms this, of "1700000012 * Second"]
  show ?thesis
    by (auto simp: sample_redis_def mem_empty_def sample_msg_def stateData_def state_key_def Second_def)
qed

text \<open>The state writer's last flush is lost too: in the \<open>ctx.Done()\<close> case the pipeline runs under the
  cancelled context, so no key changes and nothing is published.\<close>

theorem StateWriter_shutdown_loses_batch:
  assumes "redis_server rc view clock published" "wr_running s" "se_case ev = CaseDone"
    and "clock (wr_env s) \<le> t"
  shows "published (wr_env (StateWriter_step rc ev s)) = published (wr_env s) \<and>
     view (wr_env (StateWriter_step rc ev s)) t = view (wr_env s) t \<and>
     \<not> wr_running (StateWriter_step rc ev s) \<and> wr_batch (StateWriter_step rc ev s) = []"
proof -
  have "published (snd (PipelineStateUpdates rc True b r)) = published r \<and>
        (clock r \<le> t \<longrightarrow> view (snd (PipelineStateUpdates rc True b r)) t = view r t)" for b r
    using redis_server.pipe_canceled [OF assms(1), of _ r]
    by (auto simp: PipelineStateUpdates_def split: sum.splits prod.splits option.splits)
  then show ?thesis
    using assms(2-4) by (simp add: StateWriter_step_def state_flush_def flushBatch_def)
qed

theorem StateWriter_shutdown_loses_batch_witness:
  "mr_pub (wr_env (StateWriter_step sample_client \<lparr>se_case = CaseDone, se_done = False\<rparr>
       \<lparr>wr_batch = [sample_msg], wr_running = True, wr_env = sample_redis, wr_flushed = []\<rparr>)) = []"
  using StateWriter_shutdown_loses_batch [OF mem.redis_server_axioms,
      of "\<lparr>wr_batch = [sample_msg], wr_running = True, wr_env = sample_redis, wr_flushed = []\<rparr>"
         "\<lparr>se_case = CaseDone, se_done = False\<rparr>" "mr_now sample_redis" "\<lambda>x. ''0''"]
  by (simp add: sample_redis_def mem_empty_def)

end
