(* ===== verification/Ingest_Alerts.thy ===== *)
theory Ingest_Alerts
  imports Ingest_Writers
begin

text \<open>
  The alert evaluator (\<open>src/ingestion/internal/pipeline/alert_evaluator.go\<close>). For every rule that
  fires it claims the five-minute window of the vehicle and alert type in Redis, inserts the
  alert, and publishes it; when the insert fails it gives the claim back. \<open>evaluate\<close> runs the
  rules one after the other; \<open>rule_outcome\<close> records which of the source's branches was taken.

  Several evaluators run at the same time (\<open>main.go\<close>): \<open>worker_step\<close> splits \<open>evaluate\<close> at its
  store calls, and \<open>alert_system_step\<close> interleaves any number of workers over the shared stores.
\<close>

definition getTriggerValue :: "TelemetryMessage \<Rightarrow> AlertType \<Rightarrow> float64" where
  "getTriggerValue msg t =
     (if t = AlertSpeeding then tm_SpeedKmh msg
      else if t = AlertLowFuel then tm_FuelPct msg
      else if t = AlertEngineOverheat then tm_EngineTempC msg
      else Fin 0)"

text \<open>\<open>alertPayload, _ := json.Marshal(...)\<close>: an error leaves no bytes, represented by \<open>JNull\<close>.\<close>

definition alertPayload :: "time \<Rightarrow> TelemetryMessage \<Rightarrow> AlertRule \<Rightarrow> float64 \<Rightarrow> json" where
  "alertPayload now msg rule triggerValue =
     (case Marshal (JObj [(''vehicle_id'', JStr (tm_VehicleID msg)),
                          (''fleet_id'', JStr (tm_FleetID msg)),
                          (''alert_type'', JStr (rule_Type rule)),
                          (''severity'', JStr (rule_Severity rule)),
                          (''value'', JNum triggerValue),
                          (''triggered_at'', JInt (Unix now))]) of
        None \<Rightarrow> JNull
      | Some j \<Rightarrow> j)"

datatype rule_outcome =
    NotTriggered
  | ClaimError
  | Suppressed
  | InsertFailed bool
  | Inserted bool

text \<open>One iteration of the loop; the flag of the last two outcomes says whether the release or the
  publication that follows succeeded.\<close>

definition eval_rule ::
  "'r redis_client \<Rightarrow> time \<Rightarrow> TelemetryMessage \<Rightarrow> AlertRule \<Rightarrow> pg \<times> 'r \<Rightarrow> rule_outcome \<times> pg \<times> 'r" where
  "eval_rule rc now msg rule w =
     (let p = fst w; r = snd w in
      if \<not> rule_Evaluator rule msg then (NotTriggered, p, r)
      else case TryClaimAlertDedup rc (tm_VehicleID msg) (rule_Type rule) r of
             (Inl err, r) \<Rightarrow> (ClaimError, p, r)
           | (Inr claimed, r) \<Rightarrow>
               if \<not> claimed then (Suppressed, p, r)
               else
                 let triggerValue = getTriggerValue msg (rule_Type rule) in
                 case InsertAlert (tm_VehicleID msg) (tm_FleetID msg) (rule_Type rule)
                        (rule_Severity rule) triggerValue p of
                   (Some err, p) \<Rightarrow>
                     (case ReleaseAlertDedup rc (tm_VehicleID msg) (rule_Type rule) r of
                        (releaseErr, r) \<Rightarrow> (InsertFailed (releaseErr = None), p, r))
                 | (None, p) \<Rightarrow>
                     (case PublishAlert rc (tm_FleetID msg) (alertPayload now msg rule triggerValue) r of
                        (publishErr, r) \<Rightarrow> (Inserted (publishErr = None), p, r)))"

fun evaluate ::
  "'r redis_client \<Rightarrow> time \<Rightarrow> AlertRule list \<Rightarrow> TelemetryMessage \<Rightarrow> pg \<times> 'r \<Rightarrow> rule_outcome list \<times> pg \<times> 'r" where
  "evaluate rc now [] msg w = ([], w)"
| "evaluate rc now (rule # rules) msg w =
     (let (out, w') = eval_rule rc now msg rule w; (outs, w'') = evaluate rc now rules msg w'
      in (out # outs, w''))"

text \<open>\<open>Run\<close>: the evaluation runs under \<open>context.Background()\<close>, so a cancellation does not reach it.\<close>

datatype eval_case = EvalMsg TelemetryMessage time | EvalClosed | EvalDone

fun AlertEvaluator_Run ::
  "'r redis_client \<Rightarrow> AlertRule list \<Rightarrow> eval_case list \<Rightarrow> pg \<times> 'r \<Rightarrow> pg \<times> 'r" where
  "AlertEvaluator_Run rc rules [] w = w"
| "AlertEvaluator_Run rc rules (EvalMsg msg now # evs) w =
     AlertEvaluator_Run rc rules evs (snd (evaluate rc now rules msg w))"
| "AlertEvaluator_Run rc rules (EvalClosed # evs) w = w"
| "AlertEvaluator_Run rc rules (EvalDone # evs) w = w"

section \<open>Concurrent workers\<close>

datatype worker_pc =
    Idle
  | Checking TelemetryMessage "AlertRule list"
  | Inserting TelemetryMessage AlertRule "AlertRule list"
  | Releasing TelemetryMessage AlertRule "AlertRule list"
  | Publishing TelemetryMessage AlertRule "AlertRule list"

inductive worker_step ::
  "'r redis_client \<Rightarrow> time \<Rightarrow> AlertRule list \<Rightarrow> worker_pc \<times> pg \<times> 'r \<Rightarrow> worker_pc \<times> pg \<times> 'r \<Rightarrow> bool"
  for rc now rules where
  take: "worker_step rc now rules (Idle, p, r) (Checking msg rules, p, r)"
| finish: "worker_step rc now rules (Checking msg [], p, r) (Idle, p, r)"
| skip: "\<not> rule_Evaluator rule msg \<Longrightarrow>
    worker_step rc now rules (Checking msg (rule # rest), p, r) (Checking msg rest, p, r)"
| claim_err: "rule_Evaluator rule msg \<Longrightarrow>
    TryClaimAlertDedup rc (tm_VehicleID msg) (rule_Type rule) r = (Inl e, r') \<Longrightarrow>
    worker_step rc now rules (Checking msg (rule # rest), p, r) (Checking msg rest, p, r')"
| claim_no: "rule_Evaluator rule msg \<Longrightarrow>
    TryClaimAlertDedup rc (tm_VehicleID msg) (rule_Type rule) r = (Inr False, r') \<Longrightarrow>
    worker_step rc now rules (Checking msg (rule # rest), p, r) (Checking msg rest, p, r')"
| claim_yes: "rule_Evaluator rule msg \<Longrightarrow>
    TryClaimAlertDedup rc (tm_VehicleID msg) (rule_Type rule) r = (Inr True, r') \<Longrightarrow>
    worker_step rc now rules (Checking msg (rule # rest), p, r) (Inserting msg rule rest, p, r')"
| insert_err: "InsertAlert (tm_VehicleID msg) (tm_FleetID msg) (rule_Type rule) (rule_Severity rule)
      (getTriggerValue msg (rule_Type rule)) p = (Some e, p') \<Longrightarrow>
    worker_step rc now rules (Inserting msg rule rest, p, r) (Releasing msg rule rest, p', r)"
| insert_ok: "InsertAlert (tm_VehicleID msg) (tm_FleetID msg) (rule_Type rule) (rule_Severity rule)
      (getTriggerValue msg (rule_Type rule)) p = (None, p') \<Longrightarrow>
    worker_step rc now rules (Inserting msg rule rest, p, r) (Publishing msg rule rest, p', r)"
| release: "ReleaseAlertDedup rc (tm_VehicleID msg) (rule_Type rule) r = (e, r') \<Longrightarrow>
    worker_step rc now rules (Releasing msg rule rest, p, r) (Checking msg rest, p, r')"
| publish: "PublishAlert rc (tm_FleetID msg)
      (alertPayload now msg rule (getTriggerValue msg (rule_Type rule))) r = (e, r') \<Longrightarrow>
    worker_step rc now rules (Publishing msg rule rest, p, r) (Checking msg rest, p, r')"

record 'r alert_system =
  as_workers :: "nat \<Rightarrow> worker_pc"
  as_pg :: pg
  as_redis :: 'r

inductive alert_system_step :: "'r redis_client \<Rightarrow> 'r alert_system \<Rightarrow> 'r alert_system \<Rightarrow> bool" for rc where
  worker: "worker_step rc now DefaultAlertRules (as_workers s i, as_pg s, as_redis s) (pc, p, r) \<Longrightarrow>
    alert_system_step rc s (s\<lparr>as_workers := (as_workers s)(i := pc), as_pg := p, as_redis := r\<rparr>)"

inductive alert_system_reachable :: "'r redis_client \<Rightarrow> pg \<Rightarrow> 'r \<Rightarrow> 'r alert_system \<Rightarrow> bool" for rc p0 r0 where
  init: "alert_system_reachable rc p0 r0 \<lparr>as_workers = (\<lambda>_. Idle), as_pg = p0, as_redis = r0\<rparr>"
| step: "alert_system_reachable rc p0 r0 s \<Longrightarrow> alert_system_step rc s t \<Longrightarrow> alert_system_reachable rc p0 r0 t"

text \<open>The claim a worker holds: between a won \<open>SETNX\<close> and the end of the release, or of the
  insert; after the insert it leaves the claim in place on purpose.\<close>

fun holds_claim :: "worker_pc \<Rightarrow> string option" where
  "holds_claim (Inserting msg rule rest) = Some (alert_key (tm_VehicleID msg) (rule_Type rule))"
| "holds_claim (Releasing msg rule rest) = Some (alert_key (tm_VehicleID msg) (rule_Type rule))"
| "holds_claim (Publishing msg rule rest) = Some (alert_key (tm_VehicleID msg) (rule_Type rule))"
| "holds_claim Idle = None"
| "holds_claim (Checking msg rest) = None"

section \<open>Lemmas\<close>

lemma eval_rule_cases:
  assumes "eval_rule rc now msg rule (p, r) = (out, p', r')"
  obtains (no) "\<not> rule_Evaluator rule msg" "out = NotTriggered" "p' = p" "r' = r"
  | (err) e where "rule_Evaluator rule msg" "out = ClaimError" "p' = p"
      "TryClaimAlertDedup rc (tm_VehicleID msg) (rule_Type rule) r = (Inl e, r')"
  | (lost) "rule_Evaluator rule msg" "out = Suppressed" "p' = p"
      "TryClaimAlertDedup rc (tm_VehicleID msg) (rule_Type rule) r = (Inr False, r')"
  | (failed) e r1 x where "rule_Evaluator rule msg" "out = InsertFailed (x = None)"
      "TryClaimAlertDedup rc (tm_VehicleID msg) (rule_Type rule) r = (Inr True, r1)"
      "InsertAlert (tm_VehicleID msg) (tm_FleetID msg) (rule_Type rule) (rule_Severity rule)
         (getTriggerValue msg (rule_Type rule)) p = (Some e, p')"
      "ReleaseAlertDedup rc (tm_VehicleID msg) (rule_Type rule) r1 = (x, r')"
  | (inserted) r1 x where "rule_Evaluator rule msg" "out = Inserted (x = None)"
      "TryClaimAlertDedup rc (tm_VehicleID msg) (rule_Type rule) r = (Inr True, r1)"
      "InsertAlert (tm_VehicleID msg) (tm_FleetID msg) (rule_Type rule) (rule_Severity rule)
         (getTriggerValue msg (rule_Type rule)) p = (None, p')"
      "PublishAlert rc (tm_FleetID msg) (alertPayload now msg rule (getTriggerValue msg (rule_Type rule))) r1 = (x, r')"
proof (cases "rule_Evaluator rule msg")
  case False
  then show ?thesis using assms no by (simp add: eval_rule_def)
next
  case True
  obtain c r1 where c: "TryClaimAlertDedup rc (tm_VehicleID msg) (rule_Type rule) r = (c, r1)"
    by fastforce
  obtain e p1 where i: "InsertAlert (tm_VehicleID msg) (tm_FleetID msg) (rule_Type rule) (rule_Severity rule)
      (getTriggerValue msg (rule_Type rule)) p = (e, p1)" by fastforce
  show ?thesis
  proof (cases c)
    case (Inl y)
    then show ?thesis using assms c True err by (simp add: eval_rule_def)
  next
    case (Inr b)
    show ?thesis
    proof (cases b)
      case False
      then show ?thesis using assms c True Inr lost by (simp add: eval_rule_def)
    next
      case b: True
      show ?thesis
      proof (cases e)
        case None
        then show ?thesis using assms c i True Inr b inserted
          by (auto simp: eval_rule_def Let_def split: prod.splits)
      next
        case (Some y)
        then show ?thesis using assms c i True Inr b failed
          by (auto simp: eval_rule_def Let_def split: prod.splits)
      qed
    qed
  qed
qed

lemma eval_rule_wf:
  assumes "eval_rule rc now msg rule (p, r) = (out, p', r')" "alerts_wf (pg_db p)"
  shows "alerts_wf (pg_db p')"
  using assms(1) by (cases rule: eval_rule_cases) (use assms(2) in \<open>auto dest: InsertAlert_wf\<close>)

lemma evaluate_wf:
  "evaluate rc now rules msg w = (outs, w') \<Longrightarrow> alerts_wf (pg_db (fst w)) \<Longrightarrow> alerts_wf (pg_db (fst w'))"
proof (induction rules arbitrary: w outs)
  case (Cons rule rules)
  then show ?case
    using eval_rule_wf [of rc now msg rule "fst w" "snd w"] by (force split: prod.splits)
qed simp

lemma Run_wf: "alerts_wf (pg_db (fst w)) \<Longrightarrow> alerts_wf (pg_db (fst (AlertEvaluator_Run rc rules evs w)))"
proof (induction rc rules evs w rule: AlertEvaluator_Run.induct)
  case (2 rc rules msg now evs w)
  then show ?case using evaluate_wf [of rc now rules msg w] by (metis AlertEvaluator_Run.simps(2) prod.collapse)
qed auto

lemma InsertAlert_stmt:
  assumes "InsertAlert vid fid ty sev v p = (None, p')"
  shows "\<exists>n. fst (insert_alert_row True vid fid ty sev v (pg_now p) (pg_db p)) = Inr n \<and>
             pg_db p' = snd (insert_alert_row True vid fid ty sev v (pg_now p) (pg_db p))"
  using assms pg_run_Inr [of False "insert_alert_row True vid fid ty sev v" p]
  by (auto simp: InsertAlert_def split: prod.splits sum.splits)

text \<open>An insert that reports success leaves an alert of the vehicle and type in the window.\<close>

lemma InsertAlert_present:
  assumes "InsertAlert vid fid ty sev v p = (None, p')"
  shows "\<exists>a\<in>set (vehicle_alerts (pg_db p')). al_vehicle_id a = vid \<and> al_alert_type a = ty \<and>
           \<bar>al_created_at a - pg_now p\<bar> < 5 * Minute"
proof -
  let ?a = "new_alert (vehicle_alerts_id_seq (pg_db p)) vid fid ty sev v (pg_now p)"
  obtain n where n: "fst (insert_alert_row True vid fid ty sev v (pg_now p) (pg_db p)) = Inr n"
    and d: "pg_db p' = snd (insert_alert_row True vid fid ty sev v (pg_now p) (pg_db p))"
    using InsertAlert_stmt [OF assms] by blast
  show ?thesis
  proof (cases "alert_conflicts ?a (pg_db p)")
    case True
    then obtain b where b: "b \<in> set (vehicle_alerts (pg_db p))" "dedup_conflict ?a b"
      by (auto simp: alert_conflicts_def list_ex_iff)
    have "vehicle_alerts (pg_db p') = vehicle_alerts (pg_db p)"
      using n d True by (auto simp: insert_alert_row_def Let_def split: if_splits)
    then show ?thesis using b by (intro bexI [of _ b]) (auto simp: dedup_conflict_def new_alert_def)
  next
    case False
    then have "?a \<in> set (vehicle_alerts (pg_db p'))"
      using n d by (auto simp: insert_alert_row_def Let_def split: if_splits)
    then show ?thesis by (intro bexI [of _ ?a]) (auto simp: new_alert_def Minute_def)
  qed
qed

context redis_server
begin

lemma inserted_holds:
  assumes "eval_rule rc now msg rule (p, r) = (Inserted b, p', r')"
  shows "view r' (clock r') (alert_key (tm_VehicleID msg) (rule_Type rule)) \<noteq> None"
  using assms
proof (cases rule: eval_rule_cases)
  case (inserted r1 x)
  then show ?thesis using dedup.claim_won [OF inserted(3)] dedup.publish_keeps [OF inserted(5)]
    by (metis (mono_tags))
qed auto

lemma held_no_insert:
  assumes "view r (clock r) (alert_key (tm_VehicleID msg) (rule_Type rule)) \<noteq> None"
    and "eval_rule rc now msg rule (p, r) = (out, p', r')"
  shows "out \<in> {NotTriggered, Suppressed, ClaimError} \<and> p' = p"
  using assms(2)
proof (cases rule: eval_rule_cases)
  case (failed e r1 x)
  then show ?thesis using dedup.claim_won [OF failed(3)] assms(1) by simp
next
  case (inserted r1 x)
  then show ?thesis using dedup.claim_won [OF inserted(3)] assms(1) by simp
qed auto

lemma released_not_suppressed:
  assumes "eval_rule rc now msg rule (p, r) = (InsertFailed True, p', r')"
    and "eval_rule rc now2 msg2 rule2 (q, r') = (out, q', r'')"
    and "tm_VehicleID msg2 = tm_VehicleID msg" "rule_Type rule2 = rule_Type rule"
  shows "out \<noteq> Suppressed"
proof
  assume "out = Suppressed"
  then have lost: "TryClaimAlertDedup rc (tm_VehicleID msg) (rule_Type rule) r' = (Inr False, r'')"
    using assms(2-4) by (elim eval_rule_cases) auto
  from assms(1) show False
  proof (cases rule: eval_rule_cases)
    case (failed e r1 x)
    then show ?thesis using dedup.reclaim_after_release [of _ _ r1 r'] lost by auto
  qed auto
qed

lemma TryClaim_frame:
  assumes "TryClaimAlertDedup rc v ty r = (x, r')"
  shows "k \<noteq> alert_key v ty \<or> view r (clock r) k \<noteq> None \<Longrightarrow> view r' (clock r') k = view r (clock r) k"
proof -
  obtain y where "cmd_SetNX rc (alert_key v ty) ''1'' (5 * Minute) r = (y, r')"
    using assms by (auto simp: TryClaimAlertDedup_def split: prod.splits sum.splits)
  from setnx_frame [OF this]
  show "k \<noteq> alert_key v ty \<or> view r (clock r) k \<noteq> None \<Longrightarrow> ?thesis" by auto
qed

lemma Release_frame:
  assumes "ReleaseAlertDedup rc v ty r = (x, r')" "k \<noteq> alert_key v ty"
  shows "view r' (clock r') k = view r (clock r) k"
proof -
  obtain y where "cmd_Del rc (alert_key v ty) r = (y, r')"
    using assms by (auto simp: ReleaseAlertDedup_def split: prod.splits option.splits)
  from del_frame [OF this] assms(2) show ?thesis by auto
qed

lemma Publish_frame:
  assumes "PublishAlert rc f j r = (x, r')"
  shows "view r' (clock r') = view r (clock r)"
proof -
  obtain y where "cmd_Publish rc (alerts_channel f) j r = (y, r')"
    using assms by (auto simp: PublishAlert_def split: prod.splits option.splits)
  from publish_frame [OF this] show ?thesis by simp
qed

text \<open>Every claim a worker holds is in Redis, and no two workers hold the same.\<close>

definition claims_inv :: "(nat \<Rightarrow> worker_pc) \<Rightarrow> 'r \<Rightarrow> bool" where
  "claims_inv ws r \<longleftrightarrow>
     (\<forall>i k. holds_claim (ws i) = Some k \<longrightarrow> view r (clock r) k \<noteq> None) \<and>
     (\<forall>i j k. i \<noteq> j \<longrightarrow> holds_claim (ws i) = Some k \<longrightarrow> holds_claim (ws j) \<noteq> Some k)"

lemma claims_inv_keep:
  "claims_inv ws r \<Longrightarrow> holds_claim pc = None \<or> holds_claim pc = holds_claim (ws i) \<Longrightarrow>
   (\<And>j k. holds_claim ((ws(i := pc)) j) = Some k \<Longrightarrow> view r' (clock r') k = view r (clock r) k) \<Longrightarrow>
   claims_inv (ws(i := pc)) r'"
  unfolding claims_inv_def by (auto split: if_splits) metis+

lemma claims_inv_add:
  assumes "claims_inv ws r" "view r (clock r) k = None" "holds_claim pc = Some k"
    and "view r' (clock r') k \<noteq> None"
    and "\<And>k'. k' \<noteq> k \<Longrightarrow> view r' (clock r') k' = view r (clock r) k'"
  shows "claims_inv (ws(i := pc)) r'"
proof -
  have free: "holds_claim (ws j) \<noteq> Some k" for j
    using assms(1,2) unfolding claims_inv_def by blast
  have "view r' (clock r') k' \<noteq> None" if "holds_claim ((ws(i := pc)) j) = Some k'" for j k'
  proof (cases "k' = k")
    case False
    then have "holds_claim (ws j) = Some k'" using that assms(3) by (cases "j = i") auto
    then show ?thesis using False assms(1,5) by (auto simp: claims_inv_def)
  qed (use assms(4) in simp)
  moreover have "holds_claim ((ws(i := pc)) l) \<noteq> Some k'"
    if "j \<noteq> l" "holds_claim ((ws(i := pc)) j) = Some k'" for j l k'
    using that free assms(1,3) unfolding claims_inv_def by (cases "j = i"; cases "l = i") auto
  ultimately show ?thesis unfolding claims_inv_def by blast
qed

lemma claims_inv_unclaimed:
  assumes "claims_inv ws r" "TryClaimAlertDedup rc v ty r = (x, r')" "holds_claim pc = None"
  shows "claims_inv (ws(i := pc)) r'"
proof (rule claims_inv_keep [OF assms(1)])
  fix j k
  assume "holds_claim ((ws(i := pc)) j) = Some k"
  then have "holds_claim (ws j) = Some k" using assms(3) by (cases "j = i") auto
  then have "view r (clock r) k \<noteq> None" using assms(1) unfolding claims_inv_def by blast
  then show "view r' (clock r') k = view r (clock r) k" using TryClaim_frame [OF assms(2)] by blast
qed (use assms(3) in simp)

lemma claims_inv_step:
  assumes "worker_step rc now rules (ws i, p, r) (pc, p', r')" "claims_inv ws r"
  shows "claims_inv (ws(i := pc)) r'"
  using assms(1)
proof (cases rule: worker_step.cases)
  case (claim_yes rule msg rest)
  let ?k = "alert_key (tm_VehicleID msg) (rule_Type rule)"
  have "view r (clock r) ?k = None" "view r' (clock r') ?k \<noteq> None"
    using dedup.claim_won [OF claim_yes(5)] by auto
  then show ?thesis
    using TryClaim_frame [OF claim_yes(5)] claim_yes(2) by (intro claims_inv_add [OF assms(2)]) auto
next
  case (claim_err rule msg e rest)
  then show ?thesis using claims_inv_unclaimed [OF assms(2) claim_err(5)] by simp
next
  case (claim_no rule msg rest)
  then show ?thesis using claims_inv_unclaimed [OF assms(2) claim_no(5)] by simp
next
  case (release msg rule e rest)
  have "holds_claim (ws i) = Some (alert_key (tm_VehicleID msg) (rule_Type rule))"
    using release by simp
  then have "k \<noteq> alert_key (tm_VehicleID msg) (rule_Type rule)"
    if "holds_claim ((ws(i := pc)) j) = Some k" for j k
    using that assms(2) release(2) unfolding claims_inv_def by (auto split: if_splits)
  then show ?thesis
    using Release_frame [OF release(4)] release(2) by (intro claims_inv_keep [OF assms(2)]) auto
next
  case (publish msg rule e rest)
  show ?thesis
    by (rule claims_inv_keep [OF assms(2)]) (use publish Publish_frame [OF publish(4)] in auto)
qed (use assms(2) in \<open>auto intro!: claims_inv_keep [OF assms(2)]\<close>)

lemma claims_inv_reachable:
  "alert_system_reachable rc p0 r0 s \<Longrightarrow> claims_inv (as_workers s) (as_redis s)"
proof (induction rule: alert_system_reachable.induct)
  case init
  then show ?case by (simp add: claims_inv_def)
next
  case (step s t)
  from step.hyps(2) show ?case
  proof (cases rule: alert_system_step.cases)
    case (worker now i pc p r)
    then show ?thesis using claims_inv_step [OF worker(2) step.IH] by (simp add: fun_upd_def)
  qed
qed

end

text \<open>One worker on its own does what \<open>evaluate\<close> computes.\<close>

lemma eval_rule_simulated:
  assumes "eval_rule rc now msg rule (p, r) = (out, p', r')"
  shows "(worker_step rc now rules)\<^sup>*\<^sup>* (Checking msg (rule # rest), p, r) (Checking msg rest, p', r')"
  using assms
proof (cases rule: eval_rule_cases)
  case (failed e r1 x)
  then show ?thesis
    by (meson converse_rtranclp_into_rtranclp rtranclp.rtrancl_refl worker_step.claim_yes
        worker_step.insert_err worker_step.release)
next
  case (inserted r1 x)
  then show ?thesis
    by (meson converse_rtranclp_into_rtranclp rtranclp.rtrancl_refl worker_step.claim_yes
        worker_step.insert_ok worker_step.publish)
next
  case no
  then show ?thesis by (auto intro: worker_step.skip)
next
  case (err e)
  then show ?thesis by (blast intro: worker_step.claim_err)
next
  case lost
  then show ?thesis by (blast intro: worker_step.claim_no)
qed

lemma evaluate_simulated:
  "evaluate rc now rs msg (p, r) = (outs, p', r') \<Longrightarrow>
     (worker_step rc now rules)\<^sup>*\<^sup>* (Checking msg rs, p, r) (Checking msg [], p', r')"
proof (induction rs arbitrary: p r outs)
  case (Cons rule rs)
  obtain o1 p1 r1 where e: "eval_rule rc now msg rule (p, r) = (o1, p1, r1)" by (metis surj_pair)
  then have "\<exists>outs. evaluate rc now rs msg (p1, r1) = (outs, p', r')"
    using Cons.prems by (auto split: prod.splits)
  then show ?case using Cons.IH eval_rule_simulated [OF e, of rules rs] by (meson rtranclp_trans)
qed auto

section \<open>A healthy evaluation\<close>

text \<open>What one alert says, apart from its identifier.\<close>

definition alert_summary :: "alert_row \<Rightarrow> string \<times> string \<times> AlertType \<times> AlertSeverity \<times> float64 option \<times> time" where
  "alert_summary a = (al_vehicle_id a, al_fleet_id a, al_alert_type a, al_severity a, al_triggered_value a, al_created_at a)"

definition rule_summary :: "time \<Rightarrow> TelemetryMessage \<Rightarrow> AlertRule \<Rightarrow>
    string \<times> string \<times> AlertType \<times> AlertSeverity \<times> float64 option \<times> time" where
  "rule_summary now msg rule =
     (tm_VehicleID msg, tm_FleetID msg, rule_Type rule, rule_Severity rule,
      Some (getTriggerValue msg (rule_Type rule)), now)"

definition storable :: "AlertRule \<Rightarrow> bool" where
  "storable rule \<longleftrightarrow> chk_alert_type (rule_Type rule) \<and> chk_severity (rule_Severity rule)"

definition window_free :: "pg \<Rightarrow> string \<Rightarrow> AlertType \<Rightarrow> bool" where
  "window_free p vid ty \<longleftrightarrow>
     (\<forall>a\<in>set (vehicle_alerts (pg_db p)). al_vehicle_id a = vid \<and> al_alert_type a = ty \<longrightarrow>
        al_created_at a + 5 * Minute \<le> pg_now p)"

lemma alert_summary_new:
  "alert_summary (new_alert i (tm_VehicleID msg) (tm_FleetID msg) (rule_Type rule) (rule_Severity rule)
     (getTriggerValue msg (rule_Type rule)) now) = rule_summary now msg rule"
  by (simp add: alert_summary_def rule_summary_def new_alert_def)

lemma default_rules_storable: "rule \<in> set DefaultAlertRules \<Longrightarrow> storable rule"
  by (auto simp: DefaultAlertRules_def storable_def alert_const_defs chk_alert_type_def chk_severity_def)

lemma InsertAlert_fresh:
  assumes "storable rule" "window_free p vid (rule_Type rule)" "pg_plan p = []"
  shows "InsertAlert vid fid (rule_Type rule) (rule_Severity rule) v p =
     (None, p\<lparr>pg_db := (pg_db p)
        \<lparr>vehicle_alerts_id_seq := vehicle_alerts_id_seq (pg_db p) + 1,
         vehicle_alerts := vehicle_alerts (pg_db p) @
           [new_alert (vehicle_alerts_id_seq (pg_db p)) vid fid (rule_Type rule) (rule_Severity rule) v (pg_now p)]\<rparr>\<rparr>)"
proof -
  have "\<not> alert_conflicts (new_alert i vid fid (rule_Type rule) (rule_Severity rule) v (pg_now p)) (pg_db p)" for i
    using assms(2)
    by (fastforce simp: alert_conflicts_def list_ex_iff dedup_conflict_def new_alert_def window_free_def)
  then show ?thesis
    using assms(1,3) by (simp add: InsertAlert_def pg_run_def insert_alert_row_def storable_def Let_def)
qed

context redis_server
begin

lemma evaluate_fresh:
  assumes "evaluate rc now rules msg (p, r) = (outs, p', r')" "pg_plan p = []" "ClaimError \<notin> set outs"
    and "distinct (map rule_Type rules)" "\<forall>rule\<in>set rules. storable rule"
    and "\<forall>rule\<in>set rules. view r (clock r) (alert_key (tm_VehicleID msg) (rule_Type rule)) = None"
    and "\<forall>rule\<in>set rules. window_free p (tm_VehicleID msg) (rule_Type rule)"
  shows "\<exists>new. vehicle_alerts (pg_db p') = vehicle_alerts (pg_db p) @ new \<and>
     map alert_summary new = map (rule_summary (pg_now p) msg) (filter (\<lambda>rule. rule_Evaluator rule msg) rules)"
  using assms
proof (induction rules arbitrary: p r outs)
  case (Cons rule rules)
  let ?vid = "tm_VehicleID msg" and ?ty = "rule_Type rule"
  obtain o1 p1 r1 outs1 where e: "eval_rule rc now msg rule (p, r) = (o1, p1, r1)"
    and rest: "evaluate rc now rules msg (p1, r1) = (outs1, p', r')" and outs: "outs = o1 # outs1"
    using Cons.prems(1) by (auto split: prod.splits)
  have other: "alert_key ?vid (rule_Type rule') \<noteq> alert_key ?vid ?ty" if "rule' \<in> set rules" for rule'
  proof
    assume "alert_key ?vid (rule_Type rule') = alert_key ?vid ?ty"
    then have "rule_Type rule' = ?ty" by (simp add: alert_key_def)
    then show False using Cons.prems(4) imageI [OF that, of rule_Type] by simp
  qed
  show ?case
  proof (cases "rule_Evaluator rule msg")
    case False
    then have "p1 = p" "r1 = r" using e by (auto simp: eval_rule_def)
    then show ?thesis using Cons.IH [of p r] rest outs Cons.prems False by auto
  next
    case True
    note fresh = InsertAlert_fresh [of rule p ?vid "tm_FleetID msg" "getTriggerValue msg ?ty"]
    obtain x r2 where won: "TryClaimAlertDedup rc ?vid ?ty r = (Inr True, r2)"
      and pub: "PublishAlert rc (tm_FleetID msg) (alertPayload now msg rule (getTriggerValue msg ?ty)) r2 = (x, r1)"
      and ins: "InsertAlert ?vid (tm_FleetID msg) ?ty (rule_Severity rule) (getTriggerValue msg ?ty) p = (None, p1)"
      using e
    proof (cases rule: eval_rule_cases)
      case lost
      then show ?thesis using dedup.claim_lost [OF lost(4)] Cons.prems(6) by simp
    next
      case (failed e r1 x)
      then show ?thesis using fresh Cons.prems(2,5,7) by simp
    qed (use True outs Cons.prems(3) that in auto)
    let ?a = "new_alert (vehicle_alerts_id_seq (pg_db p)) ?vid (tm_FleetID msg) ?ty (rule_Severity rule) (getTriggerValue msg ?ty) (pg_now p)"
    have p1: "vehicle_alerts (pg_db p1) = vehicle_alerts (pg_db p) @ [?a]" "pg_now p1 = pg_now p" "pg_plan p1 = []"
      using ins fresh Cons.prems(2,5,7) by auto
    have "\<forall>rule'\<in>set rules. view r1 (clock r1) (alert_key ?vid (rule_Type rule')) = None"
      using other TryClaim_frame [OF won] Publish_frame [OF pub] Cons.prems(6) by auto
    moreover have "\<forall>rule'\<in>set rules. window_free p1 ?vid (rule_Type rule')"
      using Cons.prems(4,7) p1 by (auto simp: window_free_def new_alert_def)
    ultimately obtain new where "vehicle_alerts (pg_db p') = vehicle_alerts (pg_db p1) @ new"
      "map alert_summary new = map (rule_summary (pg_now p) msg) (filter (\<lambda>rule. rule_Evaluator rule msg) rules)"
      using Cons.IH [of p1 r1 outs1] rest p1 outs Cons.prems(3-5) by auto
    then show ?thesis
      using p1 True by (intro exI [of _ "?a # new"]) (simp add: alert_summary_new)
  qed
qed simp

end

text \<open>The reference server without faults answers every call.\<close>

lemma mem_rule_answers:
  assumes "eval_rule (mem_client ft) now msg rule (p, r) = (out, p', r')" "mr_faults r = []"
  shows "out \<noteq> ClaimError \<and> mr_faults r' = []"
  using assms(1)
  by (cases rule: eval_rule_cases)
     (use assms(2) in \<open>auto simp: TryClaimAlertDedup_def PublishAlert_def ReleaseAlertDedup_def mem_cmd_defs
        split: if_splits\<close>)

lemma mem_evaluate_answers:
  "mr_faults (snd w) = [] \<Longrightarrow> evaluate (mem_client ft) now rules msg w = (outs, w') \<Longrightarrow>
     ClaimError \<notin> set outs \<and> mr_faults (snd w') = []"
proof (induction rules arbitrary: w outs)
  case (Cons rule rules)
  obtain o1 p1 r1 where e: "eval_rule (mem_client ft) now msg rule (fst w, snd w) = (o1, p1, r1)"
    by (metis surj_pair)
  then show ?case
    using mem_rule_answers [OF e] Cons.prems Cons.IH [of "(p1, r1)"] by (auto split: prod.splits)
qed simp

section \<open>Properties\<close>

text \<open>C3. The alert thresholds, end to end: when Redis answers, the database runs its statements, no
  window of the vehicle is claimed and no alert of it is younger than five minutes, evaluating a
  message inserts one alert for each exceeded threshold (speed strictly above 100, fuel strictly
  below 10, engine temperature strictly above 100), in this order, with the rule's severity and
  the measured value, and no other alert.\<close>

theorem evaluate_raises_exactly:
  assumes "redis_server rc view clock published"
    and "pg_plan p = []" and "ClaimError \<notin> set outs"
    and "\<forall>rule\<in>set DefaultAlertRules. view r (clock r) (alert_key (tm_VehicleID msg) (rule_Type rule)) = None"
    and "\<forall>rule\<in>set DefaultAlertRules. window_free p (tm_VehicleID msg) (rule_Type rule)"
    and "evaluate rc now DefaultAlertRules msg (p, r) = (outs, p', r')"
  shows "\<exists>new. vehicle_alerts (pg_db p') = vehicle_alerts (pg_db p) @ new \<and>
     map (\<lambda>a. (al_vehicle_id a, al_fleet_id a, al_alert_type a, al_severity a, al_triggered_value a, al_created_at a)) new =
       (if f64_less (Fin 100) (tm_SpeedKmh msg)
        then [(tm_VehicleID msg, tm_FleetID msg, ''SPEEDING'', ''WARNING'', Some (tm_SpeedKmh msg), pg_now p)] else []) @
       (if f64_less (tm_FuelPct msg) (Fin 10)
        then [(tm_VehicleID msg, tm_FleetID msg, ''LOW_FUEL'', ''WARNING'', Some (tm_FuelPct msg), pg_now p)] else []) @
       (if f64_less (Fin 100) (tm_EngineTempC msg)
        then [(tm_VehicleID msg, tm_FleetID msg, ''ENGINE_OVERHEAT'', ''CRITICAL'', Some (tm_EngineTempC msg), pg_now p)] else [])"
proof -
  obtain new where new: "vehicle_alerts (pg_db p') = vehicle_alerts (pg_db p) @ new"
    "map alert_summary new =
       map (rule_summary (pg_now p) msg) (filter (\<lambda>rule. rule_Evaluator rule msg) DefaultAlertRules)"
    using redis_server.evaluate_fresh [OF assms(1,6,2,3) rule_types_distinct _ assms(4,5)]
      default_rules_storable by blast
  moreover have "map (rule_summary (pg_now p) msg) (filter (\<lambda>rule. rule_Evaluator rule msg) DefaultAlertRules) =
       (if f64_less (Fin 100) (tm_SpeedKmh msg)
        then [(tm_VehicleID msg, tm_FleetID msg, ''SPEEDING'', ''WARNING'', Some (tm_SpeedKmh msg), pg_now p)] else []) @
       (if f64_less (tm_FuelPct msg) (Fin 10)
        then [(tm_VehicleID msg, tm_FleetID msg, ''LOW_FUEL'', ''WARNING'', Some (tm_FuelPct msg), pg_now p)] else []) @
       (if f64_less (Fin 100) (tm_EngineTempC msg)
        then [(tm_VehicleID msg, tm_FleetID msg, ''ENGINE_OVERHEAT'', ''CRITICAL'', Some (tm_EngineTempC msg), pg_now p)] else [])"
    by (simp add: DefaultAlertRules_def rule_summary_def getTriggerValue_def alert_const_defs)
  ultimately show ?thesis
    unfolding alert_summary_def by (intro exI [of _ new] conjI) (simp_all only:)
qed

theorem evaluate_raises_exactly_witness:
  "map (\<lambda>a. (al_vehicle_id a, al_alert_type a, al_triggered_value a))
     (vehicle_alerts (pg_db (fst (snd (evaluate sample_client 0 DefaultAlertRules sample_msg (sample_pg [], sample_redis)))))) =
   [(''TRUCK-1'', ''SPEEDING'', Some (Fin 120)), (''TRUCK-1'', ''LOW_FUEL'', Some (Fin 5))]"
proof -
  let ?e = "evaluate sample_client 0 DefaultAlertRules sample_msg (sample_pg [], sample_redis)"
  have outs: "ClaimError \<notin> set (fst ?e)"
    using mem_evaluate_answers [of "(sample_pg [], sample_redis)" _ 0 DefaultAlertRules sample_msg "fst ?e" "snd ?e"]
    by (simp add: sample_redis_def mem_empty_def)
  have free: "\<forall>rule\<in>set DefaultAlertRules. window_free (sample_pg []) (tm_VehicleID sample_msg) (rule_Type rule)"
    by (simp add: window_free_def sample_pg_def empty_db_def)
  have unclaimed: "\<forall>rule\<in>set DefaultAlertRules. mem_view sample_redis (mr_now sample_redis)
      (alert_key (tm_VehicleID sample_msg) (rule_Type rule)) = None"
    by (simp add: sample_redis_def mem_empty_def mem_view_def)
  have plan: "pg_plan (sample_pg []) = []" by (simp add: sample_pg_def)
  have ev: "?e = (fst ?e, fst (snd ?e), snd (snd ?e))" by simp
  obtain new where new: "vehicle_alerts (pg_db (fst (snd ?e))) = vehicle_alerts (pg_db (sample_pg [])) @ new"
    and vals: "map (\<lambda>a. (al_vehicle_id a, al_fleet_id a, al_alert_type a, al_severity a, al_triggered_value a, al_created_at a)) new =
       [(''TRUCK-1'', ''fleet-a'', ''SPEEDING'', ''WARNING'', Some (Fin 120), pg_now (sample_pg [])),
        (''TRUCK-1'', ''fleet-a'', ''LOW_FUEL'', ''WARNING'', Some (Fin 5), pg_now (sample_pg []))]"
    using evaluate_raises_exactly [OF mem.redis_server_axioms plan outs unclaimed free ev]
    by (elim exE conjE) (simp add: sample_msg_def)
  from arg_cong [OF vals, of "map (\<lambda>(v, f, t, s, x, n). (v, t, x))"] new show ?thesis
    by (simp add: comp_def sample_pg_def empty_db_def)
qed


definition sample_alerts :: "alert_row list" where
  "sample_alerts = [new_alert 1 ''TRUCK-1'' ''fleet-a'' ''SPEEDING'' ''WARNING'' (Fin 120) 0,
                    new_alert 2 ''TRUCK-1'' ''fleet-a'' ''SPEEDING'' ''WARNING'' (Fin 130) (5 * Minute)]"


text \<open>No alert is announced before it is stored: when a rule ends in the publishing branch, the table
  holds an alert of that vehicle and type created within five minutes of now.\<close>

theorem published_alert_is_stored:
  assumes "eval_rule rc now msg rule (p, r) = (Inserted b, p', r')"
  shows "\<exists>a\<in>set (vehicle_alerts (pg_db p')). al_vehicle_id a = tm_VehicleID msg \<and>
           al_alert_type a = rule_Type rule \<and> \<bar>al_created_at a - pg_now p\<bar> < 5 * Minute"
  using assms by (cases rule: eval_rule_cases) (auto dest: InsertAlert_present)

lemma mem_rule_inserts:
  "mr_faults r = [] \<Longrightarrow> mr_keys r = Map.empty \<Longrightarrow> vehicle_alerts (pg_db p) = [] \<Longrightarrow> pg_plan p = [] \<Longrightarrow>
   rule \<in> set DefaultAlertRules \<Longrightarrow> rule_Evaluator rule msg \<Longrightarrow>
   fst (eval_rule (mem_client ft) now msg rule (p, r)) = Inserted True"
  using InsertAlert_fresh [OF default_rules_storable, of rule p]
  by (simp add: eval_rule_def Let_def TryClaimAlertDedup_def PublishAlert_def mem_cmd_defs mem_now_def mem_view_def
      window_free_def)

definition speeding_rule :: AlertRule where
  "speeding_rule = DefaultAlertRules ! 0"

lemma sample_speeding:
  "fst (eval_rule sample_client 0 sample_msg speeding_rule (sample_pg [], sample_redis)) = Inserted True"
proof (rule mem_rule_inserts)
  show "rule_Evaluator speeding_rule sample_msg"
    by (simp add: speeding_rule_def DefaultAlertRules_def sample_msg_def)
qed (simp_all add: speeding_rule_def sample_redis_def mem_empty_def sample_pg_def empty_db_def DefaultAlertRules_def)

theorem published_alert_is_stored_witness:
  "\<exists>a\<in>set (vehicle_alerts (pg_db (fst (snd (eval_rule sample_client 0 sample_msg speeding_rule (sample_pg [], sample_redis)))))).
     al_vehicle_id a = ''TRUCK-1'' \<and> al_alert_type a = ''SPEEDING''"
proof -
  let ?e = "eval_rule sample_client 0 sample_msg speeding_rule (sample_pg [], sample_redis)"
  have "?e = (Inserted True, fst (snd ?e), snd (snd ?e))" using sample_speeding by (metis prod.collapse)
  from published_alert_is_stored [OF this] show ?thesis
    by (auto simp: sample_msg_def speeding_rule_def DefaultAlertRules_def AlertSpeeding_def)
qed

text \<open>The claim does its work: after a rule stored an alert, evaluating the same vehicle against a rule
  of the same type, on any message and any database, with Redis as it was left, neither touches
  the database nor publishes.\<close>

theorem claimed_window_suppresses:
  assumes "redis_server rc view clock published"
    and "eval_rule rc now msg rule (p, r) = (Inserted b, p', r')"
    and "tm_VehicleID msg2 = tm_VehicleID msg" "rule_Type rule2 = rule_Type rule"
    and "eval_rule rc now2 msg2 rule2 (q, r') = (out, q', r'')"
  shows "out \<in> {NotTriggered, Suppressed, ClaimError} \<and> q' = q"
  using redis_server.held_no_insert [OF assms(1), of r' msg2 rule2 now2 q out q' r'']
    redis_server.inserted_holds [OF assms(1,2)] assms(3-5) by simp

theorem claimed_window_suppresses_witness:
  "fst (snd (eval_rule sample_client 1 sample_msg speeding_rule
      (sample_pg [], snd (snd (eval_rule sample_client 0 sample_msg speeding_rule (sample_pg [], sample_redis)))))) =
   sample_pg []"
proof -
  let ?e = "eval_rule sample_client 0 sample_msg speeding_rule (sample_pg [], sample_redis)"
  let ?f = "eval_rule sample_client 1 sample_msg speeding_rule (sample_pg [], snd (snd ?e))"
  have "?e = (Inserted True, fst (snd ?e), snd (snd ?e))" using sample_speeding by (metis prod.collapse)
  from claimed_window_suppresses [OF mem.redis_server_axioms this refl refl, of 1 "sample_pg []" "fst ?f" "fst (snd ?f)" "snd (snd ?f)"]
  show ?thesis by simp
qed

text \<open>A failed insert does not silence the alert: when the insert failed and the claim was given back,
  the next evaluation of the vehicle and type is not suppressed.\<close>

theorem failed_insert_can_be_retried:
  assumes "redis_server rc view clock published"
    and "eval_rule rc now msg rule (p, r) = (InsertFailed True, p', r')"
    and "eval_rule rc now2 msg2 rule2 (q, r') = (out, q', r'')"
    and "tm_VehicleID msg2 = tm_VehicleID msg" "rule_Type rule2 = rule_Type rule"
  shows "out \<noteq> Suppressed"
  using redis_server.released_not_suppressed [OF assms] .

theorem failed_insert_can_be_retried_witness:
  "fst (eval_rule sample_client 1 sample_msg speeding_rule
      (sample_pg [], snd (snd (eval_rule sample_client 0 sample_msg speeding_rule (sample_pg [FailBefore], sample_redis))))) \<noteq>
   Suppressed"
proof -
  let ?e = "eval_rule sample_client 0 sample_msg speeding_rule (sample_pg [FailBefore], sample_redis)"
  let ?f = "eval_rule sample_client 1 sample_msg speeding_rule (sample_pg [], snd (snd ?e))"
  have "fst ?e = InsertFailed True"
    by (simp add: eval_rule_def Let_def TryClaimAlertDedup_def ReleaseAlertDedup_def mem_cmd_defs mem_now_def mem_view_def
        InsertAlert_def pg_run_def speeding_rule_def DefaultAlertRules_def sample_msg_def sample_redis_def mem_empty_def sample_pg_def)
  then have e: "?e = (InsertFailed True, fst (snd ?e), snd (snd ?e))" by (metis prod.collapse)
  have "?f = (fst ?f, fst (snd ?f), snd (snd ?f))" by simp
  from failed_insert_can_be_retried [OF mem.redis_server_axioms e this refl refl] show ?thesis .
qed





end
