(* ===== verification/Ingest_Http.thy ===== *)
theory Ingest_Http
  imports Ingest_Auth Ingest_Dispatcher Ingest_Alerts
begin

text \<open>
  The HTTP transport of the ingestion service (\<open>src/ingestion/internal/transport/http\<close>) and the
  wiring of the process (\<open>src/ingestion/main.go\<close>). A request is its API key header and its body,
  the JSON value it denotes (\<open>None\<close> for a body that is not JSON). The parser of RFC 3339 times,
  the text \<open>encoding/json\<close> prints for a payload and the printer of times are parameters.
\<close>

section \<open>handler.go\<close>

record incomingPayload =
  ip_Timestamp :: time
  ip_VehicleID :: string
  ip_FleetID :: string
  ip_Latitude :: float64
  ip_Longitude :: float64
  ip_SpeedKmh :: float64
  ip_FuelPct :: float64
  ip_EngineTempC :: float64
  ip_BatteryVoltage :: float64
  ip_OdometerKm :: float64
  ip_IsMoving :: bool
  ip_EngineOn :: bool

definition zero_payload :: incomingPayload where
  "zero_payload = \<lparr>ip_Timestamp = zero_time, ip_VehicleID = [], ip_FleetID = [],
     ip_Latitude = Fin 0, ip_Longitude = Fin 0, ip_SpeedKmh = Fin 0, ip_FuelPct = Fin 0,
     ip_EngineTempC = Fin 0, ip_BatteryVoltage = Fin 0, ip_OdometerKm = Fin 0,
     ip_IsMoving = False, ip_EngineOn = False\<rparr>"

fun set_time :: "(string \<Rightarrow> time option) \<Rightarrow> json \<Rightarrow> incomingPayload \<Rightarrow> incomingPayload option" where
  "set_time parseTime (JStr s) p = map_option (\<lambda>t. p\<lparr>ip_Timestamp := t\<rparr>) (parseTime s)"
| "set_time parseTime JNull p = Some p"
| "set_time parseTime _ p = None"

definition set_location :: "string \<Rightarrow> json \<Rightarrow> incomingPayload \<Rightarrow> incomingPayload option" where
  "set_location k v p =
     (if names_field k ''latitude'' then set_float (\<lambda>x p. p\<lparr>ip_Latitude := x\<rparr>) v p
      else if names_field k ''longitude'' then set_float (\<lambda>x p. p\<lparr>ip_Longitude := x\<rparr>) v p
      else Some p)"

definition set_vehicle_state :: "string \<Rightarrow> json \<Rightarrow> incomingPayload \<Rightarrow> incomingPayload option" where
  "set_vehicle_state k v p =
     (if names_field k ''speed_kmh'' then set_float (\<lambda>x p. p\<lparr>ip_SpeedKmh := x\<rparr>) v p
      else if names_field k ''fuel_pct'' then set_float (\<lambda>x p. p\<lparr>ip_FuelPct := x\<rparr>) v p
      else if names_field k ''engine_temp_celsius'' then set_float (\<lambda>x p. p\<lparr>ip_EngineTempC := x\<rparr>) v p
      else if names_field k ''battery_voltage'' then set_float (\<lambda>x p. p\<lparr>ip_BatteryVoltage := x\<rparr>) v p
      else if names_field k ''odometer_km'' then set_float (\<lambda>x p. p\<lparr>ip_OdometerKm := x\<rparr>) v p
      else if names_field k ''is_moving'' then set_bool (\<lambda>x p. p\<lparr>ip_IsMoving := x\<rparr>) v p
      else if names_field k ''engine_on'' then set_bool (\<lambda>x p. p\<lparr>ip_EngineOn := x\<rparr>) v p
      else Some p)"

definition set_payload ::
  "(string \<Rightarrow> time option) \<Rightarrow> string \<Rightarrow> json \<Rightarrow> incomingPayload \<Rightarrow> incomingPayload option" where
  "set_payload parseTime k v p =
     (if names_field k ''timestamp'' then set_time parseTime v p
      else if names_field k ''vehicle_id'' then set_string (\<lambda>s p. p\<lparr>ip_VehicleID := s\<rparr>) v p
      else if names_field k ''fleet_id'' then set_string (\<lambda>s p. p\<lparr>ip_FleetID := s\<rparr>) v p
      else if names_field k ''location'' then decode_struct set_location v p
      else if names_field k ''vehicle_state'' then decode_struct set_vehicle_state v p
      else Some p)"

definition decode_payload :: "(string \<Rightarrow> time option) \<Rightarrow> json option \<Rightarrow> incomingPayload option" where
  "decode_payload parseTime body =
     (case body of None \<Rightarrow> None | Some j \<Rightarrow> decode_struct (set_payload parseTime) j zero_payload)"

definition fleetIDFromContext :: "string option \<Rightarrow> string" where
  "fleetIDFromContext ctx = (case ctx of None \<Rightarrow> [] | Some f \<Rightarrow> f)"

definition telemetry_msg :: "time \<Rightarrow> string \<Rightarrow> incomingPayload \<Rightarrow> TelemetryMessage" where
  "telemetry_msg now raw p =
     \<lparr>tm_ReceivedAt = now, tm_Timestamp = ip_Timestamp p, tm_VehicleID = ip_VehicleID p,
      tm_FleetID = ip_FleetID p, tm_Latitude = ip_Latitude p, tm_Longitude = ip_Longitude p,
      tm_SpeedKmh = ip_SpeedKmh p, tm_FuelPct = ip_FuelPct p, tm_EngineTempC = ip_EngineTempC p,
      tm_BatteryVoltage = ip_BatteryVoltage p, tm_OdometerKm = ip_OdometerKm p,
      tm_IsMoving = ip_IsMoving p, tm_EngineOn = ip_EngineOn p, tm_RawPayload = raw\<rparr>"

text \<open>What \<open>json.Marshal(p)\<close> writes, by the tags of the struct; \<open>fmtTime\<close> prints a time.\<close>

definition payload_json :: "(time \<Rightarrow> string) \<Rightarrow> incomingPayload \<Rightarrow> json" where
  "payload_json fmtTime p =
     JObj [(''timestamp'', JStr (fmtTime (ip_Timestamp p))), (''vehicle_id'', JStr (ip_VehicleID p)),
       (''fleet_id'', JStr (ip_FleetID p)),
       (''location'', JObj [(''latitude'', JNum (ip_Latitude p)), (''longitude'', JNum (ip_Longitude p))]),
       (''vehicle_state'', JObj [(''speed_kmh'', JNum (ip_SpeedKmh p)), (''fuel_pct'', JNum (ip_FuelPct p)),
          (''engine_temp_celsius'', JNum (ip_EngineTempC p)), (''battery_voltage'', JNum (ip_BatteryVoltage p)),
          (''odometer_km'', JNum (ip_OdometerKm p)), (''is_moving'', JBool (ip_IsMoving p)),
          (''engine_on'', JBool (ip_EngineOn p))])]"

text \<open>The standard-library functions the handler calls.\<close>

record codec =
  co_parseTime :: "string \<Rightarrow> time option"
  co_marshal :: "incomingPayload \<Rightarrow> string"

definition Handle ::
  "codec \<Rightarrow> time \<Rightarrow> string option \<Rightarrow> json option \<Rightarrow> Dispatcher \<Rightarrow> metrics \<Rightarrow> response \<times> Dispatcher \<times> metrics" where
  "Handle co now ctx body d m =
     (case decode_payload (co_parseTime co) body of
        None \<Rightarrow> (error_response StatusBadRequest ''invalid json payload'', d, m)
      | Some p \<Rightarrow>
          if ip_VehicleID p = [] \<or> ip_FleetID p = []
          then (error_response StatusBadRequest ''vehicle_id and fleet_id are required'', d, m)
          else if fleetIDFromContext ctx = [] \<or> fleetIDFromContext ctx \<noteq> ip_FleetID p
          then (error_response StatusForbidden ''API key is not authorized for this fleet'', d, m)
          else
            (case Dispatch (telemetry_msg now (co_marshal co p) p) d m of
               (False, d', m') \<Rightarrow>
                 (error_response StatusServiceUnavailable
                    ''telemetry pipeline is unavailable; retry the request'', d', m')
             | (True, d', m') \<Rightarrow>
                 (json_response StatusAccepted (JObj [(''status'', JStr ''accepted'')]), d', add_received m')))"

section \<open>middleware.go\<close>

text \<open>\<open>Wrap\<close>: the authenticator's state, the rest of the request given the fleet of the key.\<close>

definition Wrap ::
  "(string \<Rightarrow> 's \<Rightarrow> (string \<times> bool) \<times> 's) \<Rightarrow> string \<Rightarrow> (string option \<Rightarrow> 'w \<Rightarrow> response \<times> 'w) \<Rightarrow>
     's \<Rightarrow> 'w \<Rightarrow> response \<times> 's \<times> 'w" where
  "Wrap fleetID apiKey handler s w =
     (if apiKey = [] then (error_response StatusUnauthorized ''missing X-API-Key header'', s, w)
      else case fleetID apiKey s of
             ((f, False), s') \<Rightarrow> (error_response StatusUnauthorized ''invalid API key'', s', w)
           | ((f, True), s') \<Rightarrow> (case handler (Some f) w of (resp, w') \<Rightarrow> (resp, s', w')))"

section \<open>health.go\<close>

text \<open>The errors of the two pings; \<open>fmtTime\<close> prints a time.\<close>

definition HealthHandle :: "string \<Rightarrow> (time \<Rightarrow> string) \<Rightarrow> time \<Rightarrow> string option \<Rightarrow> string option \<Rightarrow> response" where
  "HealthHandle service fmtTime now tsErr redisErr =
     (let dep = (\<lambda>e. case e of None \<Rightarrow> JStr ''healthy'' | Some msg \<Rightarrow> JStr (''unhealthy'' @ msg));
          healthy = (tsErr = None \<and> redisErr = None)
      in json_response (if healthy then StatusOK else StatusServiceUnavailable)
           (JObj [(''status'', JStr (if healthy then ''healthy'' else ''degraded'')),
                  (''service'', JStr service), (''timestamp'', JStr (fmtTime now)),
                  (''dependencies'', JObj [(''timescaledb'', dep tsErr), (''redis'', dep redisErr)])]))"

section \<open>server.go\<close>

datatype endpoint = TelemetryEndpoint | HealthEndpoint | MetricsEndpoint

text \<open>The patterns of the mux: a \<open>GET\<close> pattern serves \<open>HEAD\<close> too; another method on a known path is
  405, another path 404.\<close>

definition NewServer_route :: "string \<Rightarrow> string \<Rightarrow> nat + endpoint" where
  "NewServer_route meth path =
     (if path = ''/api/v1/telemetry'' then (if meth = ''POST'' then Inr TelemetryEndpoint else Inl 405)
      else if path = ''/health'' then (if meth \<in> set [''GET'', ''HEAD''] then Inr HealthEndpoint else Inl 405)
      else if path = ''/metrics'' then (if meth \<in> set [''GET'', ''HEAD''] then Inr MetricsEndpoint else Inl 405)
      else Inl 404)"

definition server_addr :: "IngestConfig \<Rightarrow> string" where
  "server_addr cfg = '':'' @ ic_HTTPPort cfg"

text \<open>\<open>POST /api/v1/telemetry\<close> as the server composes it, over the Redis store.\<close>

record 'r ingest_state =
  is_auth :: Authenticator
  is_redis :: 'r
  is_disp :: Dispatcher
  is_metrics :: metrics

record ingest_request =
  rq_key :: string
  rq_body :: "json option"
  rq_now :: time
  rq_now' :: time
  rq_recv :: time

definition telemetry_endpoint ::
  "'r redis_client \<Rightarrow> codec \<Rightarrow> ingest_request \<Rightarrow> 'r ingest_state \<Rightarrow> response \<times> 'r ingest_state" where
  "telemetry_endpoint rc co rq s =
     (case Wrap (fleet_lookup rc (rq_now rq) (rq_now' rq)) (rq_key rq)
             (\<lambda>ctx w. case Handle co (rq_recv rq) ctx (rq_body rq) (fst w) (snd w) of
                        (resp, d, m) \<Rightarrow> (resp, d, m))
             (is_auth s, is_redis s) (is_disp s, is_metrics s) of
        (resp, (a, r), (d, m)) \<Rightarrow>
          (resp, s\<lparr>is_auth := a, is_redis := r, is_disp := d, is_metrics := m\<rparr>))"

text \<open>A history of requests: before each, the other clients of Redis and the passing of time may
  change it in any way (\<open>env\<close>). \<open>lookups\<close> lists the requests with the Redis they found.\<close>

definition env_step :: "('r \<Rightarrow> 'r) \<Rightarrow> 'r ingest_state \<Rightarrow> 'r ingest_state" where
  "env_step env s = s\<lparr>is_redis := env (is_redis s)\<rparr>"

fun serve_all ::
  "'r redis_client \<Rightarrow> codec \<Rightarrow> (('r \<Rightarrow> 'r) \<times> ingest_request) list \<Rightarrow> 'r ingest_state \<Rightarrow>
     response list \<times> 'r ingest_state" where
  "serve_all rc co [] s = ([], s)"
| "serve_all rc co ((env, rq) # rqs) s =
     (let (resp, s') = telemetry_endpoint rc co rq (env_step env s);
          (resps, s'') = serve_all rc co rqs s'
      in (resp # resps, s''))"

fun lookups ::
  "'r redis_client \<Rightarrow> codec \<Rightarrow> (('r \<Rightarrow> 'r) \<times> ingest_request) list \<Rightarrow> 'r ingest_state \<Rightarrow>
     (ingest_request \<times> 'r) list" where
  "lookups rc co [] s = []"
| "lookups rc co ((env, rq) # rqs) s =
     (rq, env (is_redis s)) # lookups rc co rqs (snd (telemetry_endpoint rc co rq (env_step env s)))"

section \<open>main.go\<close>

text \<open>What \<open>main\<close> starts once both stores are connected; \<open>None\<close>: \<open>make\<close> panics on a negative
  channel size. The counting loops start no worker for a count that is not positive.\<close>

record ingest_process =
  pr_auth :: Authenticator
  pr_disp :: Dispatcher
  pr_dbWriters :: "DBWriter list"
  pr_stateWriters :: nat
  pr_alertEvaluators :: nat
  pr_addr :: string

definition ingest_main :: "IngestConfig \<Rightarrow> ingest_process option" where
  "ingest_main cfg =
     (case NewDispatcher (ic_DBChannelSize cfg) (ic_StateChannelSize cfg) (ic_AlertChannelSize cfg) of
        None \<Rightarrow> None
      | Some d \<Rightarrow>
          Some \<lparr>pr_auth = NewAuthenticator cfg, pr_disp = d,
                pr_dbWriters = replicate (nat (ic_DBWriterWorkers cfg))
                  (NewDBWriter (ic_DBBatchSize cfg) (ic_DBFlushIntervalMS cfg)),
                pr_stateWriters = nat (ic_StateWriterWorkers cfg),
                pr_alertEvaluators = nat (ic_AlertWorkers cfg),
                pr_addr = server_addr cfg\<rparr>)"

section \<open>Lemmas\<close>

lemma fleet_lookup_eq:
  "fleet_lookup rc n n' k (a, r) = (res, a', r') \<longleftrightarrow> FleetID (GetAPIKey rc) n n' k a r = (res, a', r')"
  by (simp add: fleet_lookup_def)

text \<open>The two ways a telemetry request can end.\<close>

lemma Handle_accepted:
  assumes "Handle co now ctx body d m = (resp, d', m')" "resp_status resp = StatusAccepted"
  obtains p where "decode_payload (co_parseTime co) body = Some p" "ip_VehicleID p \<noteq> []"
    "ip_FleetID p \<noteq> []" "ctx = Some (ip_FleetID p)"
    "Dispatch (telemetry_msg now (co_marshal co p) p) d m = (True, d', m)" "m' = add_received m"
proof -
  obtain p where p: "decode_payload (co_parseTime co) body = Some p"
    using assms by (auto simp: Handle_def split: option.splits)
  obtain ok d1 m1 where D: "Dispatch (telemetry_msg now (co_marshal co p) p) d m = (ok, d1, m1)"
    by (metis surj_pair)
  have "ip_VehicleID p \<noteq> [] \<and> ip_FleetID p \<noteq> [] \<and> fleetIDFromContext ctx = ip_FleetID p \<and> ok \<and> d' = d1 \<and> m' = add_received m1"
    using assms p D by (auto simp: Handle_def split: if_splits bool.splits)
  moreover from this D have "m1 = m" by (simp add: Dispatch_True)
  ultimately show ?thesis
    using that p D by (cases ctx) (auto simp: fleetIDFromContext_def)
qed

lemma Handle_refused:
  assumes "Handle co now ctx body d m = (resp, d', m')" "resp_status resp \<noteq> StatusAccepted"
  shows "d' = d \<and> m' = (if resp_status resp = StatusServiceUnavailable then add_rejected m else m)"
proof (cases "decode_payload (co_parseTime co) body")
  case None
  then show ?thesis using assms(1) by (auto simp: Handle_def)
next
  case (Some p)
  obtain ok d1 m1 where D: "Dispatch (telemetry_msg now (co_marshal co p) p) d m = (ok, d1, m1)"
    by (metis surj_pair)
  moreover have "\<not> ok \<Longrightarrow> d1 = d \<and> m1 = add_rejected m" using D Dispatch_False by simp
  ultimately show ?thesis
    using assms Some by (cases ok) (auto simp: Handle_def split: if_splits)
qed

lemma telemetry_endpoint_cases:
  assumes "telemetry_endpoint rc co rq s = (resp, s')"
  obtains (no_key) "rq_key rq = []" "resp_status resp = StatusUnauthorized" "s' = s"
  | (bad_key) f a r where "rq_key rq \<noteq> []" "resp_status resp = StatusUnauthorized"
      "FleetID (GetAPIKey rc) (rq_now rq) (rq_now' rq) (rq_key rq) (is_auth s) (is_redis s) = ((f, False), a, r)"
      "s' = s\<lparr>is_auth := a, is_redis := r\<rparr>"
  | (handled) f a r d m where "rq_key rq \<noteq> []"
      "FleetID (GetAPIKey rc) (rq_now rq) (rq_now' rq) (rq_key rq) (is_auth s) (is_redis s) = ((f, True), a, r)"
      "Handle co (rq_recv rq) (Some f) (rq_body rq) (is_disp s) (is_metrics s) = (resp, d, m)"
      "s' = s\<lparr>is_auth := a, is_redis := r, is_disp := d, is_metrics := m\<rparr>"
proof -
  obtain f ok a r where F: "FleetID (GetAPIKey rc) (rq_now rq) (rq_now' rq) (rq_key rq) (is_auth s) (is_redis s) = ((f, ok), a, r)"
    by (metis surj_pair)
  obtain resp' d m where H: "Handle co (rq_recv rq) (Some f) (rq_body rq) (is_disp s) (is_metrics s) = (resp', d, m)"
    by (metis surj_pair)
  show ?thesis
  proof (cases "rq_key rq = []")
    case True
    then show ?thesis using assms no_key by (auto simp: telemetry_endpoint_def Wrap_def)
  next
    case False
    then show ?thesis
      using assms F H bad_key handled by (cases ok) (auto simp: telemetry_endpoint_def Wrap_def fleet_lookup_def)
  qed
qed

lemma endpoint_accepted:
  assumes "telemetry_endpoint rc co rq s = (resp, s')" "resp_status resp = StatusAccepted"
  obtains p a r where "rq_key rq \<noteq> []" "decode_payload (co_parseTime co) (rq_body rq) = Some p"
    "ip_VehicleID p \<noteq> []" "ip_FleetID p \<noteq> []"
    "FleetID (GetAPIKey rc) (rq_now rq) (rq_now' rq) (rq_key rq) (is_auth s) (is_redis s) = ((ip_FleetID p, True), a, r)"
    "Dispatch (telemetry_msg (rq_recv rq) (co_marshal co p) p) (is_disp s) (is_metrics s) = (True, is_disp s', is_metrics s)"
    "is_metrics s' = add_received (is_metrics s)"
  using assms(1)
proof (cases rule: telemetry_endpoint_cases)
  case (handled f a r d m)
  from handled(3) assms(2) show ?thesis
    by (rule Handle_accepted) (use handled that in auto)
qed (use assms(2) in auto)

lemma endpoint_admits:
  assumes "telemetry_endpoint rc co rq s = (resp, s')" "resp_status resp = StatusAccepted"
  shows "\<exists>p. rq_key rq \<noteq> [] \<and> decode_payload (co_parseTime co) (rq_body rq) = Some p \<and>
    ip_VehicleID p \<noteq> [] \<and> ip_FleetID p \<noteq> [] \<and>
    fst (FleetID (GetAPIKey rc) (rq_now rq) (rq_now' rq) (rq_key rq) (is_auth s) (is_redis s)) = (ip_FleetID p, True) \<and>
    length (cbuf (d_ingress (is_disp s))) < ccap (d_ingress (is_disp s)) \<and>
    cbuf (d_ingress (is_disp s')) = cbuf (d_ingress (is_disp s)) @ [telemetry_msg (rq_recv rq) (co_marshal co p) p] \<and>
    is_metrics s' = add_received (is_metrics s)"
  using assms
proof (rule endpoint_accepted)
  fix p a r
  assume "rq_key rq \<noteq> []" "decode_payload (co_parseTime co) (rq_body rq) = Some p"
    "ip_VehicleID p \<noteq> []" "ip_FleetID p \<noteq> []"
    "FleetID (GetAPIKey rc) (rq_now rq) (rq_now' rq) (rq_key rq) (is_auth s) (is_redis s) = ((ip_FleetID p, True), a, r)"
    "is_metrics s' = add_received (is_metrics s)"
    and D: "Dispatch (telemetry_msg (rq_recv rq) (co_marshal co p) p) (is_disp s) (is_metrics s) = (True, is_disp s', is_metrics s)"
  moreover have "length (cbuf (d_ingress (is_disp s))) < ccap (d_ingress (is_disp s))"
    "cbuf (d_ingress (is_disp s')) = cbuf (d_ingress (is_disp s)) @ [telemetry_msg (rq_recv rq) (co_marshal co p) p]"
    using D by (simp_all add: Dispatch_True)
  ultimately show ?thesis by (intro exI [of _ p]) simp
qed

lemma endpoint_refused:
  assumes "telemetry_endpoint rc co rq s = (resp, s')" "resp_status resp \<noteq> StatusAccepted"
  shows "is_disp s' = is_disp s \<and>
     is_metrics s' = (if resp_status resp = StatusServiceUnavailable then add_rejected (is_metrics s) else is_metrics s)"
  using assms(1)
proof (cases rule: telemetry_endpoint_cases)
  case (handled f a r d m)
  then show ?thesis using Handle_refused [OF handled(3) assms(2)] by simp
qed auto

lemma endpoint_accepts:
  assumes "telemetry_endpoint rc co rq s = (resp, s')" "\<not> cclosed (d_ingress (is_disp s))"
    and "rq_key rq \<noteq> []" "decode_payload (co_parseTime co) (rq_body rq) = Some p"
    and "ip_VehicleID p \<noteq> []" "ip_FleetID p \<noteq> []"
    and "fst (FleetID (GetAPIKey rc) (rq_now rq) (rq_now' rq) (rq_key rq) (is_auth s) (is_redis s)) = (ip_FleetID p, True)"
    and "length (cbuf (d_ingress (is_disp s))) < ccap (d_ingress (is_disp s))"
  shows "resp_status resp = StatusAccepted"
  using assms(1)
proof (cases rule: telemetry_endpoint_cases)
  case (handled f a r d m)
  have f: "f = ip_FleetID p" using handled(2) assms(7) by simp
  obtain d1 m1 where "Dispatch (telemetry_msg (rq_recv rq) (co_marshal co p) p) (is_disp s) (is_metrics s) = (True, d1, m1)"
    using assms(2,8) by (simp add: Dispatch_True)
  then show ?thesis using handled(3) f assms(4-6) by (auto simp: Handle_def fleetIDFromContext_def)
qed (use assms in auto)

subsection \<open>The cache across requests\<close>

definition lookup_call :: "'r redis_client \<Rightarrow> ingest_request \<times> 'r \<Rightarrow> auth_call" where
  "lookup_call rc l =
     \<lparr>ac_now = rq_now (fst l), ac_now' = rq_now' (fst l), ac_key = rq_key (fst l),
      ac_reply = fst (GetAPIKey rc (rq_key (fst l)) (snd l))\<rparr>"

lemma FleetID_reply:
  "FleetID g n n' k a r = (res, a', r') \<Longrightarrow> fst (g k r) = y \<Longrightarrow>
     FleetID (\<lambda>k r. (y, r)) n n' k a () = (res, a', ())"
  by (auto simp: FleetID_def Let_def split: if_splits option.splits prod.splits sum.splits)

lemma endpoint_auth:
  assumes "telemetry_endpoint rc co rq s = (resp, s')"
  shows "is_auth s' = snd (auth_call_result (lookup_call rc (rq, is_redis s)) (is_auth s))"
  using assms
proof (cases rule: telemetry_endpoint_cases)
  case no_key
  then show ?thesis by (simp add: auth_call_result_def lookup_call_def FleetID_def)
next
  case (bad_key f a r)
  then show ?thesis
    using FleetID_reply [OF bad_key(3) refl] by (simp add: auth_call_result_def lookup_call_def)
next
  case (handled f a r d m)
  then show ?thesis
    using FleetID_reply [OF handled(2) refl] by (simp add: auth_call_result_def lookup_call_def)
qed

lemma serve_all_auth:
  "serve_all rc co rqs s = (resps, s') \<Longrightarrow>
     is_auth s' = auth_run (map (lookup_call rc) (lookups rc co rqs s)) (is_auth s)"
proof (induction rqs arbitrary: s resps)
  case (Cons x rqs)
  obtain env rq where x: "x = (env, rq)" by (cases x)
  obtain resp s1 where e: "telemetry_endpoint rc co rq (env_step env s) = (resp, s1)" by fastforce
  obtain resps1 where rest: "serve_all rc co rqs s1 = (resps1, s')"
    using Cons.prems x e by (auto split: prod.splits)
  show ?case using Cons.IH [OF rest] endpoint_auth [OF e] x e by (simp add: env_step_def)
qed simp

subsection \<open>Counting\<close>

definition answered :: "nat \<Rightarrow> response list \<Rightarrow> nat" where
  "answered status resps = length (filter (\<lambda>resp. resp_status resp = status) resps)"

lemma serve_all_counts:
  "serve_all rc co rqs s = (resps, s') \<Longrightarrow>
     MessagesReceived (is_metrics s') = counter_add (int (answered StatusAccepted resps)) (MessagesReceived (is_metrics s)) \<and>
     DBDispatchRejected (is_metrics s') = counter_add (int (answered StatusServiceUnavailable resps)) (DBDispatchRejected (is_metrics s)) \<and>
     length (cbuf (d_ingress (is_disp s'))) = length (cbuf (d_ingress (is_disp s))) + answered StatusAccepted resps"
  if "in_int64 (MessagesReceived (is_metrics s))" "in_int64 (DBDispatchRejected (is_metrics s))"
  using that
proof (induction rqs arbitrary: s resps)
  case Nil
  then show ?case by (simp add: answered_def counter_add_def)
next
  case (Cons x rqs)
  obtain env rq where x: "x = (env, rq)" by (cases x)
  obtain resp s1 where e: "telemetry_endpoint rc co rq (env_step env s) = (resp, s1)" by fastforce
  obtain resps1 where rest: "serve_all rc co rqs s1 = (resps1, s')" and r: "resps = resp # resps1"
    using Cons.prems x e by (auto split: prod.splits)
  show ?case
  proof (cases "resp_status resp = StatusAccepted")
    case True
    from endpoint_accepted [OF e True] obtain p where
      "Dispatch (telemetry_msg (rq_recv rq) (co_marshal co p) p) (is_disp (env_step env s)) (is_metrics (env_step env s)) =
         (True, is_disp s1, is_metrics (env_step env s))"
      "is_metrics s1 = add_received (is_metrics (env_step env s))" by metis
    then show ?thesis
      using Cons.IH [OF rest] Cons.prems True r
      by (simp add: Dispatch_True answered_def env_step_def add_received_def counter_add_add)
        (simp add: counter_add_def)
  next
    case False
    then show ?thesis
      using Cons.IH [OF rest] endpoint_refused [OF e False] Cons.prems r
      by (auto simp: answered_def env_step_def add_rejected_def counter_add_add) (simp_all add: counter_add_def)
  qed
qed

section \<open>Properties\<close>

definition sample_codec :: codec where
  "sample_codec = \<lparr>co_parseTime = ParseInt, co_marshal = (\<lambda>_. ''{}'')\<rparr>"

definition sample_body :: json where
  "sample_body = JObj [(''vehicle_id'', JStr ''TRUCK-1''), (''fleet_id'', JStr ''fleet-a'')]"

definition sample_request :: "string \<Rightarrow> time \<Rightarrow> ingest_request" where
  "sample_request key now = \<lparr>rq_key = key, rq_body = Some sample_body, rq_now = now, rq_now' = now, rq_recv = now\<rparr>"

definition sample_cfg :: IngestConfig where
  "sample_cfg = ingest_Load (\<lambda>_. [])"

definition key_redis :: mem_redis where
  "key_redis = sample_redis\<lparr>mr_keys := [auth_key ''k1'' \<mapsto> (RStr ''fleet-a'', None)]\<rparr>"

definition sample_state :: "mem_redis ingest_state" where
  "sample_state = \<lparr>is_auth = NewAuthenticator sample_cfg, is_redis = key_redis,
     is_disp = sample_dispatcher, is_metrics = zero_metrics\<rparr>"

lemma sample_names [simp]:
  "names_field ''vehicle_id'' ''timestamp'' = False" "names_field ''vehicle_id'' ''vehicle_id''"
  "names_field ''fleet_id'' ''timestamp'' = False" "names_field ''fleet_id'' ''vehicle_id'' = False"
  "names_field ''fleet_id'' ''fleet_id''"
  by (simp_all add: names_field_def lower_char_def)

lemma sample_decoded:
  "decode_payload (co_parseTime sample_codec) (Some sample_body) =
     Some (zero_payload\<lparr>ip_VehicleID := ''TRUCK-1'', ip_FleetID := ''fleet-a''\<rparr>)"
  by (simp add: decode_payload_def sample_body_def set_payload_def)

lemma sample_static: "static_key_map (ic_ValidAPIKeys sample_cfg) k = False"
  by (simp add: static_key_map_iff sample_cfg_def ingest_Load_def getEnv_def)

lemmas sample_state_defs =
  sample_state_def sample_request_def key_redis_def sample_redis_def mem_empty_def NewAuthenticator_def
  sample_dispatcher_def NewDispatcher_def make_chan_def

lemma sample_accepted:
  "resp_status (fst (telemetry_endpoint sample_client sample_codec (sample_request ''k1'' 0) sample_state)) = StatusAccepted"
  by (simp add: telemetry_endpoint_def Wrap_def fleet_lookup_def FleetID_def sample_static GetAPIKey_def
      mem_Get_def mem_faulty_def mem_now_def mem_view_def Handle_def sample_decoded fleetIDFromContext_def
      Dispatch_def ch_send_def sample_state_defs)



text \<open>C1. Tenant isolation, with the bound on revocation: when, after any history of requests to a fresh
  service and any interference on Redis, a request is accepted, the message admitted belongs to a
  fleet that Redis maps the request's key to, either now or at an earlier request with the same
  key less than the cache lifetime ago; and the key is not one of the static keys.\<close>

theorem accepted_fleet_owns_key:
  assumes "redis_server rc view clock published" "is_auth s0 = NewAuthenticator cfg"
    and "serve_all rc co rqs s0 = (resps, s)"
    and "telemetry_endpoint rc co rq s = (resp, s')" "resp_status resp = StatusAccepted"
  shows "\<exists>m. cbuf (d_ingress (is_disp s')) = cbuf (d_ingress (is_disp s)) @ [m] \<and>
     rq_key rq \<notin> set (ic_ValidAPIKeys cfg) \<and>
     (view (is_redis s) (clock (is_redis s)) (auth_key (rq_key rq)) = Some (RStr (tm_FleetID m)) \<or>
      (\<exists>(rq', r)\<in>set (lookups rc co rqs s0). rq_key rq' = rq_key rq \<and>
         view r (clock r) (auth_key (rq_key rq)) = Some (RStr (tm_FleetID m)) \<and>
         rq_now rq < rq_now' rq' + duration_of (ic_AuthCacheTTLSeconds cfg) Second))"
proof -
  have owner: "view r (clock r) (auth_key k) = Some (RStr f)" if "fst (GetAPIKey rc k r) = Inr f" "f \<noteq> []" for k r f
  proof -
    from that obtain r' where "cmd_Get rc (auth_key k) r = (Inr f, r')"
      by (auto simp: GetAPIKey_def split: prod.splits sum.splits redis_err.splits)
    then show ?thesis using redis_server.get_value [OF assms(1)] by blast
  qed
  obtain p a r where F: "FleetID (GetAPIKey rc) (rq_now rq) (rq_now' rq) (rq_key rq) (is_auth s) (is_redis s) = ((ip_FleetID p, True), a, r)"
    and D: "Dispatch (telemetry_msg (rq_recv rq) (co_marshal co p) p) (is_disp s) (is_metrics s) = (True, is_disp s', is_metrics s)"
    and f: "ip_FleetID p \<noteq> []"
    using endpoint_accepted [OF assms(4,5)] by metis
  have a: "is_auth s = auth_run (map (lookup_call rc) (lookups rc co rqs s0)) (NewAuthenticator cfg)"
    using serve_all_auth [OF assms(3)] assms(2) by simp
  then have ttl: "au_ttl (is_auth s) = duration_of (ic_AuthCacheTTLSeconds cfg) Second"
    and static: "au_staticKeys (is_auth s) = static_key_map (ic_ValidAPIKeys cfg)"
    by (simp_all add: NewAuthenticator_def)
  have just: "cache_justified (set (map (lookup_call rc) (lookups rc co rqs s0))) (is_auth s)"
    using auth_run_justified [OF NewAuthenticator_justified] a by (metis Un_empty_left)
  note src = FleetID_source [OF F f]
  let ?m = "telemetry_msg (rq_recv rq) (co_marshal co p) p"
  have "cbuf (d_ingress (is_disp s')) = cbuf (d_ingress (is_disp s)) @ [?m]"
    using D by (simp add: Dispatch_True)
  moreover have "rq_key rq \<notin> set (ic_ValidAPIKeys cfg)"
    using src static by (auto simp: static_key_map_iff)
  moreover have "view (is_redis s) (clock (is_redis s)) (auth_key (rq_key rq)) = Some (RStr (ip_FleetID p)) \<or>
      (\<exists>(rq', r)\<in>set (lookups rc co rqs s0). rq_key rq' = rq_key rq \<and>
         view r (clock r) (auth_key (rq_key rq)) = Some (RStr (ip_FleetID p)) \<and>
         rq_now rq < rq_now' rq' + duration_of (ic_AuthCacheTTLSeconds cfg) Second)"
    using src
  proof (elim conjE disjE exE)
    fix e
    assume e: "au_localCache (is_auth s) (rq_key rq) = Some e" "rq_now rq < ce_expiresAt e" "ce_fleetID e = ip_FleetID p"
    from just e(1) obtain rq' r where l: "(rq', r) \<in> set (lookups rc co rqs s0)"
      "rq_key rq' = rq_key rq" "fst (GetAPIKey rc (rq_key rq') r) = Inr (ce_fleetID e)"
      "ce_expiresAt e = rq_now' rq' + au_ttl (is_auth s)"
      unfolding cache_justified_def by (fastforce simp: lookup_call_def)
    then show ?thesis using owner [of "rq_key rq" r "ip_FleetID p"] e f ttl by (intro disjI2 bexI [OF _ l(1)]) auto
  next
    assume "GetAPIKey rc (rq_key rq) (is_redis s) = (Inr (ip_FleetID p), r)"
    then show ?thesis using owner [of "rq_key rq" "is_redis s" "ip_FleetID p"] f by simp
  qed
  ultimately show ?thesis by (intro exI [of _ ?m]) (simp add: telemetry_msg_def)
qed

theorem accepted_fleet_owns_key_witness:
  "\<exists>m. cbuf (d_ingress (is_disp (snd (telemetry_endpoint sample_client sample_codec (sample_request ''k1'' 0) sample_state)))) =
         cbuf (d_ingress (is_disp sample_state)) @ [m] \<and>
       mem_view key_redis (mr_now key_redis) (auth_key ''k1'') = Some (RStr (tm_FleetID m))"
proof -
  let ?e = "telemetry_endpoint sample_client sample_codec (sample_request ''k1'' 0) sample_state"
  have "?e = (fst ?e, snd ?e)" by simp
  moreover have "is_auth sample_state = NewAuthenticator sample_cfg" by (simp add: sample_state_def)
  moreover have "serve_all sample_client sample_codec [] sample_state = ([], sample_state)" by simp
  ultimately show ?thesis
    using accepted_fleet_owns_key [OF mem.redis_server_axioms _ _ _ sample_accepted]
    by (fastforce simp: sample_request_def sample_state_def)
qed

text \<open>The static keys of the configuration authenticate but can never submit telemetry: a request with
  one is answered 400 or 403, and the pipeline is left as it was.\<close>

theorem static_keys_cannot_ingest:
  assumes "au_staticKeys (is_auth s) (rq_key rq)" "rq_key rq \<noteq> []"
    and "telemetry_endpoint rc co rq s = (resp, s')"
  shows "resp_status resp \<in> {StatusBadRequest, StatusForbidden} \<and> is_disp s' = is_disp s"
proof -
  have F: "FleetID (GetAPIKey rc) (rq_now rq) (rq_now' rq) (rq_key rq) (is_auth s) (is_redis s) = (([], True), is_auth s, is_redis s)"
    using assms(1,2) by (simp add: FleetID_def)
  from assms(3) show ?thesis
  proof (cases rule: telemetry_endpoint_cases)
    case (handled f a r d m)
    then show ?thesis using F by (auto simp: Handle_def fleetIDFromContext_def split: option.splits if_splits)
  qed (use assms(2) F in auto)
qed

theorem static_keys_cannot_ingest_witness:
  "resp_status (fst (telemetry_endpoint sample_client sample_codec (sample_request ''static-key'' 0)
     (sample_state\<lparr>is_auth := NewAuthenticator (sample_cfg\<lparr>ic_ValidAPIKeys := [''static-key'']\<rparr>)\<rparr>)))
   \<in> {StatusBadRequest, StatusForbidden}"
proof -
  let ?s = "sample_state\<lparr>is_auth := NewAuthenticator (sample_cfg\<lparr>ic_ValidAPIKeys := [''static-key'']\<rparr>)\<rparr>"
  let ?e = "telemetry_endpoint sample_client sample_codec (sample_request ''static-key'' 0) ?s"
  have "au_staticKeys (is_auth ?s) (rq_key (sample_request ''static-key'' 0))"
    "rq_key (sample_request ''static-key'' 0) \<noteq> []"
    by (simp_all add: NewAuthenticator_def sample_request_def static_key_map_iff)
  moreover have "?e = (fst ?e, snd ?e)" by simp
  ultimately show ?thesis by (rule static_keys_cannot_ingest [THEN conjunct1])
qed

text \<open>The counters tell the truth: over any sequence of requests, the reception counter grows by the
  number of 202 answers and the rejection counter by the number of 503 answers (with the 64-bit
  wrap-around), and the ingress queue by the number of 202 answers.\<close>

theorem requests_are_counted:
  assumes "serve_all rc co rqs s = (resps, s')"
    and "in_int64 (MessagesReceived (is_metrics s))" "in_int64 (DBDispatchRejected (is_metrics s))"
  shows "MessagesReceived (is_metrics s') =
           wrap64 (MessagesReceived (is_metrics s) + int (answered StatusAccepted resps)) \<and>
         DBDispatchRejected (is_metrics s') =
           wrap64 (DBDispatchRejected (is_metrics s) + int (answered StatusServiceUnavailable resps)) \<and>
         length (cbuf (d_ingress (is_disp s'))) =
           length (cbuf (d_ingress (is_disp s))) + answered StatusAccepted resps"
  using serve_all_counts [OF assms(2,3,1)] by (simp add: counter_add_def)

theorem requests_are_counted_witness:
  "MessagesReceived (is_metrics (snd (serve_all sample_client sample_codec
      [(id, sample_request ''k1'' 0)] sample_state))) =
   wrap64 (int (answered StatusAccepted (fst (serve_all sample_client sample_codec
      [(id, sample_request ''k1'' 0)] sample_state))))"
proof -
  let ?r = "serve_all sample_client sample_codec [(id, sample_request ''k1'' 0)] sample_state"
  have "?r = (fst ?r, snd ?r)" by simp
  moreover have "is_metrics sample_state = zero_metrics" by (simp add: sample_state_def)
  ultimately show ?thesis
    using requests_are_counted [of sample_client sample_codec "[(id, sample_request ''k1'' 0)]" sample_state "fst ?r" "snd ?r"]
    by (simp add: zero_metrics_def in_int64_def)
qed

definition payload_finite :: "incomingPayload \<Rightarrow> bool" where
  "payload_finite p \<longleftrightarrow> list_all is_finite [ip_Latitude p, ip_Longitude p, ip_SpeedKmh p, ip_FuelPct p,
     ip_EngineTempC p, ip_BatteryVoltage p, ip_OdometerKm p]"

lemma payload_names [simp]:
  "names_field ''location'' ''timestamp'' = False" "names_field ''location'' ''vehicle_id'' = False"
  "names_field ''location'' ''fleet_id'' = False" "names_field ''location'' ''location''"
  "names_field ''vehicle_state'' ''timestamp'' = False" "names_field ''vehicle_state'' ''vehicle_id'' = False"
  "names_field ''vehicle_state'' ''fleet_id'' = False" "names_field ''vehicle_state'' ''location'' = False"
  "names_field ''vehicle_state'' ''vehicle_state''" "names_field ''timestamp'' ''timestamp''"
  by (simp_all add: names_field_def lower_char_def)

lemma reading_names:
  "names_field ''longitude'' ''latitude'' = False" "names_field ''latitude'' ''latitude''"
  "names_field ''longitude'' ''longitude''" "names_field ''speed_kmh'' ''speed_kmh''"
  "names_field ''fuel_pct'' ''speed_kmh'' = False" "names_field ''fuel_pct'' ''fuel_pct''"
  "names_field ''engine_temp_celsius'' ''speed_kmh'' = False" "names_field ''engine_temp_celsius'' ''fuel_pct'' = False"
  "names_field ''engine_temp_celsius'' ''engine_temp_celsius''"
  "names_field ''battery_voltage'' ''speed_kmh'' = False" "names_field ''battery_voltage'' ''fuel_pct'' = False"
  "names_field ''battery_voltage'' ''engine_temp_celsius'' = False" "names_field ''battery_voltage'' ''battery_voltage''"
  "names_field ''odometer_km'' ''speed_kmh'' = False" "names_field ''odometer_km'' ''fuel_pct'' = False"
  "names_field ''odometer_km'' ''engine_temp_celsius'' = False" "names_field ''odometer_km'' ''battery_voltage'' = False"
  "names_field ''odometer_km'' ''odometer_km''"
  "names_field ''is_moving'' ''speed_kmh'' = False" "names_field ''is_moving'' ''fuel_pct'' = False"
  "names_field ''is_moving'' ''engine_temp_celsius'' = False" "names_field ''is_moving'' ''battery_voltage'' = False"
  "names_field ''is_moving'' ''odometer_km'' = False" "names_field ''is_moving'' ''is_moving''"
  "names_field ''engine_on'' ''speed_kmh'' = False" "names_field ''engine_on'' ''fuel_pct'' = False"
  "names_field ''engine_on'' ''engine_temp_celsius'' = False" "names_field ''engine_on'' ''battery_voltage'' = False"
  "names_field ''engine_on'' ''odometer_km'' = False" "names_field ''engine_on'' ''is_moving'' = False"
  "names_field ''engine_on'' ''engine_on''"
  by (simp_all add: names_field_def lower_char_def)



end
