(* ===== verification/Ingest_Process.thy ===== *)
theory Ingest_Process
  imports Ingest_Http "HOL-Library.Multiset"
begin

text \<open>
  The ingestion process (\<open>src/ingestion/main.go\<close> with the constructors of \<open>internal/store\<close> and the server of
  \<open>internal/transport/http/server.go\<close>): start-up, the goroutines it runs, and its shutdown.

  The process is one transition system over the shared stores: the HTTP server with its requests in flight, the
  dispatcher of \<open>Ingest_Dispatcher\<close>, and the three lists of workers. A worker moves from one blocking point to the
  next, so the calls of one worker interleave with those of the others: \<open>DBWriter.Run\<close> between the two attempts of a
  flush, the evaluator between any two calls. A request is answered in one step. The
  other clients of the stores change everything but the telemetry table.
  Four history fields record the batches the writers reported stored, gave up or handed to Redis and the messages
  whose evaluation ended.
\<close>

section \<open>Stores and start-up\<close>

definition NewRedisStore :: "'r redis_client \<Rightarrow> 'r \<Rightarrow> (string + unit) \<times> 'r" where
  "NewRedisStore rc r =
     (case cmd_Ping rc r of
        (Some e, r') \<Rightarrow> (Inl (''failed to connect to redis: '' @ err_text e), r')
      | (None, r') \<Rightarrow> (Inr (), r'))"

text \<open>\<open>pgxpool.New\<close> and \<open>Ping\<close> are parameters: the error of the first for a connection string, of the second for the server.\<close>

definition NewTimescaleStore ::
  "(string \<Rightarrow> string option) \<Rightarrow> (pg \<Rightarrow> string option \<times> pg) \<Rightarrow> IngestConfig \<Rightarrow> pg \<Rightarrow> (string + unit) \<times> pg" where
  "NewTimescaleStore newPool ping cfg p =
     (case newPool (connStr (ic_DBUser cfg) (ic_DBPassword cfg) (ic_DBHost cfg) (ic_DBPort cfg) (ic_DBName cfg) (ic_DBMaxConns cfg)) of
        Some e \<Rightarrow> (Inl (''failed to create db pool: '' @ e), p)
      | None \<Rightarrow>
          (case ping p of
             (Some e, p') \<Rightarrow> (Inl (''failed to ping db: '' @ e), p')
           | (None, p') \<Rightarrow> (Inr (), p')))"

section \<open>Workers\<close>

text \<open>A \<open>DBWriter\<close> waits in its \<open>select\<close> with a batch, is at the first or at the second attempt of a flush, or has returned;
  the flag says that \<open>Run\<close> returns after the flush.\<close>

datatype dbw_pc =
    Collecting "TelemetryMessage list"
  | Flushing "TelemetryMessage list" bool
  | Retrying "TelemetryMessage list" bool
  | DBStopped

definition collect :: "DBWriter \<Rightarrow> TelemetryMessage list \<Rightarrow> dbw_pc" where
  "collect w batch = (if dw_batchSize w \<le> int (length batch) then Flushing batch False else Collecting batch)"

definition last_flush :: "TelemetryMessage list \<Rightarrow> dbw_pc" where
  "last_flush batch = (if batch \<noteq> [] then Flushing batch True else DBStopped)"

definition resume :: "bool \<Rightarrow> dbw_pc" where
  "resume ret = (if ret then DBStopped else Collecting [])"

text \<open>The label: the message taken, the batch reported stored, the batch given up. A tick with an empty batch changes nothing.\<close>

inductive db_worker ::
  "DBWriter \<Rightarrow> bool \<Rightarrow> dbw_pc \<times> TelemetryMessage chan \<times> pg \<times> metrics \<Rightarrow>
   TelemetryMessage list \<times> TelemetryMessage list list \<times> TelemetryMessage list list \<Rightarrow>
   dbw_pc \<times> TelemetryMessage chan \<times> pg \<times> metrics \<Rightarrow> bool" for w ctxDone where
  db_recv: "ch_recv ch = Received m ch' \<Longrightarrow>
    db_worker w ctxDone (Collecting b, ch, p, mt) ([m], [], []) (collect w (b @ [m]), ch', p, mt)"
| db_closed: "ch_recv ch = RecvClosed \<Longrightarrow>
    db_worker w ctxDone (Collecting b, ch, p, mt) ([], [], []) (last_flush b, ch, p, mt)"
| db_tick: "b \<noteq> [] \<Longrightarrow> db_worker w ctxDone (Collecting b, ch, p, mt) ([], [], []) (Flushing b False, ch, p, mt)"
| db_done: "ctxDone \<Longrightarrow> db_worker w ctxDone (Collecting b, ch, p, mt) ([], [], []) (last_flush b, ch, p, mt)"
| db_ok: "BatchInsert ctxDone b p = (None, p') \<Longrightarrow>
    db_worker w ctxDone (Flushing b l, ch, p, mt) ([], [b], []) (resume l, ch, p', add_success (length b) mt)"
| db_err: "BatchInsert ctxDone b p = (Some e, p') \<Longrightarrow>
    db_worker w ctxDone (Flushing b l, ch, p, mt) ([], [], []) (Retrying b l, ch, p', mt)"
| db_retry_ok: "BatchInsert ctxDone b p = (None, p') \<Longrightarrow>
    db_worker w ctxDone (Retrying b l, ch, p, mt) ([], [b], []) (resume l, ch, p', add_success (length b) mt)"
| db_retry_err: "BatchInsert ctxDone b p = (Some e, p') \<Longrightarrow>
    db_worker w ctxDone (Retrying b l, ch, p, mt) ([], [], [b]) (resume l, ch, p', add_failures (length b) mt)"

datatype stw_pc =
    SCollecting "TelemetryMessage list"
  | SFlushing "TelemetryMessage list" bool
  | SStopped

text \<open>The label: the message taken, the batch handed to Redis.\<close>

inductive state_worker ::
  "'r redis_client \<Rightarrow> bool \<Rightarrow> stw_pc \<times> TelemetryMessage chan \<times> 'r \<Rightarrow>
   TelemetryMessage list \<times> TelemetryMessage list list \<Rightarrow> stw_pc \<times> TelemetryMessage chan \<times> 'r \<Rightarrow> bool" for rc ctxDone where
  st_recv: "ch_recv ch = Received m ch' \<Longrightarrow>
    state_worker rc ctxDone (SCollecting b, ch, r) ([m], [])
      (if 100 \<le> length (b @ [m]) then SFlushing (b @ [m]) False else SCollecting (b @ [m]), ch', r)"
| st_closed: "ch_recv ch = RecvClosed \<Longrightarrow>
    state_worker rc ctxDone (SCollecting b, ch, r) ([], []) (SFlushing b True, ch, r)"
| st_tick: "b \<noteq> [] \<Longrightarrow> state_worker rc ctxDone (SCollecting b, ch, r) ([], []) (SFlushing b False, ch, r)"
| st_done: "ctxDone \<Longrightarrow> state_worker rc ctxDone (SCollecting b, ch, r) ([], []) (SFlushing b True, ch, r)"
| st_flush: "state_worker rc ctxDone (SFlushing b l, ch, r) ([], [b])
      (if l then SStopped else SCollecting [], ch, flushBatch rc ctxDone b r)"

text \<open>An evaluator takes a message when it is idle; the rest is \<open>worker_step\<close>. The label: the message taken, the message
  whose evaluation ended.\<close>

datatype alw_pc = Evaluating worker_pc | AStopped

fun finished :: "worker_pc \<Rightarrow> worker_pc \<Rightarrow> TelemetryMessage list" where
  "finished (Checking m []) Idle = [m]"
| "finished _ _ = []"

inductive alert_worker ::
  "'r redis_client \<Rightarrow> bool \<Rightarrow> alw_pc \<times> TelemetryMessage chan \<times> pg \<times> 'r \<Rightarrow>
   TelemetryMessage list \<times> TelemetryMessage list \<Rightarrow> alw_pc \<times> TelemetryMessage chan \<times> pg \<times> 'r \<Rightarrow> bool" for rc ctxDone where
  al_recv: "ch_recv ch = Received m ch' \<Longrightarrow>
    alert_worker rc ctxDone (Evaluating Idle, ch, p, r) ([m], []) (Evaluating (Checking m DefaultAlertRules), ch', p, r)"
| al_closed: "ch_recv ch = RecvClosed \<Longrightarrow> alert_worker rc ctxDone (Evaluating Idle, ch, p, r) ([], []) (AStopped, ch, p, r)"
| al_done: "ctxDone \<Longrightarrow> alert_worker rc ctxDone (Evaluating Idle, ch, p, r) ([], []) (AStopped, ch, p, r)"
| al_step: "pc \<noteq> Idle \<Longrightarrow> worker_step rc now DefaultAlertRules (pc, p, r) (pc', p', r') \<Longrightarrow>
    alert_worker rc ctxDone (Evaluating pc, ch, p, r) ([], finished pc pc') (Evaluating pc', ch, p', r')"

section \<open>The process\<close>

text \<open>\<open>ListenAndServe\<close> fails when the address cannot be bound; \<open>main\<close> logs that and goes on. \<open>Shutdown\<close> closes the
  listener at once and returns when no request is in flight or its context has expired.\<close>

record http_server =
  hs_listening :: bool
  hs_inflight :: "ingest_request list"

definition Server_Start :: "(string \<Rightarrow> string option) \<Rightarrow> string \<Rightarrow> http_server" where
  "Server_Start bind addr = \<lparr>hs_listening = (bind addr = None), hs_inflight = []\<rparr>"

definition Server_Shutdown :: "http_server \<Rightarrow> http_server" where
  "Server_Shutdown hs = hs\<lparr>hs_listening := False\<rparr>"

datatype main_pc = MainWaiting | MainShutdown | MainSleeping | MainExited

record 'r ingest_sys =
  sy_pipe :: pipeline
  sy_dbw :: "dbw_pc list"
  sy_stw :: "stw_pc list"
  sy_alw :: "alw_pc list"
  sy_pg :: pg
  sy_redis :: 'r
  sy_auth :: Authenticator
  sy_http :: http_server
  sy_main :: main_pc
  sy_ok :: "TelemetryMessage list list"
  sy_failed :: "TelemetryMessage list list"
  sy_written :: "TelemetryMessage list list"
  sy_evaluated :: "TelemetryMessage list"

definition sys_init :: "(string \<Rightarrow> string option) \<Rightarrow> ingest_process \<Rightarrow> pg \<times> 'r \<Rightarrow> 'r ingest_sys" where
  "sys_init bind pr w =
     \<lparr>sy_pipe = pipeline_init (pr_disp pr),
      sy_dbw = map (\<lambda>_. Collecting []) (pr_dbWriters pr),
      sy_stw = replicate (pr_stateWriters pr) (SCollecting []),
      sy_alw = replicate (pr_alertEvaluators pr) (Evaluating Idle),
      sy_pg = fst w, sy_redis = snd w, sy_auth = pr_auth pr, sy_http = Server_Start bind (pr_addr pr),
      sy_main = MainWaiting, sy_ok = [], sy_failed = [], sy_written = [], sy_evaluated = []\<rparr>"

text \<open>\<open>main\<close> up to \<open>Service ready\<close>. \<open>Inl\<close>: the message of \<open>log.Fatalf\<close>, or the panic of \<open>make\<close> on a negative size or of
  \<open>time.NewTicker\<close> in a started writer.\<close>

definition ingest_start ::
  "environment \<Rightarrow> (string \<Rightarrow> string option) \<Rightarrow> (pg \<Rightarrow> string option \<times> pg) \<Rightarrow> (string \<Rightarrow> string option) \<Rightarrow>
   'r redis_client \<Rightarrow> pg \<times> 'r \<Rightarrow> string + 'r ingest_sys" where
  "ingest_start env newPool ping bind rc w =
     (let cfg = ingest_Load env in
      case NewTimescaleStore newPool ping cfg (fst w) of
        (Inl err, p1) \<Rightarrow> Inl (''TimescaleDB: '' @ err)
      | (Inr u, p1) \<Rightarrow>
          (case NewRedisStore rc (snd w) of
             (Inl err, r1) \<Rightarrow> Inl (''Redis: '' @ err)
           | (Inr u', r1) \<Rightarrow>
               (case ingest_main cfg of
                  None \<Rightarrow> Inl ''panic: makechan: size out of range''
                | Some pr \<Rightarrow>
                    if list_ex (\<lambda>dw. flush_ticker dw = None) (pr_dbWriters pr)
                    then Inl ''panic: non-positive interval for NewTicker''
                    else Inr (sys_init bind pr (p1, r1)))))"

text \<open>The steps of the dispatcher and of the workers. All writers have the configuration of the process.\<close>

inductive sys_internal :: "'r redis_client \<Rightarrow> DBWriter \<Rightarrow> 'r ingest_sys \<Rightarrow> 'r ingest_sys \<Rightarrow> bool" for rc w where
  dispatcher: "sy_main s \<noteq> MainExited \<Longrightarrow>
    run_step (pl_done (sy_pipe s)) (pl_pc (sy_pipe s), pl_disp (sy_pipe s)) (pc, d) \<Longrightarrow>
    sys_internal rc w s (s\<lparr>sy_pipe := (sy_pipe s)\<lparr>pl_pc := pc, pl_disp := d\<rparr>\<rparr>)"
| db_writer: "sy_main s \<noteq> MainExited \<Longrightarrow> i < length (sy_dbw s) \<Longrightarrow>
    db_worker w (pl_done (sy_pipe s))
      (sy_dbw s ! i, d_DBChan (pl_disp (sy_pipe s)), sy_pg s, pl_metrics (sy_pipe s)) (ms, ok, failed) (pc, ch, p, mt) \<Longrightarrow>
    sys_internal rc w s (s\<lparr>sy_dbw := (sy_dbw s)[i := pc], sy_pg := p,
      sy_pipe := (sy_pipe s)\<lparr>pl_disp := (pl_disp (sy_pipe s))\<lparr>d_DBChan := ch\<rparr>, pl_metrics := mt, pl_db := pl_db (sy_pipe s) @ ms\<rparr>,
      sy_ok := sy_ok s @ ok, sy_failed := sy_failed s @ failed\<rparr>)"
| state_writer: "sy_main s \<noteq> MainExited \<Longrightarrow> i < length (sy_stw s) \<Longrightarrow>
    state_worker rc (pl_done (sy_pipe s))
      (sy_stw s ! i, d_StateChan (pl_disp (sy_pipe s)), sy_redis s) (ms, written) (pc', ch, r) \<Longrightarrow>
    sys_internal rc w s (s\<lparr>sy_stw := (sy_stw s)[i := pc'], sy_redis := r,
      sy_pipe := (sy_pipe s)\<lparr>pl_disp := (pl_disp (sy_pipe s))\<lparr>d_StateChan := ch\<rparr>, pl_state := pl_state (sy_pipe s) @ ms\<rparr>,
      sy_written := sy_written s @ written\<rparr>)"
| evaluator: "sy_main s \<noteq> MainExited \<Longrightarrow> i < length (sy_alw s) \<Longrightarrow>
    alert_worker rc (pl_done (sy_pipe s))
      (sy_alw s ! i, d_AlertChan (pl_disp (sy_pipe s)), sy_pg s, sy_redis s) (ms, ended) (pc'', ch, p, r) \<Longrightarrow>
    sys_internal rc w s (s\<lparr>sy_alw := (sy_alw s)[i := pc''], sy_pg := p, sy_redis := r,
      sy_pipe := (sy_pipe s)\<lparr>pl_disp := (pl_disp (sy_pipe s))\<lparr>d_AlertChan := ch\<rparr>, pl_alert := pl_alert (sy_pipe s) @ ms\<rparr>,
      sy_evaluated := sy_evaluated s @ ended\<rparr>)"

text \<open>The message a request carries.\<close>

definition request_msg :: "codec \<Rightarrow> ingest_request \<Rightarrow> TelemetryMessage list" where
  "request_msg co rq =
     (case decode_payload (co_parseTime co) (rq_body rq) of
        None \<Rightarrow> []
      | Some p \<Rightarrow> [telemetry_msg (rq_recv rq) (co_marshal co p) p])"

definition sys_ingest :: "'r ingest_sys \<Rightarrow> 'r ingest_state" where
  "sys_ingest s = \<lparr>is_auth = sy_auth s, is_redis = sy_redis s, is_disp = pl_disp (sy_pipe s), is_metrics = pl_metrics (sy_pipe s)\<rparr>"

text \<open>The steps of the process itself: requests that arrive and are answered, the signal, and \<open>main\<close> after it.\<close>

inductive process_step :: "'r redis_client \<Rightarrow> codec \<Rightarrow> DBWriter \<Rightarrow> 'r ingest_sys \<Rightarrow> 'r ingest_sys \<Rightarrow> bool" for rc co w where
  internal: "sys_internal rc w s t \<Longrightarrow> process_step rc co w s t"
| arrive: "sy_main s \<noteq> MainExited \<Longrightarrow> hs_listening (sy_http s) \<Longrightarrow>
    process_step rc co w s (s\<lparr>sy_http := (sy_http s)\<lparr>hs_inflight := hs_inflight (sy_http s) @ [rq]\<rparr>\<rparr>)"
| answer: "sy_main s \<noteq> MainExited \<Longrightarrow> rq \<in> set (hs_inflight (sy_http s)) \<Longrightarrow>
    telemetry_endpoint rc co rq (sys_ingest s) = (resp, st) \<Longrightarrow>
    process_step rc co w s (s\<lparr>sy_http := (sy_http s)\<lparr>hs_inflight := remove1 rq (hs_inflight (sy_http s))\<rparr>,
      sy_auth := is_auth st, sy_redis := is_redis st,
      sy_pipe := (sy_pipe s)\<lparr>pl_disp := is_disp st, pl_metrics := is_metrics st,
        pl_accepted := pl_accepted (sy_pipe s) @ (if resp_status resp = StatusAccepted then request_msg co rq else [])\<rparr>\<rparr>)"
| signal: "process_step rc co w s (s\<lparr>sy_pipe := (sy_pipe s)\<lparr>pl_done := True\<rparr>\<rparr>)"
| shutdown: "sy_main s = MainWaiting \<Longrightarrow> pl_done (sy_pipe s) \<Longrightarrow>
    process_step rc co w s (s\<lparr>sy_main := MainShutdown, sy_http := Server_Shutdown (sy_http s)\<rparr>)"
| shutdown_returns: "sy_main s = MainShutdown \<Longrightarrow> process_step rc co w s (s\<lparr>sy_main := MainSleeping\<rparr>)"
| exit: "sy_main s = MainSleeping \<Longrightarrow> process_step rc co w s (s\<lparr>sy_main := MainExited\<rparr>)"

text \<open>The process among the other clients of its stores.\<close>

inductive sys_step :: "'r redis_client \<Rightarrow> codec \<Rightarrow> DBWriter \<Rightarrow> 'r ingest_sys \<Rightarrow> 'r ingest_sys \<Rightarrow> bool" for rc co w where
  own: "process_step rc co w s t \<Longrightarrow> sys_step rc co w s t"
| others: "vehicle_telemetry (pg_db p) = vehicle_telemetry (pg_db (sy_pg s)) \<Longrightarrow>
    set (pg_plan p) \<subseteq> set (pg_plan (sy_pg s)) \<Longrightarrow>
    sys_step rc co w s (s\<lparr>sy_pg := p, sy_redis := r\<rparr>)"

definition process_writer :: "environment \<Rightarrow> DBWriter" where
  "process_writer env = NewDBWriter (ic_DBBatchSize (ingest_Load env)) (ic_DBFlushIntervalMS (ingest_Load env))"

text \<open>The channel sizes are positive, as for the dispatcher.\<close>

definition sizes_positive :: "environment \<Rightarrow> bool" where
  "sizes_positive env \<longleftrightarrow> 0 < ic_DBChannelSize (ingest_Load env) \<and> 0 < ic_StateChannelSize (ingest_Load env) \<and>
     0 < ic_AlertChannelSize (ingest_Load env)"

section \<open>Where a message can be\<close>

fun db_held :: "dbw_pc \<Rightarrow> TelemetryMessage list" where
  "db_held (Collecting b) = b"
| "db_held (Flushing b l) = b"
| "db_held (Retrying b l) = b"
| "db_held DBStopped = []"

fun retry_held :: "dbw_pc \<Rightarrow> TelemetryMessage list" where
  "retry_held (Retrying b l) = b"
| "retry_held _ = []"

fun st_held :: "stw_pc \<Rightarrow> TelemetryMessage list" where
  "st_held (SCollecting b) = b"
| "st_held (SFlushing b l) = b"
| "st_held SStopped = []"

fun eval_held :: "worker_pc \<Rightarrow> TelemetryMessage list" where
  "eval_held Idle = []"
| "eval_held (Checking m rest) = [m]"
| "eval_held (Inserting m rule rest) = [m]"
| "eval_held (Releasing m rule rest) = [m]"
| "eval_held (Publishing m rule rest) = [m]"

fun al_held :: "alw_pc \<Rightarrow> TelemetryMessage list" where
  "al_held (Evaluating pc) = eval_held pc"
| "al_held AStopped = []"

text \<open>A worker returns only after the cancellation, and flushes no empty batch before.\<close>

fun db_ok_pc :: "bool \<Rightarrow> dbw_pc \<Rightarrow> bool" where
  "db_ok_pc c (Collecting b) = True"
| "db_ok_pc c (Flushing b l) = (b \<noteq> [] \<and> (l \<longrightarrow> c))"
| "db_ok_pc c (Retrying b l) = (b \<noteq> [] \<and> (l \<longrightarrow> c))"
| "db_ok_pc c DBStopped = c"

fun st_ok_pc :: "bool \<Rightarrow> stw_pc \<Rightarrow> bool" where
  "st_ok_pc c (SCollecting b) = True"
| "st_ok_pc c (SFlushing b l) = (l \<longrightarrow> c)"
| "st_ok_pc c SStopped = c"

fun al_ok_pc :: "bool \<Rightarrow> alw_pc \<Rightarrow> bool" where
  "al_ok_pc c (Evaluating pc) = True"
| "al_ok_pc c AStopped = c"

text \<open>The messages a list of workers holds.\<close>

definition held :: "('a \<Rightarrow> TelemetryMessage list) \<Rightarrow> 'a list \<Rightarrow> TelemetryMessage multiset" where
  "held f ws = mset (concat (map f ws))"

definition sys_inv :: "'r ingest_sys \<Rightarrow> bool" where
  "sys_inv s \<longleftrightarrow> pipeline_inv (sy_pipe s) \<and>
     mset (pl_db (sy_pipe s)) = mset (concat (sy_ok s)) + mset (concat (sy_failed s)) + held db_held (sy_dbw s) \<and>
     mset (pl_state (sy_pipe s)) = mset (concat (sy_written s)) + held st_held (sy_stw s) \<and>
     mset (pl_alert (sy_pipe s)) = mset (sy_evaluated s) + held al_held (sy_alw s) \<and>
     list_all (db_ok_pc (pl_done (sy_pipe s))) (sy_dbw s) \<and>
     list_all (st_ok_pc (pl_done (sy_pipe s))) (sy_stw s) \<and>
     list_all (al_ok_pc (pl_done (sy_pipe s))) (sy_alw s) \<and>
     (sy_main s \<noteq> MainWaiting \<longrightarrow> pl_done (sy_pipe s))"

text \<open>What the table holds beyond its first contents \<open>c0\<close>: every batch reported stored, none more than twice; without lost
  replies exactly those; and without failures nothing is given up before the cancellation.\<close>

definition contents :: "TelemetryMessage multiset \<Rightarrow> telemetry_row multiset" where
  "contents M = image_mset msg_content M"

definition store_inv :: "telemetry_row multiset \<Rightarrow> outcome set \<Rightarrow> 'r ingest_sys \<Rightarrow> bool" where
  "store_inv c0 plan s \<longleftrightarrow>
     (let stored = mset (stored_content (sy_pg s)); ok = contents (mset (concat (sy_ok s)));
          given_up = contents (mset (concat (sy_failed s))) in
      set (pg_plan (sy_pg s)) \<subseteq> plan \<and>
      c0 + ok \<subseteq># stored \<and> stored \<subseteq># c0 + (ok + ok) + (given_up + given_up) + contents (held retry_held (sy_dbw s)) \<and>
      (FailAfter \<notin> plan \<longrightarrow> stored = c0 + ok) \<and>
      (plan = {} \<and> \<not> pl_done (sy_pipe s) \<longrightarrow> sy_failed s = [] \<and> held retry_held (sy_dbw s) = {#}))"

section \<open>One worker\<close>

lemma held_update:
  assumes "i < length ws"
  obtains M where "held f ws = mset (f (ws ! i)) + M" "\<And>y. held f (ws[i := y]) = mset (f y) + M"
proof
  let ?M = "held f (take i ws) + held f (drop (Suc i) ws)"
  show "held f ws = mset (f (ws ! i)) + ?M"
    by (subst id_take_nth_drop [OF assms]) (simp add: held_def ac_simps)
  show "held f (ws[i := y]) = mset (f y) + ?M" for y
    using assms by (simp add: upd_conv_take_nth_drop held_def ac_simps)
qed

lemma held_retry: "held retry_held ws \<subseteq># held db_held ws"
proof (induction ws)
  case (Cons pc ws)
  have "mset (retry_held pc) \<subseteq># mset (db_held pc)" by (cases pc) simp_all
  then show ?case using Cons by (simp add: held_def subset_mset.add_mono)
qed (simp add: held_def)

lemma twice_bound:
  assumes "r \<subseteq># h"
  shows "a + a + (f + f) + r \<subseteq># (a + f + h + x) + (a + f + h + x)"
proof (unfold subseteq_mset_def, rule allI)
  fix z
  have "count r z \<le> count h z" using assms by (simp add: subseteq_mset_def)
  then show "count (a + a + (f + f) + r) z \<le> count ((a + f + h + x) + (a + f + h + x)) z" by simp
qed

lemma list_all_update: "list_all P ws \<Longrightarrow> P y \<Longrightarrow> list_all P (ws[i := y])"
  by (auto simp: list_all_iff dest!: subsetD [OF set_update_subset_insert])

lemma list_all_at: "list_all P ws \<Longrightarrow> i < length ws \<Longrightarrow> P (ws ! i)"
  by (simp add: list_all_length)

lemmas resume_defs = collect_def last_flush_def resume_def

lemma db_worker_takes:
  assumes "db_worker w c (pc, ch, p, mt) (ms, ok, failed) (pc', ch', p', mt')" "\<not> cclosed ch" "db_ok_pc c pc"
  shows "(\<exists>xs. cbuf ch = ms @ xs \<and> ch' = ch\<lparr>cbuf := xs\<rparr>) \<and> db_ok_pc c pc' \<and>
     mset (db_held pc) + mset ms = mset (db_held pc') + mset (concat ok) + mset (concat failed)"
  using assms by (cases rule: db_worker.cases) (auto simp: resume_defs ch_recv_def split: list.splits if_splits)

lemma state_worker_takes:
  assumes "state_worker rc c (pc, ch, r) (ms, written) (pc', ch', r')" "\<not> cclosed ch" "st_ok_pc c pc"
  shows "(\<exists>xs. cbuf ch = ms @ xs \<and> ch' = ch\<lparr>cbuf := xs\<rparr>) \<and> st_ok_pc c pc' \<and>
     mset (st_held pc) + mset ms = mset (st_held pc') + mset (concat written)"
  using assms by (cases rule: state_worker.cases) (auto simp: ch_recv_def split: list.splits if_splits)

lemma worker_step_held:
  "worker_step rc now rules (pc, p, r) (pc', p', r') \<Longrightarrow> pc \<noteq> Idle \<Longrightarrow> eval_held pc = eval_held pc' @ finished pc pc'"
  by (cases rule: worker_step.cases) auto

lemma alert_worker_takes:
  assumes "alert_worker rc c (pc, ch, p, r) (ms, ended) (pc', ch', p', r')" "\<not> cclosed ch" "al_ok_pc c pc"
  shows "(\<exists>xs. cbuf ch = ms @ xs \<and> ch' = ch\<lparr>cbuf := xs\<rparr>) \<and> al_ok_pc c pc' \<and>
     mset (al_held pc) + mset ms = mset (al_held pc') + mset ended"
  using assms by (cases rule: alert_worker.cases)
    (auto simp: ch_recv_def worker_step_held split: list.splits if_splits)

lemma in_tl: "x \<in> set (tl xs) \<Longrightarrow> x \<in> set xs"
  by (cases xs) auto

lemma BatchInsert_stored:
  assumes "BatchInsert c b p = (e, p')" "b \<noteq> []"
  shows "set (pg_plan p') \<subseteq> set (pg_plan p) \<and>
     (stored_content p' = stored_content p \<and> e \<noteq> None \<or>
      stored_content p' = stored_content p @ map msg_content b \<and> (e = None \<or> FailAfter \<in> set (pg_plan p))) \<and>
     (pg_plan p = [] \<and> \<not> c \<longrightarrow> e = None)"
proof -
  have "next_outcome p = FailAfter \<Longrightarrow> FailAfter \<in> set (pg_plan p)" "next_outcome p \<noteq> Succeed \<Longrightarrow> pg_plan p \<noteq> []"
    by (auto simp: next_outcome_def split: list.splits)
  then show ?thesis
    using assms by (auto simp: BatchInsert_outcome dest: in_tl split: if_splits outcome.splits)
qed

lemma contents_simps [simp]:
  "contents {#} = {#}" "contents (M + N) = contents M + contents N" "contents (mset ms) = mset (map msg_content ms)"
  by (simp_all add: contents_def)

lemma db_worker_store:
  assumes "db_worker w c (pc, ch, p, mt) (ms, ok, failed) (pc', ch', p', mt')" "db_ok_pc c pc"
  shows "set (pg_plan p') \<subseteq> set (pg_plan p) \<and>
    (\<exists>X. mset (stored_content p') = mset (stored_content p) + X \<and> contents (mset (concat ok)) \<subseteq># X \<and>
       X + contents (mset (retry_held pc)) \<subseteq># contents (mset (concat ok)) + contents (mset (concat ok)) +
          (contents (mset (concat failed)) + contents (mset (concat failed))) + contents (mset (retry_held pc')) \<and>
       (FailAfter \<notin> set (pg_plan p) \<longrightarrow> X = contents (mset (concat ok))) \<and>
       (pg_plan p = [] \<and> \<not> c \<and> retry_held pc = [] \<longrightarrow> failed = [] \<and> retry_held pc' = []))"
  using assms by (cases rule: db_worker.cases) (auto simp: resume_defs dest!: BatchInsert_stored)

text \<open>The other calls of the process leave the telemetry table alone and invent no failures.\<close>

definition telemetry_kept :: "pg \<Rightarrow> pg \<Rightarrow> bool" where
  "telemetry_kept p p' \<longleftrightarrow> vehicle_telemetry (pg_db p') = vehicle_telemetry (pg_db p) \<and> set (pg_plan p') \<subseteq> set (pg_plan p)"

lemma InsertAlert_kept: "InsertAlert vid fid ty sev v p = (e, p') \<Longrightarrow> telemetry_kept p p'"
  by (auto simp: InsertAlert_def pg_run_def telemetry_kept_def insert_alert_row_def Let_def
      dest: in_tl split: prod.splits sum.splits list.splits outcome.splits if_splits)

lemma alert_worker_kept:
  assumes "alert_worker rc c (pc, ch, p, r) l (pc', ch', p', r')"
  shows "telemetry_kept p p'"
  using assms by (cases rule: alert_worker.cases)
    (auto simp: telemetry_kept_def elim!: worker_step.cases dest!: InsertAlert_kept)

section \<open>The invariant\<close>

lemma lane_takes: "lane acc out ch h pc ing \<Longrightarrow> cbuf ch = ms @ xs \<Longrightarrow> lane acc (out @ ms) (ch\<lparr>cbuf := xs\<rparr>) h pc ing"
  by (auto simp: lane_def)

lemma chan_ok_takes: "chan_ok ch \<Longrightarrow> cbuf ch = ms @ xs \<Longrightarrow> chan_ok (ch\<lparr>cbuf := xs\<rparr>)"
  by (auto simp: chan_ok_def)

lemma pipeline_inv_takes:
  assumes "pipeline_inv s"
  shows "cbuf (d_DBChan (pl_disp s)) = ms @ xs \<Longrightarrow> pipeline_inv
      (s\<lparr>pl_disp := (pl_disp s)\<lparr>d_DBChan := (d_DBChan (pl_disp s))\<lparr>cbuf := xs\<rparr>\<rparr>, pl_metrics := mt, pl_db := pl_db s @ ms\<rparr>)"
    and "cbuf (d_StateChan (pl_disp s)) = ms @ xs \<Longrightarrow> pipeline_inv
      (s\<lparr>pl_disp := (pl_disp s)\<lparr>d_StateChan := (d_StateChan (pl_disp s))\<lparr>cbuf := xs\<rparr>\<rparr>, pl_state := pl_state s @ ms\<rparr>)"
    and "cbuf (d_AlertChan (pl_disp s)) = ms @ xs \<Longrightarrow> pipeline_inv
      (s\<lparr>pl_disp := (pl_disp s)\<lparr>d_AlertChan := (d_AlertChan (pl_disp s))\<lparr>cbuf := xs\<rparr>\<rparr>, pl_alert := pl_alert s @ ms\<rparr>)"
  using assms by (auto simp: pipeline_inv_def chans_open_def intro: lane_takes chan_ok_takes)

lemma pipeline_inv_open:
  "pipeline_inv s \<Longrightarrow> \<not> cclosed (d_ingress (pl_disp s)) \<and> \<not> cclosed (d_DBChan (pl_disp s)) \<and>
     \<not> cclosed (d_StateChan (pl_disp s)) \<and> \<not> cclosed (d_AlertChan (pl_disp s))"
  by (simp add: pipeline_inv_def chans_open_def)

lemma pipeline_inv_answer:
  assumes "telemetry_endpoint rc co rq (sys_ingest s) = (resp, st)" "pipeline_inv (sy_pipe s)"
  shows "pipeline_inv ((sy_pipe s)\<lparr>pl_disp := is_disp st, pl_metrics := is_metrics st,
     pl_accepted := pl_accepted (sy_pipe s) @ (if resp_status resp = StatusAccepted then request_msg co rq else [])\<rparr>)"
proof (cases "resp_status resp = StatusAccepted")
  case True
  from endpoint_accepted [OF assms(1) True] obtain p where
    "decode_payload (co_parseTime co) (rq_body rq) = Some p"
    "Dispatch (telemetry_msg (rq_recv rq) (co_marshal co p) p) (pl_disp (sy_pipe s)) (pl_metrics (sy_pipe s)) =
      (True, is_disp st, pl_metrics (sy_pipe s))" by (auto simp: sys_ingest_def)
  then show ?thesis
    using assms(2) True
    by (auto simp: request_msg_def Dispatch_True pipeline_inv_def chans_open_def intro: lane_admit chan_ok_upd)
next
  case False
  then show ?thesis
    using endpoint_refused [OF assms(1) False] assms(2) by (simp add: sys_ingest_def pipeline_inv_def)
qed

lemma sys_internal_inv: "sys_internal rc w s t \<Longrightarrow> sys_inv s \<Longrightarrow> sys_inv t"
proof (induction rule: sys_internal.induct)
  case (dispatcher s pc d)
  then show ?case using run_step_inv [of "sy_pipe s" pc d] by (simp add: sys_inv_def)
next
  case (db_writer s i ms ok failed pc ch p mt)
  have "\<not> cclosed (d_DBChan (pl_disp (sy_pipe s)))" "db_ok_pc (pl_done (sy_pipe s)) (sy_dbw s ! i)"
    using db_writer(2,4) pipeline_inv_open [of "sy_pipe s"] by (simp_all add: sys_inv_def list_all_at)
  note eff = db_worker_takes [OF db_writer(3) this]
  obtain M where "held db_held (sy_dbw s) = mset (db_held (sy_dbw s ! i)) + M"
    "\<And>y. held db_held ((sy_dbw s)[i := y]) = mset (db_held y) + M" using held_update [OF db_writer(2)] by blast
  then show ?case
    using eff db_writer(4)
    by (auto simp: sys_inv_def intro: pipeline_inv_takes list_all_update)
next
  case (state_writer s i ms written pc ch r)
  have "\<not> cclosed (d_StateChan (pl_disp (sy_pipe s)))" "st_ok_pc (pl_done (sy_pipe s)) (sy_stw s ! i)"
    using state_writer(2,4) pipeline_inv_open [of "sy_pipe s"] by (simp_all add: sys_inv_def list_all_at)
  note eff = state_worker_takes [OF state_writer(3) this]
  obtain M where "held st_held (sy_stw s) = mset (st_held (sy_stw s ! i)) + M"
    "\<And>y. held st_held ((sy_stw s)[i := y]) = mset (st_held y) + M" using held_update [OF state_writer(2)] by blast
  then show ?case
    using eff state_writer(4)
    by (auto simp: sys_inv_def intro: pipeline_inv_takes list_all_update)
next
  case (evaluator s i ms ended pc ch p r)
  have "\<not> cclosed (d_AlertChan (pl_disp (sy_pipe s)))" "al_ok_pc (pl_done (sy_pipe s)) (sy_alw s ! i)"
    using evaluator(2,4) pipeline_inv_open [of "sy_pipe s"] by (simp_all add: sys_inv_def list_all_at)
  note eff = alert_worker_takes [OF evaluator(3) this]
  obtain M where "held al_held (sy_alw s) = mset (al_held (sy_alw s ! i)) + M"
    "\<And>y. held al_held ((sy_alw s)[i := y]) = mset (al_held y) + M" using held_update [OF evaluator(2)] by blast
  then show ?case
    using eff evaluator(4)
    by (auto simp: sys_inv_def intro: pipeline_inv_takes list_all_update)
qed

lemma ok_pc_mono:
  "db_ok_pc c pc \<Longrightarrow> db_ok_pc True pc" "st_ok_pc c pc' \<Longrightarrow> st_ok_pc True pc'" "al_ok_pc c pc'' \<Longrightarrow> al_ok_pc True pc''"
  by (auto elim: db_ok_pc.elims st_ok_pc.elims al_ok_pc.elims)

lemma process_step_inv: "process_step rc co w s t \<Longrightarrow> sys_inv s \<Longrightarrow> sys_inv t"
proof (induction rule: process_step.induct)
  case (internal s t)
  then show ?case by (blast intro: sys_internal_inv)
next
  case (answer s rq resp st)
  then show ?case using pipeline_inv_answer [OF answer(3)] by (simp add: sys_inv_def)
next
  case (signal s)
  then show ?case by (auto simp: sys_inv_def pipeline_inv_def list_all_iff intro: ok_pc_mono)
qed (auto simp: sys_inv_def)

lemma sys_step_inv: "sys_step rc co w s t \<Longrightarrow> sys_inv s \<Longrightarrow> sys_inv t"
  by (induction rule: sys_step.induct) (simp add: process_step_inv, simp add: sys_inv_def)

lemma store_inv_kept:
  assumes "store_inv c0 plan s" "telemetry_kept (sy_pg s) (sy_pg t)"
    and "sy_ok t = sy_ok s" "sy_failed t = sy_failed s" "sy_dbw t = sy_dbw s" "pl_done (sy_pipe s) \<longrightarrow> pl_done (sy_pipe t)"
  shows "store_inv c0 plan t"
proof -
  have "stored_content (sy_pg t) = stored_content (sy_pg s)"
    using assms(2) by (simp add: telemetry_kept_def stored_content_def)
  then show ?thesis using assms by (auto simp: store_inv_def telemetry_kept_def Let_def)
qed

lemma telemetry_kept_refl [simp]: "telemetry_kept p p"
  by (simp add: telemetry_kept_def)

lemma sys_internal_store:
  "sys_internal rc w s t \<Longrightarrow> sys_inv s \<Longrightarrow> store_inv c0 plan s \<Longrightarrow> store_inv c0 plan t"
proof (induction rule: sys_internal.induct)
  case (db_writer s i ms ok failed pc ch p mt)
  have "db_ok_pc (pl_done (sy_pipe s)) (sy_dbw s ! i)"
    using db_writer(2,4) by (simp add: sys_inv_def list_all_at)
  from db_worker_store [OF db_writer(3) this] obtain X where X:
    "mset (stored_content p) = mset (stored_content (sy_pg s)) + X" "contents (mset (concat ok)) \<subseteq># X"
    "X + contents (mset (retry_held (sy_dbw s ! i))) \<subseteq># contents (mset (concat ok)) + contents (mset (concat ok)) +
      (contents (mset (concat failed)) + contents (mset (concat failed))) + contents (mset (retry_held pc))"
    "FailAfter \<notin> set (pg_plan (sy_pg s)) \<longrightarrow> X = contents (mset (concat ok))"
    "pg_plan (sy_pg s) = [] \<and> \<not> pl_done (sy_pipe s) \<and> retry_held (sy_dbw s ! i) = [] \<longrightarrow> failed = [] \<and> retry_held pc = []"
    and plan: "set (pg_plan p) \<subseteq> set (pg_plan (sy_pg s))"
    by blast
  obtain M where M: "held retry_held (sy_dbw s) = mset (retry_held (sy_dbw s ! i)) + M"
    "\<And>y. held retry_held ((sy_dbw s)[i := y]) = mset (retry_held y) + M" using held_update [OF db_writer(2)] by blast
  note old = db_writer(5) [unfolded store_inv_def Let_def]
  have lower: "c0 + contents (mset (concat (sy_ok s @ ok))) \<subseteq># mset (stored_content p)"
    using subset_mset.add_mono [of "c0 + contents (mset (concat (sy_ok s)))" _ "contents (mset (concat ok))" X] old X(1,2)
    by (simp add: add.assoc)
  moreover have "mset (stored_content p) + contents (mset (retry_held (sy_dbw s ! i))) \<subseteq>#
      c0 + (contents (mset (concat (sy_ok s))) + contents (mset (concat (sy_ok s)))) +
      (contents (mset (concat (sy_failed s))) + contents (mset (concat (sy_failed s)))) +
      contents (held retry_held (sy_dbw s)) + (contents (mset (concat ok)) + contents (mset (concat ok)) +
      (contents (mset (concat failed)) + contents (mset (concat failed))) + contents (mset (retry_held pc)))"
    using subset_mset.add_mono [OF _ X(3)] old X(1) by (metis (no_types, lifting) add.assoc)
  ultimately show ?case
    using old X(4,5) X(1) plan M by (auto simp: store_inv_def Let_def ac_simps)
next
  case (evaluator s i ms ended pc ch p r)
  show ?case
    by (rule store_inv_kept [OF evaluator(5)]) (use alert_worker_kept [OF evaluator(3)] in simp_all)
qed (auto elim: store_inv_kept)

lemma process_step_store:
  "process_step rc co w s t \<Longrightarrow> sys_inv s \<Longrightarrow> store_inv c0 plan s \<Longrightarrow> store_inv c0 plan t"
proof (induction rule: process_step.induct)
  case (internal s t)
  then show ?case by (blast intro: sys_internal_store)
qed (auto elim: store_inv_kept)

lemma sys_step_store:
  "sys_step rc co w s t \<Longrightarrow> sys_inv s \<Longrightarrow> store_inv c0 plan s \<Longrightarrow> store_inv c0 plan t"
proof (induction rule: sys_step.induct)
  case (own s t)
  then show ?case by (blast intro: process_step_store)
next
  case (others p s r)
  then show ?case by (elim store_inv_kept) (simp_all add: telemetry_kept_def)
qed

lemma ingest_start_Inr:
  assumes "ingest_start env newPool ping bind rc w = Inr s"
  obtains pr p r where "ingest_main (ingest_Load env) = Some pr" "s = sys_init bind pr (p, r)"
    "newPool (connStr (ic_DBUser (ingest_Load env)) (ic_DBPassword (ingest_Load env)) (ic_DBHost (ingest_Load env))
       (ic_DBPort (ingest_Load env)) (ic_DBName (ingest_Load env)) (ic_DBMaxConns (ingest_Load env))) = None"
    "ping (fst w) = (None, p)" "cmd_Ping rc (snd w) = (None, r)"
    "\<forall>dw\<in>set (pr_dbWriters pr). flush_ticker dw \<noteq> None"
proof -
  let ?cfg = "ingest_Load env"
  let ?conn = "connStr (ic_DBUser ?cfg) (ic_DBPassword ?cfg) (ic_DBHost ?cfg) (ic_DBPort ?cfg) (ic_DBName ?cfg) (ic_DBMaxConns ?cfg)"
  obtain e p where p: "ping (fst w) = (e, p)" by fastforce
  obtain e' r where r: "cmd_Ping rc (snd w) = (e', r)" by fastforce
  have ok: "newPool ?conn = None" "e = None" "e' = None"
    using assms p r by (cases "newPool ?conn"; cases e; cases e'; simp add: ingest_start_def NewTimescaleStore_def NewRedisStore_def Let_def)+
  obtain pr where pr: "ingest_main ?cfg = Some pr"
    using assms p r ok by (cases "ingest_main ?cfg") (simp_all add: ingest_start_def NewTimescaleStore_def NewRedisStore_def Let_def)
  show ?thesis
    using assms p r ok pr that [OF pr, of p r]
    by (simp add: ingest_start_def NewTimescaleStore_def NewRedisStore_def Let_def list_ex_iff split: if_splits)
qed

lemma held_idle [simp]:
  "held db_held (map (\<lambda>_. Collecting []) xs) = {#}" "held retry_held (map (\<lambda>_. Collecting []) xs) = {#}"
  "held st_held (replicate n (SCollecting [])) = {#}" "held al_held (replicate n (Evaluating Idle)) = {#}"
  by (auto simp: held_def)

lemma ingest_main_disp:
  "ingest_main cfg = Some pr \<Longrightarrow>
     NewDispatcher (ic_DBChannelSize cfg) (ic_StateChannelSize cfg) (ic_AlertChannelSize cfg) = Some (pr_disp pr)"
  unfolding ingest_main_def by (cases "NewDispatcher (ic_DBChannelSize cfg) (ic_StateChannelSize cfg) (ic_AlertChannelSize cfg)") auto

lemma start_inv:
  assumes "ingest_start env newPool ping bind rc w = Inr s" "sizes_positive env"
  shows "sys_inv s \<and> store_inv (mset (stored_content (sy_pg s))) (set (pg_plan (sy_pg s))) s"
  using assms(1)
proof (rule ingest_start_Inr)
  fix pr p r
  assume "ingest_main (ingest_Load env) = Some pr" and s: "s = sys_init bind pr (p, r)"
  then have "pipeline_inv (pipeline_init (pr_disp pr))"
    using assms(2) using pipeline_inv_init ingest_main_disp unfolding sizes_positive_def by blast
  then show ?thesis
    by (simp add: s sys_init_def sys_inv_def store_inv_def pipeline_init_def Let_def list_all_iff)
qed

lemma sys_steps_inv:
  assumes "(sys_step rc co w)\<^sup>*\<^sup>* s t" "sys_inv s \<and> store_inv c0 plan s"
  shows "sys_inv t \<and> store_inv c0 plan t"
  using assms by (induction rule: rtranclp_induct) (auto intro: sys_step_inv sys_step_store)

section \<open>After the dispatcher has returned\<close>

lemma process_step_returned:
  assumes "process_step rc co w s t" "pl_pc (sy_pipe s) = Returned"
  shows "pl_pc (sy_pipe t) = Returned \<and>
     (\<exists>ms. cbuf (d_ingress (pl_disp (sy_pipe t))) = cbuf (d_ingress (pl_disp (sy_pipe s))) @ ms \<and>
        pl_accepted (sy_pipe t) = pl_accepted (sy_pipe s) @ ms)"
  using assms(1)
proof (cases rule: process_step.cases)
  case internal
  then show ?thesis using assms(2) by (auto elim!: sys_internal.cases elim: run_step.cases)
next
  case (answer rq resp st)
  show ?thesis
  proof (cases "resp_status resp = StatusAccepted")
    case True
    from endpoint_accepted [OF answer(4) True] obtain p where
      "decode_payload (co_parseTime co) (rq_body rq) = Some p"
      "Dispatch (telemetry_msg (rq_recv rq) (co_marshal co p) p) (pl_disp (sy_pipe s)) (pl_metrics (sy_pipe s)) =
        (True, is_disp st, pl_metrics (sy_pipe s))" by (auto simp: sys_ingest_def)
    then show ?thesis using answer(1) True assms(2) by (simp add: request_msg_def Dispatch_True)
  next
    case False
    then show ?thesis using endpoint_refused [OF answer(4) False] answer(1) assms(2) by (simp add: sys_ingest_def)
  qed
qed (use assms(2) in auto)

lemma sys_step_returned:
  assumes "sys_step rc co w s t" "pl_pc (sy_pipe s) = Returned"
  shows "pl_pc (sy_pipe t) = Returned \<and>
     (\<exists>ms. cbuf (d_ingress (pl_disp (sy_pipe t))) = cbuf (d_ingress (pl_disp (sy_pipe s))) @ ms \<and>
        pl_accepted (sy_pipe t) = pl_accepted (sy_pipe s) @ ms)"
  using assms by (cases rule: sys_step.cases) (auto dest: process_step_returned)

lemma sys_steps_returned:
  assumes "(sys_step rc co w)\<^sup>*\<^sup>* s t" "pl_pc (sy_pipe s) = Returned"
  shows "pl_pc (sy_pipe t) = Returned \<and>
     (\<exists>ms. cbuf (d_ingress (pl_disp (sy_pipe t))) = cbuf (d_ingress (pl_disp (sy_pipe s))) @ ms \<and>
        pl_accepted (sy_pipe t) = pl_accepted (sy_pipe s) @ ms)"
  using assms
proof (induction rule: rtranclp_induct)
  case (step t u)
  then show ?case using sys_step_returned [OF step.hyps(2)] by auto
qed simp

section \<open>A writer on its own\<close>

text \<open>The steps of one writer, with time passing between them.\<close>

definition alone_step ::
  "DBWriter \<Rightarrow> bool \<Rightarrow> dbw_pc \<times> TelemetryMessage chan \<times> pg \<times> metrics \<Rightarrow> dbw_pc \<times> TelemetryMessage chan \<times> pg \<times> metrics \<Rightarrow> bool" where
  "alone_step w c x y \<longleftrightarrow> (\<exists>l. db_worker w c x l y) \<or>
     (case x of (pc, ch, p, mt) \<Rightarrow> \<exists>t. y = (pc, ch, p\<lparr>pg_now := t\<rparr>, mt))"

lemma alone_worker: "db_worker w c x l y \<Longrightarrow> (alone_step w c)\<^sup>*\<^sup>* x y"
  unfolding alone_step_def by blast

lemma alone_time: "(alone_step w c)\<^sup>*\<^sup>* (pc, ch, p, mt) (pc, ch, p\<lparr>pg_now := t\<rparr>, mt)"
  by (rule r_into_rtranclp) (auto simp: alone_step_def)

lemma flush_alone:
  assumes "flush c c2 b (p, mt) = (p', mt')" "c2 \<longrightarrow> c"
  shows "(alone_step w c)\<^sup>*\<^sup>* (Flushing b l, ch, p, mt) (resume l, ch, p', mt')"
proof -
  obtain e p1 where 1: "BatchInsert c b p = (e, p1)" by fastforce
  let ?p = "p1\<lparr>pg_now := pg_now p1 + 500 * Millisecond\<rparr>"
  obtain e' p2 where 2: "BatchInsert c b ?p = (e', p2)" by fastforce
  have or: "(c \<or> c2) = c" using assms(2) by blast
  show ?thesis
  proof (cases e)
    case None
    then show ?thesis using assms(1) 1 alone_worker [OF db_ok, of c b p p1] by (auto simp: flush_def)
  next
    case (Some x)
    then have "(alone_step w c)\<^sup>*\<^sup>* (Flushing b l, ch, p, mt) (Retrying b l, ch, p1, mt)"
      using 1 by (auto intro: alone_worker db_err)
    also have "(alone_step w c)\<^sup>*\<^sup>* (Retrying b l, ch, p1, mt) (Retrying b l, ch, ?p, mt)" by (rule alone_time)
    also have "(alone_step w c)\<^sup>*\<^sup>* (Retrying b l, ch, ?p, mt) (resume l, ch, p', mt')"
      using assms(1) 1 2 Some alone_worker [OF db_retry_ok, of c b ?p p2] alone_worker [OF db_retry_err, of c b ?p _ p2]
      by (cases e') (auto simp: flush_def Let_def or)
    finally show ?thesis .
  qed
qed

definition writer_pc :: "(pg \<times> metrics) writer \<Rightarrow> dbw_pc" where
  "writer_pc s = (if wr_running s then Collecting (wr_batch s) else DBStopped)"

text \<open>The case an event takes is ready; \<open>ev_rest\<close> is the channel after it.\<close>

fun ev_ready :: "select_case \<Rightarrow> bool \<Rightarrow> TelemetryMessage chan \<Rightarrow> bool" where
  "ev_ready (CaseMsg m) c ch = (\<exists>ch'. ch_recv ch = Received m ch')"
| "ev_ready CaseClosed c ch = (ch_recv ch = RecvClosed)"
| "ev_ready CaseTick c ch = True"
| "ev_ready CaseDone c ch = c"

fun ev_rest :: "select_case \<Rightarrow> TelemetryMessage chan \<Rightarrow> TelemetryMessage chan" where
  "ev_rest (CaseMsg m) ch = ch\<lparr>cbuf := tl (cbuf ch)\<rparr>"
| "ev_rest _ ch = ch"

section \<open>A process that serves one request\<close>

definition sample_sys :: "mem_redis ingest_sys" where
  "sample_sys = sys_init (\<lambda>_. None) (the (ingest_main sample_cfg)) (sample_pg [], key_redis)"

lemma sample_sizes: "sizes_positive (\<lambda>_. [])"
  by (simp add: sizes_positive_def ingest_Load_def getEnvInt_unset)

lemma sample_started:
  "ingest_start (\<lambda>_. []) (\<lambda>_. None) (\<lambda>p. (None, p)) (\<lambda>_. None) sample_client (sample_pg [], key_redis) = Inr sample_sys"
proof -
  have "\<exists>pr. ingest_main sample_cfg = Some pr \<and> \<not> list_ex (\<lambda>dw. flush_ticker dw = None) (pr_dbWriters pr)"
    by (simp add: ingest_main_def sample_cfg_def ingest_Load_def getEnvInt_unset NewDispatcher_def make_chan_def list_ex_iff
        flush_ticker_def NewDBWriter_def duration_of_exact Millisecond_def in_int64_def)
  moreover have "cmd_Ping sample_client key_redis = (None, key_redis)"
    by (simp add: mem_Ping_def mem_faulty_def key_redis_def sample_redis_def mem_empty_def)
  ultimately show ?thesis
    by (auto simp: ingest_start_def NewTimescaleStore_def NewRedisStore_def sample_sys_def sample_cfg_def Let_def)
qed

lemma sample_sys_sel:
  "sy_main sample_sys = MainWaiting" "sy_redis sample_sys = key_redis" "sy_auth sample_sys = NewAuthenticator sample_cfg"
  "hs_listening (sy_http sample_sys)" "pl_done (sy_pipe sample_sys) = False" "pl_accepted (sy_pipe sample_sys) = []"
  "pl_pc (sy_pipe sample_sys) = Selecting" "sy_pg sample_sys = sample_pg []"
  "cbuf (d_ingress (pl_disp (sy_pipe sample_sys))) = []" "ccap (d_ingress (pl_disp (sy_pipe sample_sys))) = 50000"
  "cclosed (d_ingress (pl_disp (sy_pipe sample_sys))) = False"
  by (simp_all add: sample_sys_def sys_init_def ingest_main_def sample_cfg_def ingest_Load_def getEnvInt_unset NewDispatcher_def
      make_chan_def pipeline_init_def Server_Start_def)

definition sample_payload :: incomingPayload where
  "sample_payload = zero_payload\<lparr>ip_VehicleID := ''TRUCK-1'', ip_FleetID := ''fleet-a''\<rparr>"

definition sample_telemetry :: TelemetryMessage where
  "sample_telemetry = telemetry_msg 0 ''{}'' sample_payload"

text \<open>A request with the key of its fleet is accepted whenever the server listens and the queue has room.\<close>

lemma sample_answers:
  assumes "sy_main s \<noteq> MainExited" "hs_listening (sy_http s)" "sy_redis s = key_redis" "sy_auth s = NewAuthenticator sample_cfg"
    and "\<not> cclosed (d_ingress (pl_disp (sy_pipe s)))"
    and "length (cbuf (d_ingress (pl_disp (sy_pipe s)))) < ccap (d_ingress (pl_disp (sy_pipe s)))"
  shows "\<exists>t. (process_step sample_client sample_codec w)\<^sup>*\<^sup>* s t \<and> pl_accepted (sy_pipe t) = pl_accepted (sy_pipe s) @ [sample_telemetry] \<and>
     pl_done (sy_pipe t) = pl_done (sy_pipe s) \<and> pl_pc (sy_pipe t) = pl_pc (sy_pipe s)"
proof -
  let ?rq = "sample_request ''k1'' 0"
  let ?a = "s\<lparr>sy_http := (sy_http s)\<lparr>hs_inflight := hs_inflight (sy_http s) @ [?rq]\<rparr>\<rparr>"
  obtain resp st where e: "telemetry_endpoint sample_client sample_codec ?rq (sys_ingest ?a) = (resp, st)" by fastforce
  have d: "decode_payload (co_parseTime sample_codec) (rq_body ?rq) = Some sample_payload"
    by (simp add: sample_request_def sample_decoded sample_payload_def)
  have "fst (FleetID (GetAPIKey sample_client) 0 0 ''k1'' (NewAuthenticator sample_cfg) key_redis) = (''fleet-a'', True)"
    by (simp add: FleetID_def sample_static GetAPIKey_def mem_Get_def mem_faulty_def mem_now_def mem_view_def sample_state_defs)
  then have ok: "resp_status resp = StatusAccepted"
    using assms by (intro endpoint_accepts [OF e _ _ d]) (simp_all add: sys_ingest_def sample_request_def sample_payload_def)
  have msg: "request_msg sample_codec ?rq = [sample_telemetry]"
    using d by (simp add: request_msg_def sample_telemetry_def sample_request_def sample_codec_def)
  let ?t = "?a\<lparr>sy_http := (sy_http ?a)\<lparr>hs_inflight := remove1 ?rq (hs_inflight (sy_http ?a))\<rparr>,
      sy_auth := is_auth st, sy_redis := is_redis st,
      sy_pipe := (sy_pipe ?a)\<lparr>pl_disp := is_disp st, pl_metrics := is_metrics st,
        pl_accepted := pl_accepted (sy_pipe ?a) @ (if resp_status resp = StatusAccepted then request_msg sample_codec ?rq else [])\<rparr>\<rparr>"
  have "process_step sample_client sample_codec w s ?a" using arrive assms(1,2) by blast
  moreover have "process_step sample_client sample_codec w ?a ?t" by (rule answer [OF _ _ e]) (use assms(1) in simp_all)
  ultimately have "(process_step sample_client sample_codec w)\<^sup>*\<^sup>* s ?t" by (simp only: converse_rtranclp_into_rtranclp r_into_rtranclp)
  moreover have "pl_accepted (sy_pipe ?t) = pl_accepted (sy_pipe s) @ [sample_telemetry]" using ok msg by simp
  moreover have "pl_done (sy_pipe ?t) = pl_done (sy_pipe s)" "pl_pc (sy_pipe ?t) = pl_pc (sy_pipe s)" by simp_all
  ultimately show ?thesis by blast
qed

lemma process_steps_sys: "(process_step rc co w)\<^sup>*\<^sup>* s t \<Longrightarrow> (sys_step rc co w)\<^sup>*\<^sup>* s t"
  by (rule rtranclp_mono [THEN predicate2D]) (auto intro: own)

lemma sample_serves:
  assumes "sy_main s \<noteq> MainExited" "hs_listening (sy_http s)" "sy_redis s = key_redis" "sy_auth s = NewAuthenticator sample_cfg"
    and "\<not> cclosed (d_ingress (pl_disp (sy_pipe s)))"
    and "length (cbuf (d_ingress (pl_disp (sy_pipe s)))) < ccap (d_ingress (pl_disp (sy_pipe s)))"
  shows "\<exists>t. (sys_step sample_client sample_codec w)\<^sup>*\<^sup>* s t \<and> pl_accepted (sy_pipe t) = pl_accepted (sy_pipe s) @ [sample_telemetry] \<and>
     pl_done (sy_pipe t) = pl_done (sy_pipe s) \<and> pl_pc (sy_pipe t) = pl_pc (sy_pipe s)"
  using sample_answers [OF assms, of w] process_steps_sys by blast

section \<open>Properties\<close>

text \<open>C20. Accounting for every accepted message, whatever fails: in every state the process can reach, during and after a shutdown too,
  the accepted messages are those of the batches the writers reported stored, those they gave up, those they hold, those
  queued for them, at most one in the dispatcher's hand and those in the ingress queue. Every batch
  reported stored is in the table, no message is there more often than twice for each time it was accepted, and when no reply of the
  database is lost the table holds exactly the batches reported stored.\<close>

theorem process_accounting:
  assumes "ingest_start env newPool ping bind rc st = Inr s0" "sizes_positive env"
    and "(sys_step rc co (process_writer env))\<^sup>*\<^sup>* s0 s"
  shows "(\<exists>l. length l \<le> 1 \<and> mset (pl_accepted (sy_pipe s)) =
       mset (concat (sy_ok s)) + mset (concat (sy_failed s)) + held db_held (sy_dbw s) +
       mset (cbuf (d_DBChan (pl_disp (sy_pipe s)))) + mset l + mset (cbuf (d_ingress (pl_disp (sy_pipe s))))) \<and>
    mset (stored_content (sy_pg s0)) + mset (map msg_content (concat (sy_ok s))) \<subseteq># mset (stored_content (sy_pg s)) \<and>
    mset (stored_content (sy_pg s)) \<subseteq># mset (stored_content (sy_pg s0)) +
      contents (mset (pl_accepted (sy_pipe s))) + contents (mset (pl_accepted (sy_pipe s))) \<and>
    (FailAfter \<notin> set (pg_plan (sy_pg s0)) \<longrightarrow>
       mset (stored_content (sy_pg s)) = mset (stored_content (sy_pg s0)) + mset (map msg_content (concat (sy_ok s))))"
proof -
  let ?c0 = "mset (stored_content (sy_pg s0))" and ?p = "sy_pipe s"
  have inv: "sys_inv s" "store_inv ?c0 (set (pg_plan (sy_pg s0))) s"
    using sys_steps_inv [OF assms(3) start_inv [OF assms(1,2)]] by auto
  then obtain l where l: "length l \<le> 1"
    "pl_accepted ?p = pl_db ?p @ cbuf (d_DBChan (pl_disp ?p)) @ l @ cbuf (d_ingress (pl_disp ?p))"
    by (auto simp: sys_inv_def pipeline_inv_def lane_def)
  have db: "mset (pl_db ?p) = mset (concat (sy_ok s)) + mset (concat (sy_failed s)) + held db_held (sy_dbw s)"
    using inv(1) unfolding sys_inv_def by blast
  have acc: "mset (pl_accepted ?p) = mset (concat (sy_ok s)) + mset (concat (sy_failed s)) + held db_held (sy_dbw s) +
      (mset (cbuf (d_DBChan (pl_disp ?p))) + mset l + mset (cbuf (d_ingress (pl_disp ?p))))"
    unfolding l(2) mset_append db by (simp only: add.assoc)
  have "mset (concat (sy_ok s)) + mset (concat (sy_ok s)) + (mset (concat (sy_failed s)) + mset (concat (sy_failed s))) +
      held retry_held (sy_dbw s) \<subseteq># mset (pl_accepted ?p) + mset (pl_accepted ?p)"
    unfolding acc by (rule twice_bound [OF held_retry])
  then have "contents (mset (concat (sy_ok s)) + mset (concat (sy_ok s)) + (mset (concat (sy_failed s)) + mset (concat (sy_failed s))) +
      held retry_held (sy_dbw s)) \<subseteq># contents (mset (pl_accepted ?p) + mset (pl_accepted ?p))"
    unfolding contents_def by (rule image_mset_subseteq_mono)
  then have "mset (stored_content (sy_pg s)) \<subseteq># ?c0 + contents (mset (pl_accepted ?p)) + contents (mset (pl_accepted ?p))"
    using inv(2) unfolding store_inv_def Let_def
    by (simp add: add.assoc del: contents_simps(3) mset_concat) (meson subset_mset.add_left_mono subset_mset.trans)
  moreover have "\<exists>l. length l \<le> 1 \<and> mset (pl_accepted ?p) = mset (concat (sy_ok s)) + mset (concat (sy_failed s)) +
      held db_held (sy_dbw s) + mset (cbuf (d_DBChan (pl_disp ?p))) + mset l + mset (cbuf (d_ingress (pl_disp ?p)))"
    using l(1) acc by (intro exI [of _ l]) (simp only: add.assoc)
  ultimately show ?thesis using inv(2) by (simp add: store_inv_def Let_def)
qed

theorem process_accounting_witness:
  "\<exists>s :: mem_redis ingest_sys. pl_accepted (sy_pipe s) = [sample_telemetry] \<and>
     mset (stored_content (sy_pg s)) = mset (map msg_content (concat (sy_ok s)))"
proof -
  let ?w = "process_writer (\<lambda>_. [])"
  obtain s where s: "(sys_step sample_client sample_codec ?w)\<^sup>*\<^sup>* sample_sys s" "pl_accepted (sy_pipe s) = [sample_telemetry]"
    using sample_serves [of sample_sys ?w] by (auto simp: sample_sys_sel)
  have "FailAfter \<notin> set (pg_plan (sy_pg sample_sys))" by (simp add: sample_sys_sel sample_pg_def)
  then have "mset (stored_content (sy_pg s)) = mset (map msg_content (concat (sy_ok s)))"
    using process_accounting [OF sample_started sample_sizes s(1)] by (simp add: sample_sys_sel stored_sample)
  then show ?thesis using s(2) by blast
qed

text \<open>C40. What is accepted after the signal can be lost: once the dispatcher has returned, which it does as soon as the context is
  cancelled and before the server is shut down, every message accepted from then on, and every one that was still in the
  ingress queue, stays there in all later states up to the exit, and no worker ever receives it.\<close>

theorem accepted_after_return_lost:
  assumes "ingest_start env newPool ping bind rc st = Inr s0" "sizes_positive env"
    and "(sys_step rc co (process_writer env))\<^sup>*\<^sup>* s0 s" "pl_pc (sy_pipe s) = Returned"
    and "(sys_step rc co (process_writer env))\<^sup>*\<^sup>* s t"
  shows "\<exists>ms. pl_accepted (sy_pipe t) = pl_accepted (sy_pipe s) @ ms \<and>
     cbuf (d_ingress (pl_disp (sy_pipe t))) = cbuf (d_ingress (pl_disp (sy_pipe s))) @ ms \<and>
     (\<exists>xs ys zs. pl_accepted (sy_pipe t) = pl_db (sy_pipe t) @ xs @ cbuf (d_ingress (pl_disp (sy_pipe s))) @ ms \<and>
        pl_accepted (sy_pipe t) = pl_state (sy_pipe t) @ ys @ cbuf (d_ingress (pl_disp (sy_pipe s))) @ ms \<and>
        pl_accepted (sy_pipe t) = pl_alert (sy_pipe t) @ zs @ cbuf (d_ingress (pl_disp (sy_pipe s))) @ ms)"
proof -
  let ?p = "sy_pipe t"
  obtain ms where ms: "pl_accepted ?p = pl_accepted (sy_pipe s) @ ms"
    "cbuf (d_ingress (pl_disp ?p)) = cbuf (d_ingress (pl_disp (sy_pipe s))) @ ms"
    using sys_steps_returned [OF assms(5,4)] by blast
  have "sys_inv t"
    using sys_steps_inv [OF rtranclp_trans [OF assms(3,5)] start_inv [OF assms(1,2)]] by blast
  then obtain x y z where
    "pl_accepted ?p = pl_db ?p @ cbuf (d_DBChan (pl_disp ?p)) @ x @ cbuf (d_ingress (pl_disp ?p))"
    "pl_accepted ?p = pl_state ?p @ cbuf (d_StateChan (pl_disp ?p)) @ y @ cbuf (d_ingress (pl_disp ?p))"
    "pl_accepted ?p = pl_alert ?p @ cbuf (d_AlertChan (pl_disp ?p)) @ z @ cbuf (d_ingress (pl_disp ?p))"
    unfolding sys_inv_def pipeline_inv_def lane_def by blast
  then show ?thesis using ms by (metis append.assoc)
qed

theorem accepted_after_return_lost_witness:
  "\<exists>t :: mem_redis ingest_sys. pl_accepted (sy_pipe t) = [sample_telemetry] \<and>
     cbuf (d_ingress (pl_disp (sy_pipe t))) = [sample_telemetry] \<and> pl_db (sy_pipe t) = []"
proof -
  let ?w = "process_writer (\<lambda>_. [])"
  let ?c = "sample_sys\<lparr>sy_pipe := (sy_pipe sample_sys)\<lparr>pl_done := True\<rparr>\<rparr>"
  let ?r = "?c\<lparr>sy_pipe := (sy_pipe ?c)\<lparr>pl_pc := Returned, pl_disp := pl_disp (sy_pipe ?c)\<rparr>\<rparr>"
  have "sys_step sample_client sample_codec ?w sample_sys ?c" by (rule own, rule signal)
  moreover have "sys_step sample_client sample_codec ?w ?c ?r"
    by (rule own, rule internal, rule dispatcher) (simp_all add: sample_sys_sel select_done)
  ultimately have r: "(sys_step sample_client sample_codec ?w)\<^sup>*\<^sup>* sample_sys ?r"
    by (simp only: converse_rtranclp_into_rtranclp r_into_rtranclp)
  obtain t where t: "(sys_step sample_client sample_codec ?w)\<^sup>*\<^sup>* ?r t" "pl_accepted (sy_pipe t) = [sample_telemetry]"
    using sample_serves [of ?r ?w] by (auto simp: sample_sys_sel)
  from accepted_after_return_lost [OF sample_started sample_sizes r _ t(1)] show ?thesis
    using t(2) by (auto simp: sample_sys_sel)
qed

text \<open>C22. A writer of the process refines the sequential writer: for every event whose case is ready, what one round of
  \<open>DBWriter.Run\<close> computes, with both attempts of its flush, is the end of a run of the writer's interruptible steps.\<close>

theorem db_worker_refines_writer:
  assumes "wr_running s" "ev_ready (de_case ev) (de_done ev) ch" "de_done2 ev \<longrightarrow> de_done ev"
  shows "(alone_step w (de_done ev))\<^sup>*\<^sup>* (writer_pc s, ch, wr_env s)
    (writer_pc (DBWriter_step w ev s), ev_rest (de_case ev) ch, wr_env (DBWriter_step w ev s))"
proof -
  obtain p mt where env: "wr_env s = (p, mt)" by fastforce
  let ?p = "p\<lparr>pg_now := de_now ev\<rparr>" and ?c = "de_done ev" and ?b = "wr_batch s"
  have start: "(alone_step w ?c)\<^sup>*\<^sup>* (writer_pc s, ch, wr_env s) (Collecting ?b, ch, ?p, mt)"
    using assms(1) alone_time by (simp add: writer_pc_def env)
  have fl: "(alone_step w ?c)\<^sup>*\<^sup>* (Flushing b l, ch', ?p, mt) (resume l, ch', flush ?c (de_done2 ev) b (?p, mt))" for b l ch'
    using flush_alone [of ?c "de_done2 ev" b ?p mt] assms(3) by (metis prod.collapse)
  have last: "(alone_step w ?c)\<^sup>*\<^sup>* (last_flush ?b, ch, ?p, mt)
      (DBStopped, ch, if ?b \<noteq> [] then flush ?c (de_done2 ev) ?b (?p, mt) else (?p, mt))"
    using fl [of ?b True ch] by (simp add: last_flush_def resume_def)
  note defs = writer_pc_def DBWriter_step_def at_time_def db_flush_def env assms(1) Let_def
  show ?thesis
  proof (cases "de_case ev")
    case (CaseMsg m)
    then have "(alone_step w ?c)\<^sup>*\<^sup>* (Collecting ?b, ch, ?p, mt) (collect w (?b @ [m]), ev_rest (de_case ev) ch, ?p, mt)"
      using assms(2) alone_worker [OF db_recv, of ch m "ev_rest (de_case ev) ch"] by auto
    also have "(alone_step w ?c)\<^sup>*\<^sup>* (collect w (?b @ [m]), ev_rest (de_case ev) ch, ?p, mt)
        (writer_pc (DBWriter_step w ev s), ev_rest (de_case ev) ch, wr_env (DBWriter_step w ev s))"
      using fl [of "?b @ [m]" False "ev_rest (de_case ev) ch"] CaseMsg by (simp add: defs collect_def resume_def)
    finally show ?thesis using start by (rule rtranclp_trans [rotated])
  next
    case CaseClosed
    then have "(alone_step w ?c)\<^sup>*\<^sup>* (Collecting ?b, ch, ?p, mt) (last_flush ?b, ch, ?p, mt)"
      using assms(2) by (auto intro: alone_worker db_closed)
    from rtranclp_trans [OF rtranclp_trans [OF start this] last] show ?thesis
      using CaseClosed by (cases "?b = []") (simp_all add: defs)
  next
    case CaseTick
    have "(alone_step w ?c)\<^sup>*\<^sup>* (Collecting ?b, ch, ?p, mt) (Flushing ?b False, ch, ?p, mt)" if "?b \<noteq> []"
      using that by (auto intro: alone_worker db_tick)
    then show ?thesis using start fl [of ?b False ch] CaseTick by (auto simp: defs resume_def)
  next
    case CaseDone
    then have "(alone_step w ?c)\<^sup>*\<^sup>* (Collecting ?b, ch, ?p, mt) (last_flush ?b, ch, ?p, mt)"
      using assms(2) by (auto intro: alone_worker db_done)
    from rtranclp_trans [OF rtranclp_trans [OF start this] last] show ?thesis
      using CaseDone assms(2) by (cases "?b = []") (simp_all add: defs)
  qed
qed

theorem db_worker_refines_writer_witness:
  "(alone_step (NewDBWriter 1 100) False)\<^sup>*\<^sup>*
     (Collecting [], \<lparr>cbuf = [sample_msg], ccap = 1, cclosed = False\<rparr>, sample_pg [], zero_metrics)
     (Collecting [], \<lparr>cbuf = [], ccap = 1, cclosed = False\<rparr>,
      wr_env (DBWriter_step (NewDBWriter 1 100) (sample_event (CaseMsg sample_msg)) (writer_init (sample_pg [], zero_metrics))))"
  using db_worker_refines_writer [of "writer_init (sample_pg [], zero_metrics)" "sample_event (CaseMsg sample_msg)"
      "\<lparr>cbuf = [sample_msg], ccap = 1, cclosed = False\<rparr>" "NewDBWriter 1 100"]
  by (simp add: writer_init_def sample_event_def writer_pc_def DBWriter_step_def NewDBWriter_def db_flush_def at_time_def Let_def)

end
