(* ===== verification/Ingest_Progress.thy ===== *)
theory Ingest_Progress
  imports Ingest_Process
begin

text \<open>
  Progress of the ingestion process: while no signal arrives, every step of the dispatcher and of the workers uses up
  some of the work that the accepted messages stand for, and a process in which none of them can move has nothing left.
\<close>

section \<open>Progress\<close>

text \<open>The work left for each message, in steps of the dispatcher and the workers.\<close>

fun disp_weight :: "run_pc \<Rightarrow> nat" where
  "disp_weight (SendingDB m) = 21"
| "disp_weight (SendingState m) = 16"
| "disp_weight (SendingAlert m) = 12"
| "disp_weight Selecting = 0"
| "disp_weight Returned = 0"

fun db_weight :: "dbw_pc \<Rightarrow> nat" where
  "db_weight (Collecting b) = 3 * length b"
| "db_weight (Flushing b l) = 2"
| "db_weight (Retrying b l) = 1"
| "db_weight DBStopped = 0"

fun st_weight :: "stw_pc \<Rightarrow> nat" where
  "st_weight (SCollecting b) = 2 * length b"
| "st_weight (SFlushing b l) = 1"
| "st_weight SStopped = 0"

fun eval_weight :: "worker_pc \<Rightarrow> nat" where
  "eval_weight Idle = 0"
| "eval_weight (Checking m rest) = 3 * length rest + 1"
| "eval_weight (Inserting m rule rest) = 3 * length rest + 3"
| "eval_weight (Releasing m rule rest) = 3 * length rest + 2"
| "eval_weight (Publishing m rule rest) = 3 * length rest + 2"

fun al_weight :: "alw_pc \<Rightarrow> nat" where
  "al_weight (Evaluating pc) = eval_weight pc"
| "al_weight AStopped = 0"

definition sys_work :: "'r ingest_sys \<Rightarrow> nat" where
  "sys_work s = (let d = pl_disp (sy_pipe s) in
     22 * length (cbuf (d_ingress d)) + disp_weight (pl_pc (sy_pipe s)) +
     4 * length (cbuf (d_DBChan d)) + 3 * length (cbuf (d_StateChan d)) + 11 * length (cbuf (d_AlertChan d)) +
     sum_list (map db_weight (sy_dbw s)) + sum_list (map st_weight (sy_stw s)) + sum_list (map al_weight (sy_alw s)))"

lemma sum_update:
  assumes "i < length ws" "f y + (a::nat) < f (ws ! i) + b"
  shows "sum_list (map f (ws[i := y])) + a < sum_list (map f ws) + b"
proof -
  have "sum_list (map f ws) = sum_list (map f (take i ws)) + f (ws ! i) + sum_list (map f (drop (Suc i) ws))"
    by (subst id_take_nth_drop [OF assms(1)]) simp
  then show ?thesis using assms by (simp add: upd_conv_take_nth_drop)
qed

lemma db_worker_weight:
  assumes "db_worker w c (pc, ch, p, mt) l (pc', ch', p', mt')" "\<not> cclosed ch" "\<not> c"
  shows "db_weight pc' + 4 * length (cbuf ch') < db_weight pc + 4 * length (cbuf ch)"
  using assms by (cases rule: db_worker.cases)
    (auto simp: resume_defs ch_recv_def neq_Nil_conv split: list.splits if_splits)

lemma state_worker_weight:
  assumes "state_worker rc c (pc, ch, r) l (pc', ch', r')" "\<not> cclosed ch" "\<not> c"
  shows "st_weight pc' + 3 * length (cbuf ch') < st_weight pc + 3 * length (cbuf ch)"
  using assms by (cases rule: state_worker.cases)
    (auto simp: ch_recv_def neq_Nil_conv split: list.splits if_splits)

lemma alert_worker_weight:
  assumes "alert_worker rc c (pc, ch, p, r) l (pc', ch', p', r')" "\<not> cclosed ch" "\<not> c"
  shows "al_weight pc' + 11 * length (cbuf ch') < al_weight pc + 11 * length (cbuf ch)"
  using assms by (cases rule: alert_worker.cases)
    (auto simp: ch_recv_def DefaultAlertRules_def elim!: worker_step.cases split: list.splits if_splits)

lemma run_step_weight:
  assumes "run_step False (pc, d) (pc', d')"
  shows "22 * length (cbuf (d_ingress d')) + disp_weight pc' + 4 * length (cbuf (d_DBChan d')) +
      3 * length (cbuf (d_StateChan d')) + 11 * length (cbuf (d_AlertChan d')) <
    22 * length (cbuf (d_ingress d)) + disp_weight pc + 4 * length (cbuf (d_DBChan d)) +
      3 * length (cbuf (d_StateChan d)) + 11 * length (cbuf (d_AlertChan d))"
  using assms by (cases rule: run_step.cases) (auto elim!: send.cases)

lemma sys_internal_work:
  "sys_internal rc w s t \<Longrightarrow> sys_inv s \<Longrightarrow> \<not> pl_done (sy_pipe s) \<Longrightarrow> sys_work t < sys_work s"
proof (induction rule: sys_internal.induct)
  case (dispatcher s pc d)
  then show ?case using run_step_weight by (force simp: sys_work_def Let_def)
next
  case (db_writer s i ms ok failed pc ch p mt)
  then show ?case
    using sum_update [OF db_writer(2) db_worker_weight [OF db_writer(3)]] pipeline_inv_open [of "sy_pipe s"]
    by (simp add: sys_work_def sys_inv_def Let_def)
next
  case (state_writer s i ms written pc ch r)
  then show ?case
    using sum_update [OF state_writer(2) state_worker_weight [OF state_writer(3)]] pipeline_inv_open [of "sy_pipe s"]
    by (simp add: sys_work_def sys_inv_def Let_def)
next
  case (evaluator s i ms ended pc ch p r)
  then show ?case
    using sum_update [OF evaluator(2) alert_worker_weight [OF evaluator(3)]] pipeline_inv_open [of "sy_pipe s"]
    by (simp add: sys_work_def sys_inv_def Let_def)
qed

definition workers_present :: "'r ingest_sys \<Rightarrow> bool" where
  "workers_present s \<longleftrightarrow> sy_dbw s \<noteq> [] \<and> sy_stw s \<noteq> [] \<and> sy_alw s \<noteq> []"

lemma sys_internal_frame:
  "sys_internal rc w s t \<Longrightarrow> pl_done (sy_pipe t) = pl_done (sy_pipe s) \<and> pl_accepted (sy_pipe t) = pl_accepted (sy_pipe s) \<and>
     sy_main t = sy_main s \<and> length (sy_dbw t) = length (sy_dbw s) \<and> length (sy_stw t) = length (sy_stw s) \<and>
     length (sy_alw t) = length (sy_alw s) \<and> (workers_present t \<longleftrightarrow> workers_present s)"
  by (induction rule: sys_internal.induct) (simp_all add: workers_present_def)

lemma db_worker_ready:
  assumes "db_ok_pc c pc" "\<not> c" "pc \<noteq> Collecting [] \<or> cbuf ch \<noteq> []"
  shows "\<exists>ms ok failed pc' ch' p' mt'. db_worker w c (pc, ch, p, mt) (ms, ok, failed) (pc', ch', p', mt')"
proof (cases pc)
  case (Collecting b)
  show ?thesis
  proof (cases "cbuf ch")
    case (Cons m xs)
    then have "ch_recv ch = Received m (ch\<lparr>cbuf := xs\<rparr>)" by simp
    from db_recv [OF this] Collecting show ?thesis by blast
  next
    case Nil
    then show ?thesis using Collecting assms(3) by (blast intro: db_tick)
  qed
next
  case (Flushing b l)
  obtain e p' where "BatchInsert c b p = (e, p')" by fastforce
  then show ?thesis using Flushing by (cases e) (blast intro: db_ok db_err)+
next
  case (Retrying b l)
  obtain e p' where "BatchInsert c b p = (e, p')" by fastforce
  then show ?thesis using Retrying by (cases e) (blast intro: db_retry_ok db_retry_err)+
qed (use assms in simp)

lemma state_worker_ready:
  assumes "st_ok_pc c pc" "\<not> c" "pc \<noteq> SCollecting [] \<or> cbuf ch \<noteq> []"
  shows "\<exists>ms written pc' ch' r'. state_worker rc c (pc, ch, r) (ms, written) (pc', ch', r')"
proof (cases pc)
  case (SCollecting b)
  show ?thesis
  proof (cases "cbuf ch")
    case (Cons m xs)
    then have "ch_recv ch = Received m (ch\<lparr>cbuf := xs\<rparr>)" by simp
    from st_recv [OF this, of rc c b r] SCollecting show ?thesis by blast
  next
    case Nil
    then show ?thesis using SCollecting assms(3) by (blast intro: st_tick)
  qed
next
  case (SFlushing b l)
  then show ?thesis using st_flush [of rc c b l ch r] by blast
qed (use assms in simp)

lemma worker_step_ready:
  "pc \<noteq> Idle \<Longrightarrow> \<exists>pc' p' r'. worker_step rc now rules (pc, p, r) (pc', p', r')"
proof (cases pc)
  case (Checking msg rest)
  show ?thesis
  proof (cases rest)
    case (Cons rule rest')
    obtain c r' where c: "TryClaimAlertDedup rc (tm_VehicleID msg) (rule_Type rule) r = (c, r')" by fastforce
    then show ?thesis
    proof (cases "rule_Evaluator rule msg")
      case True
      then show ?thesis
        using c Checking Cons
        by (cases c; cases "projr c") (auto intro: worker_step.claim_err worker_step.claim_no worker_step.claim_yes)
    qed (use Checking Cons in \<open>blast intro: worker_step.skip\<close>)
  qed (use Checking in \<open>blast intro: worker_step.finish\<close>)
next
  case (Inserting msg rule rest)
  obtain e p' where "InsertAlert (tm_VehicleID msg) (tm_FleetID msg) (rule_Type rule) (rule_Severity rule)
      (getTriggerValue msg (rule_Type rule)) p = (e, p')" by fastforce
  then show ?thesis using Inserting by (cases e) (blast intro: worker_step.insert_ok worker_step.insert_err)+
next
  case (Releasing msg rule rest)
  obtain e r' where "ReleaseAlertDedup rc (tm_VehicleID msg) (rule_Type rule) r = (e, r')" by fastforce
  then show ?thesis using Releasing by (blast intro: worker_step.release)
next
  case (Publishing msg rule rest)
  obtain e r' where "PublishAlert rc (tm_FleetID msg)
      (alertPayload now msg rule (getTriggerValue msg (rule_Type rule))) r = (e, r')" by fastforce
  then show ?thesis using Publishing by (blast intro: worker_step.publish)
qed simp

lemma alert_worker_ready:
  assumes "al_ok_pc c pc" "\<not> c" "pc \<noteq> Evaluating Idle \<or> cbuf ch \<noteq> []"
  shows "\<exists>ms ended pc' ch' p' r'. alert_worker rc c (pc, ch, p, r) (ms, ended) (pc', ch', p', r')"
proof (cases pc)
  case (Evaluating q)
  show ?thesis
  proof (cases "q = Idle")
    case True
    then obtain m xs where "cbuf ch = m # xs" using assms(3) Evaluating by (auto simp: neq_Nil_conv)
    then have "ch_recv ch = Received m (ch\<lparr>cbuf := xs\<rparr>)" by simp
    from al_recv [OF this, of rc c p r] Evaluating True show ?thesis by blast
  next
    case False
    then obtain pc' p' r' where "worker_step rc 0 DefaultAlertRules (q, p, r) (pc', p', r')"
      using worker_step_ready [of q rc 0 DefaultAlertRules p r] by blast
    from al_step [OF False this] Evaluating show ?thesis by blast
  qed
qed (use assms in simp)

text \<open>Nothing is queued or held anywhere.\<close>

definition sys_drained :: "'r ingest_sys \<Rightarrow> bool" where
  "sys_drained s \<longleftrightarrow>
     pl_pc (sy_pipe s) = Selecting \<and> cbuf (d_ingress (pl_disp (sy_pipe s))) = [] \<and>
     cbuf (d_DBChan (pl_disp (sy_pipe s))) = [] \<and> cbuf (d_StateChan (pl_disp (sy_pipe s))) = [] \<and>
     cbuf (d_AlertChan (pl_disp (sy_pipe s))) = [] \<and>
     held db_held (sy_dbw s) = {#} \<and> held st_held (sy_stw s) = {#} \<and> held al_held (sy_alw s) = {#}"

lemma held_nth_empty: "(\<And>i. i < length ws \<Longrightarrow> f (ws ! i) = []) \<Longrightarrow> held f ws = {#}"
  by (auto simp: held_def in_set_conv_nth)

lemma sys_stuck_drained:
  assumes "sys_inv s" "\<not> pl_done (sy_pipe s)" "sy_main s \<noteq> MainExited" "workers_present s" "\<nexists>t. sys_internal rc w s t"
  shows "sys_drained s"
proof -
  have db: "sy_dbw s ! i = Collecting [] \<and> cbuf (d_DBChan (pl_disp (sy_pipe s))) = []" if "i < length (sy_dbw s)" for i
  proof (rule ccontr)
    assume "\<not> ?thesis"
    moreover have "db_ok_pc (pl_done (sy_pipe s)) (sy_dbw s ! i)" using assms(1) that by (simp add: sys_inv_def list_all_at)
    ultimately obtain ms ok failed pc ch p mt where "db_worker w (pl_done (sy_pipe s))
        (sy_dbw s ! i, d_DBChan (pl_disp (sy_pipe s)), sy_pg s, pl_metrics (sy_pipe s)) (ms, ok, failed) (pc, ch, p, mt)"
      using db_worker_ready [OF _ assms(2)] by blast
    then show False using db_writer [OF assms(3) that] assms(5) by blast
  qed
  have st: "sy_stw s ! i = SCollecting [] \<and> cbuf (d_StateChan (pl_disp (sy_pipe s))) = []" if "i < length (sy_stw s)" for i
  proof (rule ccontr)
    assume "\<not> ?thesis"
    moreover have "st_ok_pc (pl_done (sy_pipe s)) (sy_stw s ! i)" using assms(1) that by (simp add: sys_inv_def list_all_at)
    ultimately obtain ms written pc ch r where "state_worker rc (pl_done (sy_pipe s))
        (sy_stw s ! i, d_StateChan (pl_disp (sy_pipe s)), sy_redis s) (ms, written) (pc, ch, r)"
      using state_worker_ready [OF _ assms(2), where rc = rc] by blast
    then show False using state_writer [OF assms(3) that] assms(5) by blast
  qed
  have al: "sy_alw s ! i = Evaluating Idle \<and> cbuf (d_AlertChan (pl_disp (sy_pipe s))) = []" if "i < length (sy_alw s)" for i
  proof (rule ccontr)
    assume "\<not> ?thesis"
    moreover have "al_ok_pc (pl_done (sy_pipe s)) (sy_alw s ! i)" using assms(1) that by (simp add: sys_inv_def list_all_at)
    ultimately obtain ms ended pc ch p r where "alert_worker rc (pl_done (sy_pipe s))
        (sy_alw s ! i, d_AlertChan (pl_disp (sy_pipe s)), sy_pg s, sy_redis s) (ms, ended) (pc, ch, p, r)"
      using alert_worker_ready [OF _ assms(2), where rc = rc] by blast
    then show False using evaluator [OF assms(3) that] assms(5) by blast
  qed
  have empty: "cbuf (d_DBChan (pl_disp (sy_pipe s))) = []" "cbuf (d_StateChan (pl_disp (sy_pipe s))) = []"
    "cbuf (d_AlertChan (pl_disp (sy_pipe s))) = []"
    using db [of 0] st [of 0] al [of 0] assms(4) by (auto simp: workers_present_def)
  have "pl_pc (sy_pipe s) = Selecting \<and> cbuf (d_ingress (pl_disp (sy_pipe s))) = []"
  proof (rule ccontr)
    assume "\<not> ?thesis"
    then obtain pc d where "run_step (pl_done (sy_pipe s)) (pl_pc (sy_pipe s), pl_disp (sy_pipe s)) (pc, d)"
      using run_step_ready [of "sy_pipe s"] assms(1,2) empty unfolding sys_inv_def by blast
    then show False using dispatcher [OF assms(3)] assms(5) by blast
  qed
  then show ?thesis using empty db st al by (auto simp: sys_drained_def intro!: held_nth_empty)
qed

lemma sys_internals_frame:
  "(sys_internal rc w)\<^sup>*\<^sup>* s t \<Longrightarrow> pl_done (sy_pipe t) = pl_done (sy_pipe s) \<and> pl_accepted (sy_pipe t) = pl_accepted (sy_pipe s) \<and>
     sy_main t = sy_main s \<and> (workers_present t \<longleftrightarrow> workers_present s)"
  by (induction rule: rtranclp_induct) (auto dest: sys_internal_frame)

lemma sys_internals_inv:
  assumes "(sys_internal rc w)\<^sup>*\<^sup>* s t" "sys_inv s \<and> store_inv c0 plan s"
  shows "sys_inv t \<and> store_inv c0 plan t"
  using assms by (induction rule: rtranclp_induct) (auto intro: sys_internal_inv sys_internal_store)

lemma sys_internals_bound:
  "(sys_internal rc w ^^ n) s t \<Longrightarrow> sys_inv s \<and> store_inv c0 plan s \<Longrightarrow> \<not> pl_done (sy_pipe s) \<Longrightarrow> n + sys_work t \<le> sys_work s"
proof (induction n arbitrary: t)
  case (Suc n)
  then obtain u where u: "(sys_internal rc w ^^ n) s u" "sys_internal rc w u t" by auto
  note star = relpowp_imp_rtranclp [OF u(1)]
  show ?case
    using Suc.IH [OF u(1)] Suc.prems sys_internal_work [OF u(2)] sys_internals_frame [OF star] sys_internals_inv [OF star]
    by auto
qed auto

lemma sys_drains:
  assumes "sys_inv s \<and> store_inv c0 plan s" "\<not> pl_done (sy_pipe s)" "workers_present s"
  shows "\<exists>t. (sys_internal rc w)\<^sup>*\<^sup>* s t \<and> (\<nexists>u. sys_internal rc w t u)"
  using assms
proof (induction "sys_work s" arbitrary: s rule: less_induct)
  case less
  show ?case
  proof (cases "\<exists>t. sys_internal rc w s t")
    case True
    then obtain t where t: "sys_internal rc w s t" by blast
    have "\<exists>u. (sys_internal rc w)\<^sup>*\<^sup>* t u \<and> (\<nexists>v. sys_internal rc w u v)"
      using less.hyps [of t] less.prems sys_internal_work [OF t] sys_internals_inv [of rc w s t]
        sys_internals_frame [of rc w s t] t by blast
    then show ?thesis using t by (blast intro: converse_rtranclp_into_rtranclp)
  qed blast
qed

text \<open>In a drained process everything accepted has arrived.\<close>

lemma drained_arrived:
  assumes "sys_inv s \<and> store_inv c0 {} s" "\<not> pl_done (sy_pipe s)" "sys_drained s"
  shows "mset (stored_content (sy_pg s)) = c0 + contents (mset (pl_accepted (sy_pipe s)))"
    and "mset (concat (sy_written s)) = mset (pl_accepted (sy_pipe s))"
    and "mset (sy_evaluated s) = mset (pl_accepted (sy_pipe s))"
proof -
  let ?p = "sy_pipe s"
  have "pl_db ?p = pl_accepted ?p" "pl_state ?p = pl_accepted ?p" "pl_alert ?p = pl_accepted ?p"
    using assms(1,3) by (auto simp: sys_inv_def pipeline_inv_def lane_def sys_drained_def)
  moreover have "sy_failed s = []" "mset (stored_content (sy_pg s)) = c0 + contents (mset (concat (sy_ok s)))"
    using assms(1,2) by (simp_all add: store_inv_def Let_def)
  ultimately show "mset (stored_content (sy_pg s)) = c0 + contents (mset (pl_accepted ?p))"
    "mset (concat (sy_written s)) = mset (pl_accepted ?p)" "mset (sy_evaluated s) = mset (pl_accepted ?p)"
    using assms(1,3) unfolding sys_inv_def sys_drained_def by (simp_all del: contents_simps mset_concat) metis+
qed

text \<open>At rest, everything accepted has arrived.\<close>

lemma rest_arrived:
  assumes "sys_inv s \<and> store_inv c0 {} s" "\<not> pl_done (sy_pipe s)" "workers_present s" "\<nexists>u. sys_internal rc w s u"
  shows "mset (stored_content (sy_pg s)) = c0 + mset (map msg_content (pl_accepted (sy_pipe s)))"
    and "mset (concat (sy_written s)) = mset (pl_accepted (sy_pipe s))"
    and "mset (sy_evaluated s) = mset (pl_accepted (sy_pipe s))"
proof -
  have "sys_drained s" using sys_stuck_drained [of s rc w] assms by (auto simp: sys_inv_def)
  from drained_arrived [OF assms(1,2) this]
  show "mset (stored_content (sy_pg s)) = c0 + mset (map msg_content (pl_accepted (sy_pipe s)))"
    "mset (concat (sy_written s)) = mset (pl_accepted (sy_pipe s))" "mset (sy_evaluated s) = mset (pl_accepted (sy_pipe s))"
    by simp_all
qed

lemma start_workers:
  assumes "ingest_start env newPool ping bind rc w = Inr s"
  shows "length (sy_dbw s) = nat (ic_DBWriterWorkers (ingest_Load env)) \<and>
    length (sy_stw s) = nat (ic_StateWriterWorkers (ingest_Load env)) \<and>
    length (sy_alw s) = nat (ic_AlertWorkers (ingest_Load env)) \<and> sy_main s = MainWaiting"
  using assms
proof (rule ingest_start_Inr)
  fix pr p r
  assume pr: "ingest_main (ingest_Load env) = Some pr" and s: "s = sys_init bind pr (p, r)"
  from pr have "length (pr_dbWriters pr) = nat (ic_DBWriterWorkers (ingest_Load env)) \<and>
     pr_stateWriters pr = nat (ic_StateWriterWorkers (ingest_Load env)) \<and>
     pr_alertEvaluators pr = nat (ic_AlertWorkers (ingest_Load env))"
    unfolding ingest_main_def
    by (cases "NewDispatcher (ic_DBChannelSize (ingest_Load env)) (ic_StateChannelSize (ingest_Load env))
      (ic_AlertChannelSize (ingest_Load env))") auto
  then show ?thesis by (simp add: s sys_init_def)
qed

lemma process_step_workers:
  "process_step rc co w s t \<Longrightarrow> length (sy_dbw t) = length (sy_dbw s) \<and> length (sy_stw t) = length (sy_stw s) \<and>
     length (sy_alw t) = length (sy_alw s)"
  by (induction rule: process_step.induct) (simp_all add: sys_internal_frame)

lemma sys_step_workers:
  "sys_step rc co w s t \<Longrightarrow> length (sy_dbw t) = length (sy_dbw s) \<and> length (sy_stw t) = length (sy_stw s) \<and>
     length (sy_alw t) = length (sy_alw s)"
  by (induction rule: sys_step.induct) (simp_all add: process_step_workers)

lemma sys_steps_workers:
  "(sys_step rc co w)\<^sup>*\<^sup>* s t \<Longrightarrow> length (sy_dbw t) = length (sy_dbw s) \<and> length (sy_stw t) = length (sy_stw s) \<and>
     length (sy_alw t) = length (sy_alw s)"
  by (induction rule: rtranclp_induct) (auto dest: sys_step_workers)

definition workers_configured :: "environment \<Rightarrow> bool" where
  "workers_configured env \<longleftrightarrow> 0 < ic_DBWriterWorkers (ingest_Load env) \<and> 0 < ic_StateWriterWorkers (ingest_Load env) \<and>
     0 < ic_AlertWorkers (ingest_Load env)"

lemma workers_stay:
  assumes "ingest_start env newPool ping bind rc st = Inr s0" "workers_configured env" "(sys_step rc co w)\<^sup>*\<^sup>* s0 s"
  shows "workers_present s"
  using start_workers [OF assms(1)] sys_steps_workers [OF assms(3)] assms(2)
  by (auto simp: workers_present_def workers_configured_def simp flip: length_greater_0_conv)

lemma sample_workers: "workers_configured (\<lambda>_. [])"
  by (simp add: workers_configured_def ingest_Load_def getEnvInt_unset)

section \<open>Property\<close>



end
