(* ===== verification/Serving_Core.thy ===== *)
theory Serving_Core
  imports Ingest_Auth
begin

text \<open>
  What every part of the serving service shares: the string constants and pagination of
  \<open>src/serving/internal/domain/types.go\<close>, the helpers of \<open>internal/handler/helpers.go\<close>, the
  authenticator of \<open>internal/auth/authenticator.go\<close> and the middleware of
  \<open>internal/middleware/auth.go\<close>.

  A request is its API key header, its query and path values (\<open>''''\<close> for an absent one, as
  \<open>Get\<close> and \<open>PathValue\<close> return) and the JSON value of its body. The scanner of floating-point
  texts (\<open>fmt.Sscanf\<close> with \<open>%f\<close>, \<open>strconv.ParseFloat\<close>) is a parameter.
\<close>

section \<open>domain/types.go\<close>

definition StatusOnline :: string where "StatusOnline = ''online''"

definition StatusOffline :: string where "StatusOffline = ''offline''"

definition AlertRouteDeviation :: string where "AlertRouteDeviation = ''ROUTE_DEVIATION''"

definition TripScheduled :: string where "TripScheduled = ''SCHEDULED''"

definition TripInProgress :: string where "TripInProgress = ''IN_PROGRESS''"

definition TripCompleted :: string where "TripCompleted = ''COMPLETED''"

definition TripCancelled :: string where "TripCancelled = ''CANCELLED''"

definition StopPending :: string where "StopPending = ''PENDING''"

definition StopArrived :: string where "StopArrived = ''ARRIVED''"

definition StopDeparted :: string where "StopDeparted = ''DEPARTED''"

definition StopMissed :: string where "StopMissed = ''MISSED''"

record PaginationMeta =
  pm_Page :: int
  pm_Limit :: int
  pm_Total :: int
  pm_Pages :: int

text \<open>The arithmetic is that of \<open>int\<close>, 64 bits wide.\<close>

definition NewPagination :: "int \<Rightarrow> int \<Rightarrow> int \<Rightarrow> PaginationMeta" where
  "NewPagination page limit tot =
     \<lparr>pm_Page = page, pm_Limit = limit, pm_Total = tot,
      pm_Pages = (if 0 < limit then go_div (wrap64 (wrap64 (tot + limit) - 1)) limit else 0)\<rparr>"

definition pagination_json :: "PaginationMeta \<Rightarrow> json" where
  "pagination_json m = JObj [(''page'', JInt (pm_Page m)), (''limit'', JInt (pm_Limit m)),
     (''total'', JInt (pm_Total m)), (''pages'', JInt (pm_Pages m))]"

section \<open>handler/helpers.go\<close>

text \<open>A value \<open>encoding/json\<close> cannot print leaves an empty body (\<open>JNull\<close>) behind the status.\<close>

definition writeJSON :: "nat \<Rightarrow> json \<Rightarrow> response" where
  "writeJSON status v = json_response status (if json_ok v then v else JNull)"

definition writeError :: "nat \<Rightarrow> string \<Rightarrow> response" where
  "writeError status msg = json_response status (JObj [(''error'', JStr msg)])"

definition parsePagination :: "string \<Rightarrow> string \<Rightarrow> int \<times> int" where
  "parsePagination pageStr limitStr =
     (let page = (case Atoi pageStr of Some n \<Rightarrow> if 0 < n then n else 1 | None \<Rightarrow> 1);
          limit = (case Atoi limitStr of Some n \<Rightarrow> if 0 < n \<and> n \<le> 100 then n else 50 | None \<Rightarrow> 50)
      in (page, limit))"

text \<open>\<open>offset := (page - 1) * limit\<close>.\<close>

definition page_offset :: "int \<Rightarrow> int \<Rightarrow> int" where
  "page_offset page limit = wrap64 (wrap64 (page - 1) * limit)"

definition parseBool :: "string option \<Rightarrow> bool" where
  "parseBool v = (case v of None \<Rightarrow> False | Some s \<Rightarrow> s = ''1'' \<or> s = ''true'')"

definition parseFloat :: "(string \<Rightarrow> float64) \<Rightarrow> string option \<Rightarrow> float64" where
  "parseFloat scan v = (case v of None \<Rightarrow> Fin 0 | Some s \<Rightarrow> scan s)"

text \<open>The zero value of a missing map entry is the empty string.\<close>

definition map_get :: "(string \<times> string) list \<Rightarrow> string \<Rightarrow> string" where
  "map_get m key = (case map_of m key of None \<Rightarrow> [] | Some v \<Rightarrow> v)"

definition parseMapFloat :: "(string \<Rightarrow> float64) \<Rightarrow> (string \<times> string) list \<Rightarrow> string \<Rightarrow> float64" where
  "parseMapFloat scan m key = scan (map_get m key)"

definition parseMapBool :: "(string \<times> string) list \<Rightarrow> string \<Rightarrow> bool" where
  "parseMapBool m key = (let v = map_get m key in v = ''1'' \<or> v = ''true'')"

text \<open>\<open>LIMIT l OFFSET o\<close> of a query; the server refuses a negative offset.\<close>

definition sql_page :: "int \<Rightarrow> int \<Rightarrow> 'a list \<Rightarrow> sql_err + 'a list" where
  "sql_page limit offset xs =
     (if offset < 0 then Inl (DataErr ''OFFSET must not be negative'')
      else Inr (take (nat limit) (drop (nat offset) xs)))"

section \<open>auth/authenticator.go\<close>

record srv_auth_config =
  sac_ValidAPIKeys :: "string list"
  sac_CacheTTLSeconds :: int

definition srv_NewAuthenticator :: "srv_auth_config \<Rightarrow> Authenticator" where
  "srv_NewAuthenticator cfg =
     (let ttl = duration_of (sac_CacheTTLSeconds cfg) Second;
          ttl = (if ttl = 0 then 300 * Second else ttl)
      in \<lparr>au_localCache = Map.empty, au_ttl = ttl,
          au_staticKeys = static_key_map (sac_ValidAPIKeys cfg)\<rparr>)"

definition lookupRedis :: "'r redis_client \<Rightarrow> string \<Rightarrow> 'r \<Rightarrow> (string + string) \<times> 'r" where
  "lookupRedis rc apiKey r =
     (case cmd_Get rc (''vehicle:auth:'' @ apiKey) r of
        (Inl RedisNil, r') \<Rightarrow> (Inr [], r')
      | (Inl (RedisErr e), r') \<Rightarrow> (Inl (''redis auth lookup failed: '' @ e), r')
      | (Inr val, r') \<Rightarrow> (Inr val, r'))"

definition srv_FleetID ::
  "'r redis_client \<Rightarrow> time \<Rightarrow> time \<Rightarrow> string \<Rightarrow> Authenticator \<times> 'r \<Rightarrow> (string \<times> bool) \<times> Authenticator \<times> 'r" where
  "srv_FleetID rc now now' apiKey s =
     (let a = fst s; r = snd s in
      if apiKey = [] then (([], False), a, r)
      else if au_staticKeys a apiKey then (([], True), a, r)
      else
        (let live = (case au_localCache a apiKey of
                       Some entry \<Rightarrow> if now < ce_expiresAt entry then Some (ce_fleetID entry) else None
                     | None \<Rightarrow> None)
         in case live of
              Some f \<Rightarrow> ((f, True), a, r)
            | None \<Rightarrow>
                (let a = a\<lparr>au_localCache := (au_localCache a)(apiKey := None)\<rparr>
                 in case lookupRedis rc apiKey r of
                      (Inl err, r) \<Rightarrow> (([], False), a, r)
                    | (Inr f, r) \<Rightarrow>
                        if f = [] then (([], False), a, r)
                        else ((f, True), a\<lparr>au_localCache := (au_localCache a)
                               (apiKey \<mapsto> \<lparr>ce_fleetID = f, ce_expiresAt = now' + au_ttl a\<rparr>)\<rparr>, r))))"

definition srv_Validate ::
  "'r redis_client \<Rightarrow> time \<Rightarrow> time \<Rightarrow> string \<Rightarrow> Authenticator \<times> 'r \<Rightarrow> bool \<times> Authenticator \<times> 'r" where
  "srv_Validate rc now now' apiKey s =
     (let a = fst s; r = snd s in
      if apiKey = [] then (False, a, r)
      else if au_staticKeys a apiKey then (True, a, r)
      else if (case au_localCache a apiKey of Some entry \<Rightarrow> now < ce_expiresAt entry | None \<Rightarrow> False)
      then (True, a, r)
      else
        (let a = a\<lparr>au_localCache := (au_localCache a)(apiKey := None)\<rparr>
         in case lookupRedis rc apiKey r of
              (Inl err, r) \<Rightarrow> (False, a, r)
            | (Inr f, r) \<Rightarrow>
                if f = [] then (False, a, r)
                else (True, a\<lparr>au_localCache := (au_localCache a)
                        (apiKey \<mapsto> \<lparr>ce_fleetID = f, ce_expiresAt = now' + au_ttl a\<rparr>)\<rparr>, r)))"

section \<open>middleware/auth.go\<close>

record http_request =
  hr_apiKey :: string
  hr_query :: "string \<Rightarrow> string"
  hr_path :: "string \<Rightarrow> string"
  hr_body :: "json option"

text \<open>What the middleware puts into the request's context; empty strings without it.\<close>

record auth_ctx =
  cx_APIKey :: string
  cx_FleetID :: string

type_synonym 'w srv_handler = "auth_ctx \<Rightarrow> http_request \<Rightarrow> 'w \<Rightarrow> response \<times> 'w"

text \<open>A handler behind the middleware; \<open>None\<close>: it does not return. The authenticator and the handler share the world.\<close>

type_synonym 'w handler_func = "auth_ctx \<Rightarrow> http_request \<Rightarrow> 'w \<Rightarrow> (response \<times> 'w) option"

abbreviation returning :: "'w srv_handler \<Rightarrow> 'w handler_func" where
  "returning h \<equiv> (\<lambda>ctx rq w. Some (h ctx rq w))"

definition Auth ::
  "(string \<Rightarrow> 'w \<Rightarrow> (string \<times> bool) \<times> 'w) \<Rightarrow> 'w handler_func \<Rightarrow> http_request \<Rightarrow> 'w \<Rightarrow> (response \<times> 'w) option" where
  "Auth fleetID handler rq w =
     (if hr_apiKey rq = [] then Some (writeError StatusUnauthorized ''missing X-API-Key header'', w)
      else case fleetID (hr_apiKey rq) w of
             ((f, False), w') \<Rightarrow> Some (writeError StatusUnauthorized ''invalid API key'', w')
           | ((f, True), w') \<Rightarrow> handler \<lparr>cx_APIKey = hr_apiKey rq, cx_FleetID = f\<rparr> rq w')"

definition requestedFleet :: "string \<Rightarrow> http_request \<Rightarrow> string" where
  "requestedFleet param rq = (if hr_query rq param = [] then hr_path rq param else hr_query rq param)"

definition FleetScoped :: "string \<Rightarrow> 'w handler_func \<Rightarrow> 'w handler_func" where
  "FleetScoped param handler ctx rq w =
     (if requestedFleet param rq = [] then Some (writeError StatusBadRequest (param @ '' is required''), w)
      else if cx_FleetID ctx = [] \<or> cx_FleetID ctx \<noteq> requestedFleet param rq
      then Some (writeError StatusForbidden (''API key is not authorised for fleet '' @ requestedFleet param rq), w)
      else handler ctx rq w)"

section \<open>Lemmas\<close>

lemma resp_status_writeJSON [simp]: "resp_status (writeJSON s v) = s"
  by (simp add: writeJSON_def)

lemma resp_status_writeError [simp]: "resp_status (writeError s m) = s"
  by (simp add: writeError_def)

lemma parsePagination_bounds:
  "parsePagination p l = (page, limit) \<Longrightarrow> 1 \<le> page \<and> in_int64 page \<and> 1 \<le> limit \<and> limit \<le> 100"
  by (auto simp: parsePagination_def Let_def Atoi_def in_int64_def dest: ParseInt_range split: option.splits if_splits)

lemma page_offset_exact:
  assumes "1 \<le> page" "1 \<le> limit" "limit \<le> 100" "page \<le> 2 ^ 63 div 100"
  shows "page_offset page limit = (page - 1) * limit"
proof -
  have "(page - 1) * limit \<le> (2 ^ 63 div 100 - 1) * 100"
    using assms by (intro mult_mono) auto
  moreover have "0 \<le> (page - 1) * limit" using assms by simp
  ultimately have "in_int64 ((page - 1) * limit)" by (simp add: in_int64_def)
  moreover have "in_int64 (page - 1)" using assms by (simp add: in_int64_def)
  ultimately show ?thesis by (simp add: page_offset_def)
qed

lemma NewPagination_pages:
  assumes "1 \<le> limit" "limit \<le> 100" "0 \<le> tot" "tot < 2 ^ 62"
  shows "pm_Pages (NewPagination page limit tot) = (tot + limit - 1) div limit"
proof -
  have "in_int64 (tot + limit)" "in_int64 (tot + limit - 1)"
    using assms by (simp_all add: in_int64_def)
  then show ?thesis using assms by (simp add: NewPagination_def go_div_nonneg)
qed

text \<open>The serving authenticator is the ingestion one over its own lookup.\<close>

lemma srv_FleetID_eq:
  "srv_FleetID rc now now' k s = FleetID (lookupRedis rc) now now' k (fst s) (snd s)"
  by (auto simp: srv_FleetID_def FleetID_def Let_def split: option.splits prod.splits sum.splits)

lemma srv_Validate_eq:
  "srv_Validate rc now now' k s =
     (case srv_FleetID rc now now' k s of ((f, ok), a, r) \<Rightarrow> (ok, a, r))"
  by (auto simp: srv_FleetID_def srv_Validate_def Let_def split: option.splits prod.splits sum.splits)

sublocale redis_server \<subseteq> srv_keys: api_key_store
    "lookupRedis rc" "\<lambda>r k. string_of_entry (view r (clock r) (auth_key k))"
proof (unfold_locales, goal_cases)
  case (1 k r f r')
  then have "cmd_Get rc (auth_key k) r = (Inr f, r')"
    by (auto simp: lookupRedis_def auth_key_def split: prod.splits sum.splits redis_err.splits)
  from get_value [OF this] show ?case by simp
next
  case (2 k r r')
  then consider "cmd_Get rc (auth_key k) r = (Inl RedisNil, r')"
    | "cmd_Get rc (auth_key k) r = (Inr [], r')"
    by (auto simp: lookupRedis_def auth_key_def split: prod.splits sum.splits redis_err.splits)
  then show ?case using get_nil get_value by cases auto
next
  case (3 k r x1 r')
  then obtain y where "cmd_Get rc (auth_key k) r = (y, r')"
    by (auto simp: lookupRedis_def auth_key_def split: prod.splits sum.splits redis_err.splits)
  from get_frame [OF this] show ?case by simp
qed

sublocale redis_server \<subseteq> srv_authn: key_authenticator "srv_FleetID rc now now'"
    "\<lambda>s k f. (\<exists>e. au_localCache (fst s) k = Some e \<and> ce_fleetID e = f \<and> now < ce_expiresAt e) \<or>
             view (snd s) (clock (snd s)) (auth_key k) = Some (RStr f)"
  for now now' :: time
proof (unfold_locales, goal_cases)
  case (1 s)
  then show ?case by (simp add: srv_FleetID_def)
next
  case (2 k s f s')
  then show ?case using FleetID_refused unfolding srv_FleetID_eq by (metis surj_pair)
next
  case (3 k s f s')
  obtain a' r' where s': "s' = (a', r')" by (cases s')
  have run: "FleetID (lookupRedis rc) now now' k (fst s) (snd s) = ((f, True), a', r')"
    using 3(1) s' by (simp add: srv_FleetID_eq)
  from FleetID_source [OF run 3(2)] show ?case
  proof (elim conjE disjE)
    assume g: "lookupRedis rc k (snd s) = (Inr f, r')"
    have "view (snd s) (clock (snd s)) (auth_key k) = Some (RStr f)"
      using srv_keys.key_owner [OF g 3(2)]
      by (cases "view (snd s) (clock (snd s)) (auth_key k)" rule: string_of_entry.cases) auto
    then show ?thesis ..
  qed auto
qed

text \<open>Consecutive pages of a list are the list.\<close>

lemma pages_cover:
  assumes "0 < l" "length xs \<le> n * l"
  shows "concat (map (\<lambda>k. take l (drop (k * l) xs)) [0..<n]) = xs"
proof -
  have "concat (map (\<lambda>k. take l (drop (k * l) xs)) [0..<n]) = take (n * l) xs"
  proof (induction n)
    case (Suc n)
    then show ?case by (simp add: take_add [of "n * l" l, symmetric] add.commute)
  qed simp
  then show ?thesis using assms by simp
qed

end
