(* ===== verification/Serving_Ws.thy ===== *)
theory Serving_Ws
  imports Serving_Core
begin

text \<open>
  The WebSocket side of the serving service (\<open>src/serving/internal/ws\<close>): the events
  (\<open>events.go\<close>), the client's queue (\<open>client.go\<close>) and the hub (\<open>hub.go\<close>).

  Clients are addresses; the hub's state holds the heap of clients, its three channels and the
  map of fleets. An operation that would panic (closing a closed channel, sending on a closed one)
  gives \<open>None\<close>. A map is iterated in any order in Go; the operations treat each client on its own,
  so the model iterates in the order of a list. \<open>run_case\<close> and \<open>env_case\<close> are the hub with its environment: new
  connections, clients that go away, broadcasters, the write pumps. Two history fields record what
  was broadcast and what was written to each connection.
\<close>

section \<open>events.go\<close>

definition EventVehiclePosition :: string where "EventVehiclePosition = ''vehicle.position''"

definition EventVehicleAlert :: string where "EventVehicleAlert = ''vehicle.alert''"

definition EventVehicleOffline :: string where "EventVehicleOffline = ''vehicle.offline''"

definition EventVehicleOnline :: string where "EventVehicleOnline = ''vehicle.online''"

definition EventVehicleDeviation :: string where "EventVehicleDeviation = ''vehicle.deviation''"

definition EventStopArrived :: string where "EventStopArrived = ''vehicle.stop_arrived''"

definition EventAlertResolved :: string where "EventAlertResolved = ''vehicle.alert_resolved''"

definition EventPing :: string where "EventPing = ''ping''"

text \<open>\<open>omitempty\<close>: an event without payload has no \<open>payload\<close> member.\<close>

definition envelope :: "string \<Rightarrow> json option \<Rightarrow> json" where
  "envelope ty payload =
     JObj ((''type'', JStr ty) # (case payload of None \<Rightarrow> [] | Some j \<Rightarrow> [(''payload'', j)]))"

record VehiclePositionPayload =
  vp_VehicleID :: string
  vp_Lat :: float64
  vp_Lng :: float64
  vp_SpeedKmh :: float64
  vp_IsMoving :: bool
  vp_EngineOn :: bool
  vp_ReceivedAt :: time

record VehicleAlertPayload =
  va_AlertID :: int
  va_VehicleID :: string
  va_AlertType :: string
  va_Severity :: string
  va_TriggeredValue :: float64
  va_CreatedAt :: time

record VehicleOfflinePayload =
  vo_VehicleID :: string
  vo_LastSeenAt :: time

record VehicleOnlinePayload =
  vn_VehicleID :: string

record VehicleDeviationPayload =
  vd_VehicleID :: string
  vd_TripID :: string
  vd_DeviationKm :: float64

record StopArrivedPayload =
  sa_VehicleID :: string
  sa_TripID :: string
  sa_StopID :: string
  sa_StopName :: string
  sa_ArrivedAt :: time

record AlertResolvedPayload =
  ar_AlertID :: int
  ar_VehicleID :: string
  ar_ResolvedAt :: time

definition newPositionEvent :: "(time \<Rightarrow> string) \<Rightarrow> VehiclePositionPayload \<Rightarrow> json" where
  "newPositionEvent fmt p = envelope EventVehiclePosition (Some (JObj
     [(''vehicle_id'', JStr (vp_VehicleID p)), (''lat'', JNum (vp_Lat p)), (''lng'', JNum (vp_Lng p)),
      (''speed_kmh'', JNum (vp_SpeedKmh p)), (''is_moving'', JBool (vp_IsMoving p)),
      (''engine_on'', JBool (vp_EngineOn p)), (''received_at'', JStr (fmt (vp_ReceivedAt p)))]))"

definition newAlertEvent :: "(time \<Rightarrow> string) \<Rightarrow> VehicleAlertPayload \<Rightarrow> json" where
  "newAlertEvent fmt p = envelope EventVehicleAlert (Some (JObj
     [(''alert_id'', JInt (va_AlertID p)), (''vehicle_id'', JStr (va_VehicleID p)),
      (''alert_type'', JStr (va_AlertType p)), (''severity'', JStr (va_Severity p)),
      (''triggered_value'', JNum (va_TriggeredValue p)), (''created_at'', JStr (fmt (va_CreatedAt p)))]))"

definition newOfflineEvent :: "(time \<Rightarrow> string) \<Rightarrow> VehicleOfflinePayload \<Rightarrow> json" where
  "newOfflineEvent fmt p = envelope EventVehicleOffline (Some (JObj
     [(''vehicle_id'', JStr (vo_VehicleID p)), (''last_seen_at'', JStr (fmt (vo_LastSeenAt p)))]))"

definition newOnlineEvent :: "VehicleOnlinePayload \<Rightarrow> json" where
  "newOnlineEvent p = envelope EventVehicleOnline (Some (JObj [(''vehicle_id'', JStr (vn_VehicleID p))]))"

definition newDeviationEvent :: "VehicleDeviationPayload \<Rightarrow> json" where
  "newDeviationEvent p = envelope EventVehicleDeviation (Some (JObj
     [(''vehicle_id'', JStr (vd_VehicleID p)), (''trip_id'', JStr (vd_TripID p)),
      (''deviation_km'', JNum (vd_DeviationKm p))]))"

definition newStopArrivedEvent :: "(time \<Rightarrow> string) \<Rightarrow> StopArrivedPayload \<Rightarrow> json" where
  "newStopArrivedEvent fmt p = envelope EventStopArrived (Some (JObj
     [(''vehicle_id'', JStr (sa_VehicleID p)), (''trip_id'', JStr (sa_TripID p)),
      (''stop_id'', JStr (sa_StopID p)), (''stop_name'', JStr (sa_StopName p)),
      (''arrived_at'', JStr (fmt (sa_ArrivedAt p)))]))"

definition newAlertResolvedEvent :: "(time \<Rightarrow> string) \<Rightarrow> AlertResolvedPayload \<Rightarrow> json" where
  "newAlertResolvedEvent fmt p = envelope EventAlertResolved (Some (JObj
     [(''alert_id'', JInt (ar_AlertID p)), (''vehicle_id'', JStr (ar_VehicleID p)),
      (''resolved_at'', JStr (fmt (ar_ResolvedAt p)))]))"

definition newPingEvent :: json where
  "newPingEvent = envelope EventPing None"

section \<open>client.go\<close>

record ws_client =
  cl_fleetID :: string
  cl_send :: "json chan"
  cl_done :: bool
  cl_pumping :: bool

definition sendBufferSize :: nat where "sendBufferSize = 256"

definition newClient :: "string \<Rightarrow> ws_client" where
  "newClient fleetID =
     \<lparr>cl_fleetID = fleetID, cl_send = \<lparr>cbuf = [], ccap = sendBufferSize, cclosed = False\<rparr>, cl_done = False,
      cl_pumping = True\<rparr>"

text \<open>\<open>Some (ok, c)\<close>; \<open>None\<close> is the panic of a send on a closed channel.\<close>

definition enqueue :: "json \<Rightarrow> ws_client \<Rightarrow> (bool \<times> ws_client) option" where
  "enqueue msg c =
     (case ch_send msg (cl_send c) of
        Sent ch \<Rightarrow> Some (True, c\<lparr>cl_send := ch\<rparr>)
      | WouldBlock \<Rightarrow> Some (False, c)
      | SendPanic \<Rightarrow> None)"

text \<open>One round of \<open>writePump\<close>: the case that \<open>select\<close> takes and whether the writes of that case
  succeed. The result holds what has been written to the connection; \<open>None\<close>: the case is not ready.
  \<open>cl_pumping\<close> is false once the loop has returned.\<close>

datatype pump_case = PumpSend bool | PumpTick bool bool | PumpDone

fun writePump :: "pump_case \<Rightarrow> ws_client \<Rightarrow> json list \<Rightarrow> (ws_client \<times> json list) option" where
  "writePump (PumpSend ok) c w =
     (case ch_recv (cl_send c) of
        Received msg ch \<Rightarrow>
          if ok then Some (c\<lparr>cl_send := ch\<rparr>, w @ [msg])
          else Some (c\<lparr>cl_send := ch, cl_pumping := False\<rparr>, w)
      | RecvClosed \<Rightarrow> Some (c\<lparr>cl_pumping := False\<rparr>, w)
      | RecvEmpty \<Rightarrow> None)"
| "writePump (PumpTick ping_ok text_ok) c w =
     (if \<not> ping_ok then Some (c\<lparr>cl_pumping := False\<rparr>, w)
      else if \<not> text_ok then Some (c\<lparr>cl_pumping := False\<rparr>, w)
      else Some (c, w @ [newPingEvent]))"
| "writePump PumpDone c w = (if cl_done c then Some (c\<lparr>cl_pumping := False\<rparr>, w) else None)"

section \<open>hub.go\<close>

record fleetSubscription =
  fs_clients :: "nat list"
  fs_telemetrySub :: string
  fs_alertsSub :: string

record hub =
  hub_heap :: "nat \<rightharpoonup> ws_client"
  hub_register :: "nat chan"
  hub_unregister :: "nat chan"
  hub_broadcast :: "(string \<times> json) chan"
  hub_fleets :: "string \<rightharpoonup> fleetSubscription"
  hub_subs :: "string set"
  hub_running :: bool
  hub_sent :: "(string \<times> json) list"
  hub_written :: "nat \<Rightarrow> json list"

definition NewHub :: hub where
  "NewHub = \<lparr>hub_heap = Map.empty,
     hub_register = \<lparr>cbuf = [], ccap = 64, cclosed = False\<rparr>,
     hub_unregister = \<lparr>cbuf = [], ccap = 64, cclosed = False\<rparr>,
     hub_broadcast = \<lparr>cbuf = [], ccap = 1024, cclosed = False\<rparr>,
     hub_fleets = Map.empty, hub_subs = {}, hub_running = True, hub_sent = [], hub_written = (\<lambda>_. [])\<rparr>"

text \<open>\<open>ServeWS\<close>: the answer before the upgrade, \<open>None\<close> for a request that may connect.\<close>

definition http_Error :: "nat \<Rightarrow> string \<Rightarrow> response" where
  "http_Error status msg = \<lparr>resp_status = status, resp_ctype = ''text/plain; charset=utf-8'',
     resp_body = JObj [(''error'', JStr msg)]\<rparr>"

definition ServeWS ::
  "(string \<Rightarrow> 's \<Rightarrow> (string \<times> bool) \<times> 's) \<Rightarrow> http_request \<Rightarrow> 's \<Rightarrow> response option \<times> 's" where
  "ServeWS fleetID rq s =
     (let f = hr_query rq ''fleet_id''; token = hr_query rq ''token'' in
      if f = [] then (Some (http_Error StatusBadRequest ''fleet_id query parameter required''), s)
      else case fleetID token s of
             ((g, ok), s') \<Rightarrow>
               if \<not> ok \<or> g = [] \<or> g \<noteq> f
               then (Some (http_Error StatusUnauthorized ''invalid or missing token''), s')
               else (None, s'))"

definition close_send :: "nat \<Rightarrow> hub \<Rightarrow> hub option" where
  "close_send c h =
     (case hub_heap h c of
        None \<Rightarrow> None
      | Some cl \<Rightarrow>
          (case ch_close (cl_send cl) of
             None \<Rightarrow> None
           | Some ch \<Rightarrow> Some (h\<lparr>hub_heap := (hub_heap h)(c \<mapsto> cl\<lparr>cl_send := ch\<rparr>)\<rparr>)))"

text \<open>\<open>hub_subs\<close> holds the Redis channels the hub is subscribed to.\<close>

definition startFleetSubscriptions :: "string \<Rightarrow> hub \<Rightarrow> fleetSubscription \<times> hub" where
  "startFleetSubscriptions f h =
     (let t = ''fleet:'' @ f @ '':telemetry''; a = ''fleet:'' @ f @ '':alerts'' in
      (\<lparr>fs_clients = [], fs_telemetrySub = t, fs_alertsSub = a\<rparr>, h\<lparr>hub_subs := hub_subs h \<union> {t, a}\<rparr>))"

definition close_subs :: "fleetSubscription \<Rightarrow> hub \<Rightarrow> hub" where
  "close_subs fs h = h\<lparr>hub_subs := hub_subs h - {fs_telemetrySub fs, fs_alertsSub fs}\<rparr>"

text \<open>A client that is not in the heap stands for a nil pointer.\<close>

definition addClient :: "nat \<Rightarrow> hub \<Rightarrow> hub option" where
  "addClient c h =
     (case hub_heap h c of
        None \<Rightarrow> None
      | Some cl \<Rightarrow>
          (let (fleet, h1) = (case hub_fleets h (cl_fleetID cl) of
                                None \<Rightarrow> startFleetSubscriptions (cl_fleetID cl) h
                              | Some fs \<Rightarrow> (fs, h))
           in Some (h1\<lparr>hub_fleets := (hub_fleets h1)(cl_fleetID cl \<mapsto>
                   fleet\<lparr>fs_clients := List.insert c (fs_clients fleet)\<rparr>)\<rparr>)))"

definition removeClient :: "nat \<Rightarrow> hub \<Rightarrow> hub option" where
  "removeClient c h =
     (case hub_heap h c of
        None \<Rightarrow> None
      | Some cl \<Rightarrow>
          (case hub_fleets h (cl_fleetID cl) of
             None \<Rightarrow> Some h
           | Some fleet \<Rightarrow>
               (let rest = remove1 c (fs_clients fleet)
                in case (if c \<in> set (fs_clients fleet) then close_send c h else Some h) of
                     None \<Rightarrow> None
                   | Some h1 \<Rightarrow>
                       Some (if rest = []
                             then (close_subs fleet h1)\<lparr>hub_fleets := (hub_fleets h1)(cl_fleetID cl := None)\<rparr>
                             else h1\<lparr>hub_fleets := (hub_fleets h1)(cl_fleetID cl \<mapsto>
                                        fleet\<lparr>fs_clients := rest\<rparr>)\<rparr>))))"

fun fanOut_clients :: "string \<Rightarrow> json \<Rightarrow> nat list \<Rightarrow> hub \<Rightarrow> hub option" where
  "fanOut_clients f msg [] h = Some h"
| "fanOut_clients f msg (c # cs) h =
     (case hub_heap h c of
        None \<Rightarrow> None
      | Some cl \<Rightarrow>
          (case enqueue msg cl of
             None \<Rightarrow> None
           | Some (True, cl') \<Rightarrow> fanOut_clients f msg cs (h\<lparr>hub_heap := (hub_heap h)(c \<mapsto> cl')\<rparr>)
           | Some (False, cl') \<Rightarrow>
               (case close_send c (h\<lparr>hub_fleets := (hub_fleets h)
                        (f := map_option (\<lambda>fs. fs\<lparr>fs_clients := remove1 c (fs_clients fs)\<rparr>) (hub_fleets h f))\<rparr>) of
                  None \<Rightarrow> None
                | Some h' \<Rightarrow> fanOut_clients f msg cs h')))"

definition fanOut :: "string \<times> json \<Rightarrow> hub \<Rightarrow> hub option" where
  "fanOut msg h =
     (case hub_fleets h (fst msg) of
        None \<Rightarrow> Some h
      | Some fleet \<Rightarrow> fanOut_clients (fst msg) (snd msg) (fs_clients fleet) h)"

fun close_all :: "nat list \<Rightarrow> hub \<Rightarrow> hub option" where
  "close_all [] h = Some h"
| "close_all (c # cs) h = (case close_send c h of None \<Rightarrow> None | Some h' \<Rightarrow> close_all cs h')"

text \<open>\<open>shutdown\<close> over the fleets of the hub, given as a list of their names.\<close>

fun shutdown :: "string list \<Rightarrow> hub \<Rightarrow> hub option" where
  "shutdown [] h = Some (h\<lparr>hub_running := False\<rparr>)"
| "shutdown (f # fs) h =
     (case hub_fleets h f of
        None \<Rightarrow> shutdown fs h
      | Some fleet \<Rightarrow>
          (case close_all (fs_clients fleet) (close_subs fleet h) of
             None \<Rightarrow> None
           | Some h' \<Rightarrow> shutdown fs (h'\<lparr>hub_fleets := (hub_fleets h')(f := None)\<rparr>)))"

definition broadcastEvent :: "string \<Rightarrow> json \<Rightarrow> hub \<Rightarrow> hub" where
  "broadcastEvent f evt h =
     (case Marshal evt of
        None \<Rightarrow> h
      | Some data \<Rightarrow>
          (case ch_send (f, data) (hub_broadcast h) of
             Sent ch \<Rightarrow> h\<lparr>hub_broadcast := ch, hub_sent := hub_sent h @ [(f, data)]\<rparr>
           | _ \<Rightarrow> h))"

definition BroadcastOffline :: "(time \<Rightarrow> string) \<Rightarrow> string \<Rightarrow> VehicleOfflinePayload \<Rightarrow> hub \<Rightarrow> hub" where
  "BroadcastOffline fmt f payload h = broadcastEvent f (newOfflineEvent fmt payload) h"

definition BroadcastOnline :: "string \<Rightarrow> VehicleOnlinePayload \<Rightarrow> hub \<Rightarrow> hub" where
  "BroadcastOnline f payload h = broadcastEvent f (newOnlineEvent payload) h"

definition BroadcastDeviation :: "string \<Rightarrow> VehicleDeviationPayload \<Rightarrow> hub \<Rightarrow> hub" where
  "BroadcastDeviation f payload h = broadcastEvent f (newDeviationEvent payload) h"

definition BroadcastStopArrived :: "(time \<Rightarrow> string) \<Rightarrow> string \<Rightarrow> StopArrivedPayload \<Rightarrow> hub \<Rightarrow> hub" where
  "BroadcastStopArrived fmt f payload h = broadcastEvent f (newStopArrivedEvent fmt payload) h"

definition BroadcastAlertResolved :: "(time \<Rightarrow> string) \<Rightarrow> string \<Rightarrow> AlertResolvedPayload \<Rightarrow> hub \<Rightarrow> hub" where
  "BroadcastAlertResolved fmt f payload h = broadcastEvent f (newAlertResolvedEvent fmt payload) h"

declare BroadcastOffline_def [simp] BroadcastOnline_def [simp] BroadcastDeviation_def [simp] BroadcastStopArrived_def [simp]
  BroadcastAlertResolved_def [simp]

definition ClientCount :: "string \<Rightarrow> hub \<Rightarrow> nat" where
  "ClientCount f h = (case hub_fleets h f of None \<Rightarrow> 0 | Some fleet \<Rightarrow> length (fs_clients fleet))"

text \<open>The message \<open>drainTelemetry\<close> puts on the broadcast channel for a published payload; \<open>None\<close>: the
  payload is skipped.\<close>

definition set_position :: "string \<Rightarrow> json \<Rightarrow> VehiclePositionPayload \<times> int \<Rightarrow> (VehiclePositionPayload \<times> int) option" where
  "set_position k v s =
     (if names_field k ''vehicle_id'' then set_string (\<lambda>x (p, t). (p\<lparr>vp_VehicleID := x\<rparr>, t)) v s
      else if names_field k ''lat'' then set_float (\<lambda>x (p, t). (p\<lparr>vp_Lat := x\<rparr>, t)) v s
      else if names_field k ''lng'' then set_float (\<lambda>x (p, t). (p\<lparr>vp_Lng := x\<rparr>, t)) v s
      else if names_field k ''speed_kmh'' then set_float (\<lambda>x (p, t). (p\<lparr>vp_SpeedKmh := x\<rparr>, t)) v s
      else if names_field k ''is_moving'' then set_bool (\<lambda>x (p, t). (p\<lparr>vp_IsMoving := x\<rparr>, t)) v s
      else if names_field k ''engine_on'' then set_bool (\<lambda>x (p, t). (p\<lparr>vp_EngineOn := x\<rparr>, t)) v s
      else if names_field k ''received_at'' then set_int (\<lambda>x (p, t). (p, x)) v s
      else Some s)"

definition drainTelemetry :: "(time \<Rightarrow> string) \<Rightarrow> string \<Rightarrow> json \<Rightarrow> (string \<times> json) option" where
  "drainTelemetry fmt f payload =
     (case decode_struct set_position payload
         (\<lparr>vp_VehicleID = [], vp_Lat = Fin 0, vp_Lng = Fin 0, vp_SpeedKmh = Fin 0, vp_IsMoving = False,
           vp_EngineOn = False, vp_ReceivedAt = 0\<rparr>, 0) of
        None \<Rightarrow> None
      | Some (p, t) \<Rightarrow>
          map_option (\<lambda>data. (f, data)) (Marshal (newPositionEvent fmt (p\<lparr>vp_ReceivedAt := time_Unix t\<rparr>))))"

definition set_alert :: "string \<Rightarrow> json \<Rightarrow> VehicleAlertPayload \<times> int \<Rightarrow> (VehicleAlertPayload \<times> int) option" where
  "set_alert k v s =
     (if names_field k ''vehicle_id'' then set_string (\<lambda>x (p, t). (p\<lparr>va_VehicleID := x\<rparr>, t)) v s
      else if names_field k ''alert_type'' then set_string (\<lambda>x (p, t). (p\<lparr>va_AlertType := x\<rparr>, t)) v s
      else if names_field k ''severity'' then set_string (\<lambda>x (p, t). (p\<lparr>va_Severity := x\<rparr>, t)) v s
      else if names_field k ''value'' then set_float (\<lambda>x (p, t). (p\<lparr>va_TriggeredValue := x\<rparr>, t)) v s
      else if names_field k ''triggered_at'' then set_int (\<lambda>x (p, t). (p, x)) v s
      else Some s)"

definition drainAlerts :: "(time \<Rightarrow> string) \<Rightarrow> string \<Rightarrow> json \<Rightarrow> (string \<times> json) option" where
  "drainAlerts fmt f payload =
     (case decode_struct set_alert payload
         (\<lparr>va_AlertID = 0, va_VehicleID = [], va_AlertType = [], va_Severity = [], va_TriggeredValue = Fin 0,
           va_CreatedAt = 0\<rparr>, 0) of
        None \<Rightarrow> None
      | Some (p, t) \<Rightarrow>
          map_option (\<lambda>data. (f, data)) (Marshal (newAlertEvent fmt (p\<lparr>va_CreatedAt := time_Unix t\<rparr>))))"

section \<open>The hub with its environment\<close>

text \<open>The four cases of \<open>Run\<close>; \<open>None\<close> in the target would be a panic.\<close>

inductive run_case :: "hub \<Rightarrow> hub option \<Rightarrow> bool" where
  register: "hub_running h \<Longrightarrow> ch_recv (hub_register h) = Received c ch \<Longrightarrow>
    run_case h (addClient c (h\<lparr>hub_register := ch\<rparr>))"
| unregister: "hub_running h \<Longrightarrow> ch_recv (hub_unregister h) = Received c ch \<Longrightarrow>
    run_case h (removeClient c (h\<lparr>hub_unregister := ch\<rparr>))"
| broadcast: "hub_running h \<Longrightarrow> ch_recv (hub_broadcast h) = Received msg ch \<Longrightarrow>
    run_case h (fanOut msg (h\<lparr>hub_broadcast := ch\<rparr>))"
| ctx_done: "hub_running h \<Longrightarrow> distinct fs \<Longrightarrow> set fs = dom (hub_fleets h) \<Longrightarrow> run_case h (shutdown fs h)"

text \<open>The environment: an upgraded connection registers its new client; a client goes away once
  (\<open>Client.close\<close>), after it was put on the register channel; a broadcaster sends; a write pump
  takes a message.\<close>

inductive env_case :: "hub \<Rightarrow> hub \<Rightarrow> bool" where
  connect: "hub_heap h c = None \<Longrightarrow> ch_send c (hub_register h) = Sent ch \<Longrightarrow>
    env_case h (h\<lparr>hub_heap := (hub_heap h)(c \<mapsto> newClient f), hub_register := ch\<rparr>)"
| client_close: "hub_heap h c = Some cl \<Longrightarrow> \<not> cl_done cl \<Longrightarrow> ch_send c (hub_unregister h) = Sent ch \<Longrightarrow>
    env_case h (h\<lparr>hub_heap := (hub_heap h)(c \<mapsto> cl\<lparr>cl_done := True\<rparr>), hub_unregister := ch\<rparr>)"
| send_event: "env_case h (broadcastEvent f evt h)"
| drain_event: "drainTelemetry fmt f payload = Some msg \<or> drainAlerts fmt f payload = Some msg \<Longrightarrow>
    ch_send msg (hub_broadcast h) = Sent ch \<Longrightarrow>
    env_case h (h\<lparr>hub_broadcast := ch, hub_sent := hub_sent h @ [msg]\<rparr>)"
| write_pump: "hub_heap h c = Some cl \<Longrightarrow> cl_pumping cl \<Longrightarrow>
    writePump pc cl (hub_written h c) = Some (cl', w) \<Longrightarrow>
    env_case h (h\<lparr>hub_heap := (hub_heap h)(c \<mapsto> cl'), hub_written := (hub_written h)(c := w)\<rparr>)"

inductive hub_reachable :: "hub \<Rightarrow> bool" where
  start: "hub_reachable NewHub"
| run: "hub_reachable h \<Longrightarrow> run_case h (Some h') \<Longrightarrow> hub_reachable h'"
| env: "hub_reachable h \<Longrightarrow> env_case h h' \<Longrightarrow> hub_reachable h'"

section \<open>The invariant\<close>

text \<open>The clients of a fleet are distinct, belong to it and have an open queue; a client waiting to be
  registered is in no fleet yet and has an open queue.\<close>

definition fleets_ok :: "hub \<Rightarrow> bool" where
  "fleets_ok h \<longleftrightarrow>
     (\<forall>f fs. hub_fleets h f = Some fs \<longrightarrow> distinct (fs_clients fs) \<and>
        (\<forall>c\<in>set (fs_clients fs). \<exists>cl. hub_heap h c = Some cl \<and> cl_fleetID cl = f \<and> \<not> cclosed (cl_send cl)))"

definition waiting_ok :: "hub \<Rightarrow> bool" where
  "waiting_ok h \<longleftrightarrow>
     distinct (cbuf (hub_register h)) \<and>
     (\<forall>c\<in>set (cbuf (hub_register h)).
        (\<exists>cl. hub_heap h c = Some cl \<and> \<not> cclosed (cl_send cl)) \<and>
        (\<forall>f fs. hub_fleets h f = Some fs \<longrightarrow> c \<notin> set (fs_clients fs))) \<and>
     (\<forall>c\<in>set (cbuf (hub_unregister h)). hub_heap h c \<noteq> None)"

text \<open>Everything queued for a client was broadcast to its fleet, and so was everything written to it,
  the keep-alive events apart.\<close>

definition own_fleet :: "hub \<Rightarrow> bool" where
  "own_fleet h \<longleftrightarrow>
     (\<forall>c cl. hub_heap h c = Some cl \<longrightarrow>
        (\<forall>d\<in>set (cbuf (cl_send cl)). (cl_fleetID cl, d) \<in> set (hub_sent h)) \<and>
        (\<forall>d\<in>set (hub_written h c). d = newPingEvent \<or> (cl_fleetID cl, d) \<in> set (hub_sent h))) \<and>
     (\<forall>c. hub_heap h c = None \<longrightarrow> hub_written h c = []) \<and>
     set (cbuf (hub_broadcast h)) \<subseteq> set (hub_sent h)"

text \<open>The hub is subscribed to the two channels of each fleet in its map and to nothing else.\<close>

definition fleet_channels :: "string \<Rightarrow> string set" where
  "fleet_channels f = {''fleet:'' @ f @ '':telemetry'', ''fleet:'' @ f @ '':alerts''}"

definition subs_ok :: "hub \<Rightarrow> bool" where
  "subs_ok h \<longleftrightarrow> hub_subs h = (\<Union>f\<in>dom (hub_fleets h). fleet_channels f) \<and>
     (\<forall>f fs. hub_fleets h f = Some fs \<longrightarrow> {fs_telemetrySub fs, fs_alertsSub fs} = fleet_channels f)"

definition hub_inv :: "hub \<Rightarrow> bool" where
  "hub_inv h \<longleftrightarrow> fleets_ok h \<and> waiting_ok h \<and> own_fleet h \<and> subs_ok h"

lemmas hub_inv_defs = hub_inv_def fleets_ok_def waiting_ok_def own_fleet_def subs_ok_def

lemma send_ok: "ch_send x ch = Sent ch' \<longleftrightarrow> \<not> cclosed ch \<and> length (cbuf ch) < ccap ch \<and> ch' = ch\<lparr>cbuf := cbuf ch @ [x]\<rparr>"
  by (auto simp: ch_send_def)

lemma recv_ok: "ch_recv ch = Received x ch' \<longleftrightarrow> (\<exists>xs. cbuf ch = x # xs \<and> ch' = ch\<lparr>cbuf := xs\<rparr>)"
  by (auto simp: ch_recv_def split: list.splits)

lemma fleets_okD:
  assumes "fleets_ok h" "hub_fleets h f = Some fs"
  shows "distinct (fs_clients fs)"
    "\<And>c. c \<in> set (fs_clients fs) \<Longrightarrow> \<exists>cl. hub_heap h c = Some cl \<and> cl_fleetID cl = f \<and> \<not> cclosed (cl_send cl)"
  using assms by (auto simp: fleets_ok_def)

lemma own_fleetD:
  assumes "own_fleet h" "hub_heap h c = Some cl"
  shows "d \<in> set (cbuf (cl_send cl)) \<Longrightarrow> (cl_fleetID cl, d) \<in> set (hub_sent h)"
    "d \<in> set (hub_written h c) \<Longrightarrow> d = newPingEvent \<or> (cl_fleetID cl, d) \<in> set (hub_sent h)"
  using assms by (auto simp: own_fleet_def)

lemma own_fleetD2:
  assumes "own_fleet h"
  shows "hub_heap h c = None \<Longrightarrow> hub_written h c = []"
    "m \<in> set (cbuf (hub_broadcast h)) \<Longrightarrow> m \<in> set (hub_sent h)"
  using assms by (auto simp: own_fleet_def)

lemma own_fleetI:
  assumes "\<And>c cl d. hub_heap h c = Some cl \<Longrightarrow> d \<in> set (cbuf (cl_send cl)) \<Longrightarrow> (cl_fleetID cl, d) \<in> set (hub_sent h)"
    "\<And>c cl d. hub_heap h c = Some cl \<Longrightarrow> d \<in> set (hub_written h c) \<Longrightarrow>
       d = newPingEvent \<or> (cl_fleetID cl, d) \<in> set (hub_sent h)"
    "\<And>c. hub_heap h c = None \<Longrightarrow> hub_written h c = []"
    "\<And>m. m \<in> set (cbuf (hub_broadcast h)) \<Longrightarrow> m \<in> set (hub_sent h)"
  shows "own_fleet h"
  unfolding own_fleet_def using assms by blast

lemma hub_inv_init: "hub_inv NewHub"
  by (simp add: hub_inv_defs NewHub_def)

subsection \<open>Fan-out\<close>

definition full :: "ws_client \<Rightarrow> bool" where
  "full cl \<longleftrightarrow> ccap (cl_send cl) \<le> length (cbuf (cl_send cl))"

definition offered :: "json \<Rightarrow> ws_client \<Rightarrow> ws_client" where
  "offered msg cl =
     (if full cl then cl\<lparr>cl_send := (cl_send cl)\<lparr>cclosed := True\<rparr>\<rparr>
      else cl\<lparr>cl_send := (cl_send cl)\<lparr>cbuf := cbuf (cl_send cl) @ [msg]\<rparr>\<rparr>)"

lemma offered_fleet [simp]: "cl_fleetID (offered msg cl) = cl_fleetID cl"
  by (simp add: offered_def)

definition offered_heap :: "json \<Rightarrow> nat list \<Rightarrow> (nat \<rightharpoonup> ws_client) \<Rightarrow> (nat \<rightharpoonup> ws_client)" where
  "offered_heap msg cs heap = (\<lambda>c. if c \<in> set cs then map_option (offered msg) (heap c) else heap c)"

definition keeps :: "(nat \<rightharpoonup> ws_client) \<Rightarrow> nat list \<Rightarrow> nat \<Rightarrow> bool" where
  "keeps heap cs c \<longleftrightarrow> c \<notin> set cs \<or> (\<forall>cl. heap c = Some cl \<longrightarrow> \<not> full cl)"

definition kept_fleet :: "(nat \<rightharpoonup> ws_client) \<Rightarrow> nat list \<Rightarrow> fleetSubscription \<Rightarrow> fleetSubscription" where
  "kept_fleet heap cs fs = fs\<lparr>fs_clients := filter (keeps heap cs) (fs_clients fs)\<rparr>"

lemma fanOut_clients_effect:
  assumes "distinct cs" "\<forall>c\<in>set cs. \<exists>cl. hub_heap h c = Some cl \<and> \<not> cclosed (cl_send cl)"
    and "\<And>fs. hub_fleets h f = Some fs \<Longrightarrow> distinct (fs_clients fs)"
  shows "fanOut_clients f msg cs h =
     Some (h\<lparr>hub_heap := offered_heap msg cs (hub_heap h),
             hub_fleets := (hub_fleets h)(f := map_option (kept_fleet (hub_heap h) cs) (hub_fleets h f))\<rparr>)"
  using assms
proof (induction cs arbitrary: h)
  case Nil
  have "map_option (kept_fleet (hub_heap h) []) (hub_fleets h f) = hub_fleets h f"
    by (cases "hub_fleets h f") (simp_all add: kept_fleet_def keeps_def)
  then show ?case by (simp add: offered_heap_def fun_upd_idem)
next
  case (Cons c cs)
  obtain cl where cl: "hub_heap h c = Some cl" "\<not> cclosed (cl_send cl)" using Cons.prems(2) by auto
  show ?case
  proof (cases "full cl")
    case False
    let ?h = "h\<lparr>hub_heap := (hub_heap h)(c \<mapsto> offered msg cl)\<rparr>"
    have "fanOut_clients f msg (c # cs) h = fanOut_clients f msg cs ?h"
      using cl False by (simp add: enqueue_def ch_send_def full_def offered_def)
    also have "\<dots> = Some (?h\<lparr>hub_heap := offered_heap msg cs (hub_heap ?h),
        hub_fleets := (hub_fleets ?h)(f := map_option (kept_fleet (hub_heap ?h) cs) (hub_fleets ?h f))\<rparr>)"
      using Cons.prems by (intro Cons.IH) auto
    also have "offered_heap msg cs (hub_heap ?h) = offered_heap msg (c # cs) (hub_heap h)"
      using Cons.prems(1) cl by (auto simp: offered_heap_def)
    also have "kept_fleet (hub_heap ?h) cs = kept_fleet (hub_heap h) (c # cs)"
    proof -
      have "keeps (hub_heap ?h) cs x = keeps (hub_heap h) (c # cs) x" for x
        using Cons.prems(1) cl False by (cases "x = c") (simp_all add: keeps_def)
      then have "keeps (hub_heap ?h) cs = keeps (hub_heap h) (c # cs)" by (rule ext)
      then show ?thesis by (intro ext) (simp add: kept_fleet_def)
    qed
    finally show ?thesis by simp
  next
    case True
    let ?F = "(hub_fleets h)(f := map_option (\<lambda>fs. fs\<lparr>fs_clients := remove1 c (fs_clients fs)\<rparr>) (hub_fleets h f))"
    let ?h = "h\<lparr>hub_fleets := ?F, hub_heap := (hub_heap h)(c \<mapsto> offered msg cl)\<rparr>"
    have "fanOut_clients f msg (c # cs) h = fanOut_clients f msg cs ?h"
      using cl True by (simp add: enqueue_def ch_send_def full_def offered_def close_send_def ch_close_def)
    also have "\<dots> = Some (?h\<lparr>hub_heap := offered_heap msg cs (hub_heap ?h),
        hub_fleets := (hub_fleets ?h)(f := map_option (kept_fleet (hub_heap ?h) cs) (hub_fleets ?h f))\<rparr>)"
      using Cons.prems by (intro Cons.IH) (auto simp: distinct_remove1)
    also have "offered_heap msg cs (hub_heap ?h) = offered_heap msg (c # cs) (hub_heap h)"
      using Cons.prems(1) cl by (auto simp: offered_heap_def)
    also have "map_option (kept_fleet (hub_heap ?h) cs) (hub_fleets ?h f) =
        map_option (kept_fleet (hub_heap h) (c # cs)) (hub_fleets h f)"
    proof (cases "hub_fleets h f")
      case (Some fs)
      have "filter (keeps ((hub_heap h)(c \<mapsto> offered msg cl)) cs) (remove1 c (fs_clients fs)) =
            filter (keeps (hub_heap h) (c # cs)) (fs_clients fs)"
        using Cons.prems(1,3) Some cl True
        by (auto simp: distinct_remove1_removeAll removeAll_filter_not_eq keeps_def intro!: filter_cong)
      then show ?thesis using Some by (simp add: kept_fleet_def)
    qed simp
    also have "(hub_fleets ?h)(f := map_option (kept_fleet (hub_heap h) (c # cs)) (hub_fleets h f)) =
        (hub_fleets h)(f := map_option (kept_fleet (hub_heap h) (c # cs)) (hub_fleets h f))"
      by simp
    finally show ?thesis by simp
  qed
qed

text \<open>What \<open>fanOut\<close> does when the invariant holds: the clients of the fleet with room get the message;
  those without are closed and leave the fleet; nothing else changes.\<close>

lemma fanOut_effect:
  assumes "fleets_ok h"
  shows "fanOut (f, d) h =
     (case hub_fleets h f of
        None \<Rightarrow> Some h
      | Some fs \<Rightarrow> Some (h\<lparr>hub_heap := offered_heap d (fs_clients fs) (hub_heap h),
            hub_fleets := (hub_fleets h)(f \<mapsto> kept_fleet (hub_heap h) (fs_clients fs) fs)\<rparr>))"
proof (cases "hub_fleets h f")
  case (Some fs)
  then have "distinct (fs_clients fs)"
    "\<forall>c\<in>set (fs_clients fs). \<exists>cl. hub_heap h c = Some cl \<and> \<not> cclosed (cl_send cl)"
    using fleets_okD [OF assms Some] by blast+
  then show ?thesis using Some fanOut_clients_effect [of "fs_clients fs" h f d] by (simp add: fanOut_def)
qed (simp add: fanOut_def)

lemma in_one_fleet:
  "fleets_ok h \<Longrightarrow> hub_fleets h f = Some fs \<Longrightarrow> hub_fleets h g = Some gs \<Longrightarrow>
   c \<in> set (fs_clients fs) \<Longrightarrow> c \<in> set (fs_clients gs) \<Longrightarrow> f = g"
  by (metis fleets_okD(2) option.inject)

lemma kept_in:
  "c \<in> set (fs_clients (kept_fleet heap cs fs)) \<longleftrightarrow> c \<in> set (fs_clients fs) \<and> keeps heap cs c"
  by (auto simp: kept_fleet_def)

lemma fanOut_inv:
  assumes inv: "hub_inv h" and sent: "(f, d) \<in> set (hub_sent h)"
  shows "\<exists>h'. fanOut (f, d) h = Some h' \<and> hub_inv h'"
proof (cases "hub_fleets h f")
  case None
  then show ?thesis using inv by (simp add: fanOut_def)
next
  case (Some fs)
  let ?cs = "fs_clients fs"
  let ?h = "h\<lparr>hub_heap := offered_heap d ?cs (hub_heap h),
              hub_fleets := (hub_fleets h)(f \<mapsto> kept_fleet (hub_heap h) ?cs fs)\<rparr>"
  have ok: "fleets_ok h" "waiting_ok h" "own_fleet h" "subs_ok h" using inv by (simp_all add: hub_inv_def)
  note D = fleets_okD [OF ok(1)]
  have "fleets_ok ?h"
    unfolding fleets_ok_def
  proof (intro allI impI conjI ballI)
    fix g gs
    assume g: "hub_fleets ?h g = Some gs"
    show "distinct (fs_clients gs)"
      using g D Some by (auto simp: kept_fleet_def split: if_splits)
    fix c
    assume c: "c \<in> set (fs_clients gs)"
    then have "\<exists>gs'. hub_fleets h g = Some gs' \<and> c \<in> set (fs_clients gs')"
      using g Some by (auto simp: kept_in split: if_splits)
    then obtain gs' cl where "hub_fleets h g = Some gs'" "c \<in> set (fs_clients gs')"
      "hub_heap h c = Some cl" "cl_fleetID cl = g" "\<not> cclosed (cl_send cl)"
      using D by blast
    then show "\<exists>cl. hub_heap ?h c = Some cl \<and> cl_fleetID cl = g \<and> \<not> cclosed (cl_send cl)"
      using c g Some in_one_fleet [OF ok(1) Some, of g gs' c]
      by (cases "c \<in> set ?cs") (auto simp: offered_heap_def offered_def kept_in keeps_def)
  qed
  moreover have "waiting_ok ?h"
    using ok(2) Some by (auto simp: waiting_ok_def offered_heap_def kept_in split: if_splits)
  moreover have "own_fleet ?h"
  proof (rule own_fleetI)
    fix c cl x
    assume c: "hub_heap ?h c = Some cl"
    then obtain old where old: "hub_heap h c = Some old" "cl = (if c \<in> set ?cs then offered d old else old)"
      by (auto simp: offered_heap_def split: if_splits)
    show "(cl_fleetID cl, x) \<in> set (hub_sent ?h)" if "x \<in> set (cbuf (cl_send cl))"
      using that old sent D(2) [OF Some, of c] own_fleetD(1) [OF ok(3) old(1), of x]
      by (auto simp: offered_def split: if_splits)
    show "x = newPingEvent \<or> (cl_fleetID cl, x) \<in> set (hub_sent ?h)" if "x \<in> set (hub_written ?h c)"
      using that old own_fleetD(2) [OF ok(3) old(1), of x] by simp
  next
    fix c
    assume "hub_heap ?h c = None"
    then show "hub_written ?h c = []"
      using own_fleetD2(1) [OF ok(3), of c] by (simp add: offered_heap_def split: if_splits)
  next
    fix m
    assume "m \<in> set (cbuf (hub_broadcast ?h))"
    then show "m \<in> set (hub_sent ?h)" using own_fleetD2(2) [OF ok(3)] by simp
  qed
  moreover have "subs_ok ?h"
    using ok(4) Some by (auto simp: subs_ok_def kept_fleet_def)
  ultimately show ?thesis using fanOut_effect [OF ok(1), of f d] Some by (simp add: hub_inv_def)
qed

subsection \<open>The other cases of the loop\<close>

lemma fleet_channels_disjoint: "f \<noteq> g \<Longrightarrow> fleet_channels f \<inter> fleet_channels g = {}"
proof -
  have "xs @ '':telemetry'' \<noteq> ys @ '':alerts''" for xs ys :: string
    using arg_cong [of "xs @ '':telemetry''" "ys @ '':alerts''" last] by auto
  moreover assume "f \<noteq> g"
  ultimately show ?thesis by (simp add: fleet_channels_def)
qed

lemma addClient_inv:
  assumes inv: "hub_inv h" and buf: "cbuf (hub_register h) = c # cs"
  shows "\<exists>h'. addClient c (h\<lparr>hub_register := (hub_register h)\<lparr>cbuf := cs\<rparr>\<rparr>) = Some h' \<and> hub_inv h'"
proof -
  have ok: "fleets_ok h" "waiting_ok h" "own_fleet h" "subs_ok h" using inv by (simp_all add: hub_inv_def)
  obtain cl where cl: "hub_heap h c = Some cl" "\<not> cclosed (cl_send cl)"
    "\<And>f fs. hub_fleets h f = Some fs \<Longrightarrow> c \<notin> set (fs_clients fs)" "c \<notin> set cs"
    using ok(2) buf by (auto simp: waiting_ok_def)
  let ?f = "cl_fleetID cl"
  let ?fs = "case hub_fleets h ?f of Some fs \<Rightarrow> fs
    | None \<Rightarrow> \<lparr>fs_clients = [], fs_telemetrySub = ''fleet:'' @ ?f @ '':telemetry'', fs_alertsSub = ''fleet:'' @ ?f @ '':alerts''\<rparr>"
  let ?h = "h\<lparr>hub_register := (hub_register h)\<lparr>cbuf := cs\<rparr>,
              hub_subs := hub_subs h \<union> fleet_channels ?f,
              hub_fleets := (hub_fleets h)(?f \<mapsto> ?fs\<lparr>fs_clients := List.insert c (fs_clients ?fs)\<rparr>)\<rparr>"
  have subs: "fleet_channels ?f \<subseteq> hub_subs h" if "hub_fleets h ?f = Some fs" for fs
    using ok(4) that by (auto simp: subs_ok_def)
  have "addClient c (h\<lparr>hub_register := (hub_register h)\<lparr>cbuf := cs\<rparr>\<rparr>) = Some ?h"
    using cl subs
    by (cases "hub_fleets h ?f")
       (simp_all add: addClient_def startFleetSubscriptions_def fleet_channels_def insert_absorb Un_absorb2 Let_def)
  moreover have "fleets_ok ?h"
    using fleets_okD [OF ok(1)] cl
    by (cases "hub_fleets h ?f") (auto simp: fleets_ok_def)
  moreover have "waiting_ok ?h"
    using ok(2) buf cl by (cases "hub_fleets h ?f") (auto simp: waiting_ok_def)
  moreover have "own_fleet ?h"
    using ok(3) by (simp add: own_fleet_def)
  moreover have "subs_ok ?h"
    using ok(4) by (cases "hub_fleets h ?f") (auto simp: subs_ok_def fleet_channels_def)
  ultimately show ?thesis by (auto simp: hub_inv_def)
qed

text \<open>Closing the queues of clients of one fleet that leave it.\<close>

definition closed_heap :: "nat list \<Rightarrow> (nat \<rightharpoonup> ws_client) \<Rightarrow> (nat \<rightharpoonup> ws_client)" where
  "closed_heap cs heap =
     (\<lambda>c. if c \<in> set cs then map_option (\<lambda>cl. cl\<lparr>cl_send := (cl_send cl)\<lparr>cclosed := True\<rparr>\<rparr>) (heap c) else heap c)"

lemma close_all_effect:
  "distinct cs \<Longrightarrow> \<forall>c\<in>set cs. \<exists>cl. hub_heap h c = Some cl \<and> \<not> cclosed (cl_send cl) \<Longrightarrow>
   close_all cs h = Some (h\<lparr>hub_heap := closed_heap cs (hub_heap h)\<rparr>)"
proof (induction cs arbitrary: h)
  case (Cons c cs)
  obtain cl where cl: "hub_heap h c = Some cl" "\<not> cclosed (cl_send cl)" using Cons.prems(2) by auto
  let ?h = "h\<lparr>hub_heap := (hub_heap h)(c \<mapsto> cl\<lparr>cl_send := (cl_send cl)\<lparr>cclosed := True\<rparr>\<rparr>)\<rparr>"
  have "close_all (c # cs) h = close_all cs ?h"
    using cl by (simp add: close_send_def ch_close_def)
  also have "\<dots> = Some (?h\<lparr>hub_heap := closed_heap cs (hub_heap ?h)\<rparr>)"
    using Cons.prems by (intro Cons.IH) auto
  also have "closed_heap cs (hub_heap ?h) = closed_heap (c # cs) (hub_heap h)"
    using Cons.prems(1) cl by (auto simp: closed_heap_def)
  finally show ?case by simp
qed (simp add: closed_heap_def)

text \<open>The invariant survives when some clients of a fleet are closed and the fleet keeps the others,
  or goes with its subscriptions.\<close>

lemma close_some_inv:
  assumes inv: "hub_inv h" and f: "hub_fleets h f = Some fs" "set cs \<subseteq> set (fs_clients fs)"
    and new: "new = None \<and> S = hub_subs h - fleet_channels f \<or>
       S = hub_subs h \<and> new = Some (fs\<lparr>fs_clients := rest\<rparr>) \<and> distinct rest \<and> set rest = set (fs_clients fs) - set cs"
  shows "hub_inv (h\<lparr>hub_heap := closed_heap cs (hub_heap h), hub_subs := S, hub_fleets := (hub_fleets h)(f := new)\<rparr>)"
    (is "hub_inv ?h")
proof -
  have ok: "fleets_ok h" "waiting_ok h" "own_fleet h" "subs_ok h" using inv by (simp_all add: hub_inv_def)
  note D = fleets_okD [OF ok(1)]
  have sub: "\<exists>gs'. hub_fleets h g = Some gs' \<and> set (fs_clients gs) \<subseteq> set (fs_clients gs') \<and>
      distinct (fs_clients gs) \<and> set (fs_clients gs) \<inter> set cs = {}"
    if g: "hub_fleets ?h g = Some gs" for g gs
  proof (cases "g = f")
    case True
    then show ?thesis using g new f by auto
  next
    case False
    then show ?thesis using g f D(1) in_one_fleet [OF ok(1) f(1)] by fastforce
  qed
  have "fleets_ok ?h"
    unfolding fleets_ok_def
  proof (intro allI impI conjI ballI)
    fix g gs
    assume g: "hub_fleets ?h g = Some gs"
    then obtain gs' where gs': "hub_fleets h g = Some gs'" "set (fs_clients gs) \<subseteq> set (fs_clients gs')"
      "distinct (fs_clients gs)" "set (fs_clients gs) \<inter> set cs = {}" using sub by blast
    then show "distinct (fs_clients gs)" by simp
    show "\<exists>cl. hub_heap ?h c = Some cl \<and> cl_fleetID cl = g \<and> \<not> cclosed (cl_send cl)"
      if "c \<in> set (fs_clients gs)" for c
      using gs' that D(2) [OF gs'(1), of c] by (auto simp: closed_heap_def)
  qed
  moreover have "waiting_ok ?h"
    unfolding waiting_ok_def
  proof (intro conjI ballI allI impI)
    show "distinct (cbuf (hub_register ?h))" using ok(2) by (simp add: waiting_ok_def)
    show "hub_heap ?h c \<noteq> None" if "c \<in> set (cbuf (hub_unregister ?h))" for c
      using ok(2) that by (simp add: waiting_ok_def closed_heap_def)
    fix c
    assume c: "c \<in> set (cbuf (hub_register ?h))"
    then show "\<exists>cl. hub_heap ?h c = Some cl \<and> \<not> cclosed (cl_send cl)"
      using ok(2) f by (auto simp: waiting_ok_def closed_heap_def)
    show "c \<notin> set (fs_clients gs)" if "hub_fleets ?h g = Some gs" for g gs
      using c ok(2) sub [OF that] by (auto simp: waiting_ok_def)
  qed
  moreover have "own_fleet ?h"
  proof (rule own_fleetI)
    fix c cl d
    assume "hub_heap ?h c = Some cl"
    then obtain old where old: "hub_heap h c = Some old" "cl_fleetID cl = cl_fleetID old"
      "cbuf (cl_send cl) = cbuf (cl_send old)"
      by (auto simp: closed_heap_def split: if_splits)
    show "(cl_fleetID cl, d) \<in> set (hub_sent ?h)" if "d \<in> set (cbuf (cl_send cl))"
      using that old own_fleetD(1) [OF ok(3) old(1), of d] by simp
    show "d = newPingEvent \<or> (cl_fleetID cl, d) \<in> set (hub_sent ?h)" if "d \<in> set (hub_written ?h c)"
      using that old own_fleetD(2) [OF ok(3) old(1), of d] by simp
  qed (use own_fleetD2 [OF ok(3)] in \<open>auto simp: closed_heap_def split: if_splits\<close>)
  moreover have "subs_ok ?h"
    using new
  proof
    assume *: "new = None \<and> S = hub_subs h - fleet_channels f"
    have "(\<Union>g\<in>dom (hub_fleets h). fleet_channels g) - fleet_channels f =
          (\<Union>g\<in>dom (hub_fleets h) - {f}. fleet_channels g)"
    proof -
      have "g = f" if "x \<in> fleet_channels g" "x \<in> fleet_channels f" for x g
        using fleet_channels_disjoint [of f g] that by auto
      then show ?thesis by auto
    qed
    then show ?thesis using * ok(4) by (auto simp: subs_ok_def)
  next
    assume "S = hub_subs h \<and> new = Some (fs\<lparr>fs_clients := rest\<rparr>) \<and> distinct rest \<and> set rest = set (fs_clients fs) - set cs"
    then show ?thesis using ok(4) f(1) by (auto simp: subs_ok_def)
  qed
  ultimately show ?thesis by (simp add: hub_inv_def)
qed

lemma hub_inv_register_only:
  "hub_inv h \<Longrightarrow> cbuf (hub_unregister h) = c # cs \<Longrightarrow> hub_inv (h\<lparr>hub_unregister := (hub_unregister h)\<lparr>cbuf := cs\<rparr>\<rparr>)"
  by (simp add: hub_inv_defs)

lemma close_subs_inv:
  "hub_inv h \<Longrightarrow> hub_fleets h f = Some fs \<Longrightarrow> {fs_telemetrySub fs, fs_alertsSub fs} = fleet_channels f"
  by (simp add: hub_inv_def subs_ok_def)

lemma removeClient_inv:
  assumes inv: "hub_inv h" and "hub_heap h c \<noteq> None"
  shows "\<exists>h'. removeClient c h = Some h' \<and> hub_inv h'"
proof -
  obtain cl where cl: "hub_heap h c = Some cl" using assms(2) by auto
  let ?f = "cl_fleetID cl"
  show ?thesis
  proof (cases "hub_fleets h ?f")
    case None
    then show ?thesis using cl inv by (simp add: removeClient_def)
  next
    case (Some fs)
    let ?cs = "if c \<in> set (fs_clients fs) then [c] else []"
    let ?rest = "remove1 c (fs_clients fs)"
    have D: "distinct (fs_clients fs)" "c \<in> set (fs_clients fs) \<Longrightarrow> \<not> cclosed (cl_send cl)"
      using fleets_okD(1) [of h ?f fs] fleets_okD(2) [of h ?f fs c] inv Some cl by (auto simp: hub_inv_def)
    have h1: "(if c \<in> set (fs_clients fs) then close_send c h else Some h) =
        Some (h\<lparr>hub_heap := closed_heap ?cs (hub_heap h)\<rparr>)"
    proof -
      have "closed_heap ?cs (hub_heap h) = (if c \<in> set (fs_clients fs)
          then (hub_heap h)(c \<mapsto> cl\<lparr>cl_send := (cl_send cl)\<lparr>cclosed := True\<rparr>\<rparr>) else hub_heap h)"
        using cl by (auto simp: closed_heap_def)
      then show ?thesis using cl D(2) by (simp add: close_send_def ch_close_def)
    qed
    let ?new = "if ?rest = [] then None else Some (fs\<lparr>fs_clients := ?rest\<rparr>)"
    let ?S = "if ?rest = [] then hub_subs h - fleet_channels ?f else hub_subs h"
    have "removeClient c h = Some (h\<lparr>hub_heap := closed_heap ?cs (hub_heap h), hub_subs := ?S,
        hub_fleets := (hub_fleets h)(?f := ?new)\<rparr>)"
      using cl Some close_subs_inv [OF inv Some] by (simp add: removeClient_def h1 close_subs_def)
    moreover have "hub_inv (h\<lparr>hub_heap := closed_heap ?cs (hub_heap h), hub_subs := ?S,
        hub_fleets := (hub_fleets h)(?f := ?new)\<rparr>)"
      using D(1) by (intro close_some_inv [OF inv Some, where rest = ?rest]) (auto simp: set_remove1_eq remove1_idem)
    ultimately show ?thesis by blast
  qed
qed

lemma shutdown_inv: "hub_inv h \<Longrightarrow> \<exists>h'. shutdown fs h = Some h' \<and> hub_inv h' \<and> \<not> hub_running h'"
proof (induction fs arbitrary: h)
  case Nil
  then show ?case by (simp add: hub_inv_defs)
next
  case (Cons f fs)
  show ?case
  proof (cases "hub_fleets h f")
    case None
    then show ?thesis using Cons by simp
  next
    case (Some fleet)
    let ?cs = "fs_clients fleet"
    let ?h = "h\<lparr>hub_heap := closed_heap ?cs (hub_heap h), hub_subs := hub_subs h - fleet_channels f,
                hub_fleets := (hub_fleets h)(f := None)\<rparr>"
    have "distinct ?cs" "\<forall>c\<in>set ?cs. \<exists>cl. hub_heap h c = Some cl \<and> \<not> cclosed (cl_send cl)"
      using fleets_okD [of h f fleet] Cons.prems Some by (auto simp: hub_inv_def)
    then have "close_all ?cs (close_subs fleet h) =
        Some (h\<lparr>hub_heap := closed_heap ?cs (hub_heap h), hub_subs := hub_subs h - fleet_channels f\<rparr>)"
      using close_subs_inv [OF Cons.prems Some] by (simp add: close_all_effect close_subs_def)
    then have "shutdown (f # fs) h = shutdown fs ?h" using Some by simp
    moreover have "hub_inv ?h" using Cons.prems Some by (intro close_some_inv) auto
    ultimately show ?thesis using Cons.IH by simp
  qed
qed

subsection \<open>Reachable hubs\<close>

lemma run_case_inv:
  assumes "hub_inv h" "run_case h r"
  shows "\<exists>h'. r = Some h' \<and> hub_inv h'"
  using assms(2)
proof cases
  case (register c ch)
  then show ?thesis using addClient_inv [OF assms(1)] by (auto simp: recv_ok)
next
  case (unregister c ch)
  then obtain cs where cs: "cbuf (hub_unregister h) = c # cs" "ch = (hub_unregister h)\<lparr>cbuf := cs\<rparr>"
    by (auto simp: recv_ok)
  then have "hub_heap h c \<noteq> None" using assms(1) by (simp add: hub_inv_def waiting_ok_def)
  then show ?thesis
    using removeClient_inv [OF hub_inv_register_only [OF assms(1) cs(1)]] cs unregister by simp
next
  case (broadcast msg ch)
  then obtain ms where ms: "cbuf (hub_broadcast h) = msg # ms" "ch = (hub_broadcast h)\<lparr>cbuf := ms\<rparr>"
    by (auto simp: recv_ok)
  have "hub_inv (h\<lparr>hub_broadcast := ch\<rparr>)" "msg \<in> set (hub_sent h)"
    using assms(1) ms by (simp_all add: hub_inv_defs)
  then show ?thesis using fanOut_inv [of "h\<lparr>hub_broadcast := ch\<rparr>" "fst msg" "snd msg"] broadcast by simp
next
  case (ctx_done fs)
  then show ?thesis using shutdown_inv [OF assms(1)] by blast
qed

lemma writePump_keeps:
  assumes "writePump pc cl w = Some (cl', w')"
  shows "cl_fleetID cl' = cl_fleetID cl" "cclosed (cl_send cl') = cclosed (cl_send cl)"
    "set (cbuf (cl_send cl')) \<subseteq> set (cbuf (cl_send cl))"
    "set w' \<subseteq> set w \<union> {newPingEvent} \<union> set (cbuf (cl_send cl))"
  using assms
  by (cases pc; auto simp: ch_recv_def split: list.splits if_splits recv_result.splits)+

lemma connect_inv:
  assumes inv: "hub_inv h" and new: "hub_heap h c = None"
  shows "hub_inv (h\<lparr>hub_heap := (hub_heap h)(c \<mapsto> newClient f),
                   hub_register := (hub_register h)\<lparr>cbuf := cbuf (hub_register h) @ [c]\<rparr>\<rparr>)" (is "hub_inv ?h")
proof -
  have ok: "fleets_ok h" "waiting_ok h" "own_fleet h" "subs_ok h" using inv by (simp_all add: hub_inv_def)
  have fresh: "c \<notin> set (fs_clients fs)" if "hub_fleets h g = Some fs" for g fs
    using fleets_okD(2) [OF ok(1) that, of c] new by auto
  have "fleets_ok ?h" using ok(1) fresh by (auto simp: fleets_ok_def)
  moreover have "waiting_ok ?h" using ok(2) fresh new by (auto simp: waiting_ok_def newClient_def)
  moreover have "own_fleet ?h" using ok(3) new by (auto simp: own_fleet_def newClient_def)
  moreover have "subs_ok ?h" using ok(4) by (simp add: subs_ok_def)
  ultimately show ?thesis by (simp add: hub_inv_def)
qed

text \<open>A client's own steps: it stays in its fleet with an open queue.\<close>

lemma client_step_inv:
  assumes inv: "hub_inv h" and c: "hub_heap h c = Some cl"
    and new: "cl_fleetID cl' = cl_fleetID cl" "cclosed (cl_send cl') = cclosed (cl_send cl)"
      "set (cbuf (cl_send cl')) \<subseteq> set (cbuf (cl_send cl))"
      "set w \<subseteq> set (hub_written h c) \<union> {newPingEvent} \<union> set (cbuf (cl_send cl))"
    and u: "set (cbuf u) \<subseteq> insert c (set (cbuf (hub_unregister h)))"
  shows "hub_inv (h\<lparr>hub_heap := (hub_heap h)(c \<mapsto> cl'), hub_unregister := u,
                   hub_written := (hub_written h)(c := w)\<rparr>)" (is "hub_inv ?h")
proof -
  have ok: "fleets_ok h" "waiting_ok h" "own_fleet h" "subs_ok h" using inv by (simp_all add: hub_inv_def)
  have "fleets_ok ?h"
    unfolding fleets_ok_def
  proof (intro allI impI conjI ballI)
    fix f fs
    assume f: "hub_fleets ?h f = Some fs"
    then show "distinct (fs_clients fs)" using fleets_okD(1) [OF ok(1), of f fs] by simp
    show "\<exists>xl. hub_heap ?h x = Some xl \<and> cl_fleetID xl = f \<and> \<not> cclosed (cl_send xl)"
      if "x \<in> set (fs_clients fs)" for x
      using f that fleets_okD(2) [OF ok(1), of f fs x] c new by auto
  qed
  moreover have "waiting_ok ?h"
    unfolding waiting_ok_def
  proof (intro conjI ballI)
    show "distinct (cbuf (hub_register ?h))" using ok(2) by (simp add: waiting_ok_def)
    show "hub_heap ?h x \<noteq> None" if "x \<in> set (cbuf (hub_unregister ?h))" for x
      using ok(2) that u c by (auto simp: waiting_ok_def)
    fix x
    assume "x \<in> set (cbuf (hub_register ?h))"
    then have x: "\<exists>xl. hub_heap h x = Some xl \<and> \<not> cclosed (cl_send xl)"
        "\<forall>f fs. hub_fleets h f = Some fs \<longrightarrow> x \<notin> set (fs_clients fs)"
      using ok(2) by (auto simp: waiting_ok_def)
    show "\<exists>xl. hub_heap ?h x = Some xl \<and> \<not> cclosed (cl_send xl)" using x(1) c new(2) by auto
    show "\<forall>f fs. hub_fleets ?h f = Some fs \<longrightarrow> x \<notin> set (fs_clients fs)" using x(2) by simp
  qed
  moreover have "own_fleet ?h"
  proof (rule own_fleetI)
    fix x xl d
    assume x: "hub_heap ?h x = Some xl"
    show "(cl_fleetID xl, d) \<in> set (hub_sent ?h)" if "d \<in> set (cbuf (cl_send xl))"
      using x that c new own_fleetD(1) [OF ok(3), of x _ d] by (cases "x = c") auto
    show "d = newPingEvent \<or> (cl_fleetID xl, d) \<in> set (hub_sent ?h)" if "d \<in> set (hub_written ?h x)"
      using x that c new own_fleetD [OF ok(3), of x _ d] by (cases "x = c") auto
  qed (use own_fleetD2 [OF ok(3)] in \<open>auto split: if_splits\<close>)
  moreover have "subs_ok ?h" using ok(4) by (simp add: subs_ok_def)
  ultimately show ?thesis by (simp add: hub_inv_def)
qed

lemma send_inv:
  "hub_inv h \<Longrightarrow> hub_inv (h\<lparr>hub_broadcast := (hub_broadcast h)\<lparr>cbuf := cbuf (hub_broadcast h) @ [m]\<rparr>,
                           hub_sent := hub_sent h @ [m]\<rparr>)"
  by (auto simp: hub_inv_def fleets_ok_def waiting_ok_def subs_ok_def intro!: own_fleetI
      dest: own_fleetD own_fleetD2)

lemma env_case_inv:
  assumes "hub_inv h" "env_case h h'"
  shows "hub_inv h'"
  using assms(2)
proof cases
  case (connect c ch f)
  then show ?thesis using connect_inv [OF assms(1)] by (simp add: send_ok)
next
  case (client_close c cl ch)
  have "hub_inv (h\<lparr>hub_heap := (hub_heap h)(c \<mapsto> cl\<lparr>cl_done := True\<rparr>), hub_unregister := ch,
                   hub_written := (hub_written h)(c := hub_written h c)\<rparr>)"
    using client_close assms(1) by (intro client_step_inv [of h c cl]) (auto simp: send_ok)
  then show ?thesis using client_close by simp
next
  case (send_event f evt)
  then show ?thesis using send_inv [OF assms(1)] assms(1)
    by (auto simp: broadcastEvent_def send_ok split: option.splits send_result.splits)
next
  case (drain_event fmt f payload msg ch)
  then show ?thesis using send_inv [OF assms(1)] by (simp add: send_ok)
next
  case (write_pump c cl pc cl' w)
  then have "hub_inv (h\<lparr>hub_heap := (hub_heap h)(c \<mapsto> cl'), hub_unregister := hub_unregister h,
                   hub_written := (hub_written h)(c := w)\<rparr>)"
    using assms(1) writePump_keeps [of pc cl "hub_written h c" cl' w]
    by (intro client_step_inv [of h c cl]) auto
  then show ?thesis using write_pump by simp
qed

lemma reachable_inv: "hub_reachable h \<Longrightarrow> hub_inv h"
proof (induction rule: hub_reachable.induct)
  case (run h h')
  then show ?case using run_case_inv by blast
qed (auto simp: hub_inv_init env_case_inv)

section \<open>Properties\<close>

text \<open>C16. The hub never panics: in every interleaving of connections, disconnections, broadcasts, evictions
  and the shutdown, each case of the loop completes, so no channel is closed twice and nothing is sent
  on a closed one; and the hub stays subscribed to the two Redis channels of exactly the fleets in its map.\<close>

theorem hub_never_panics:
  assumes "hub_reachable h" "run_case h r"
  shows "\<exists>h'. r = Some h' \<and> hub_subs h' = (\<Union>f\<in>dom (hub_fleets h'). fleet_channels f)"
  using run_case_inv [OF reachable_inv [OF assms(1)] assms(2)] by (auto simp: hub_inv_def subs_ok_def)

definition hub_one :: hub where
  "hub_one = NewHub\<lparr>hub_heap := [1 \<mapsto> newClient ''FLEET-A''],
     hub_register := \<lparr>cbuf = [1], ccap = 64, cclosed = False\<rparr>\<rparr>"

lemma hub_one_reachable: "hub_reachable hub_one"
proof -
  have "env_case NewHub (NewHub\<lparr>hub_heap := (hub_heap NewHub)(1 \<mapsto> newClient ''FLEET-A''),
      hub_register := \<lparr>cbuf = [1], ccap = 64, cclosed = False\<rparr>\<rparr>)"
    by (rule env_case.connect) (simp_all add: NewHub_def ch_send_def)
  then show ?thesis using hub_reachable.env [OF hub_reachable.start] by (simp add: hub_one_def NewHub_def)
qed

theorem hub_never_panics_witness:
  "\<exists>h'. addClient 1 (hub_one\<lparr>hub_register := \<lparr>cbuf = [], ccap = 64, cclosed = False\<rparr>\<rparr>) = Some h' \<and>
     hub_subs h' = (\<Union>f\<in>dom (hub_fleets h'). fleet_channels f)"
proof (rule hub_never_panics [OF hub_one_reachable])
  show "run_case hub_one (addClient 1 (hub_one\<lparr>hub_register := \<lparr>cbuf = [], ccap = 64, cclosed = False\<rparr>\<rparr>))"
    by (rule run_case.register) (simp_all add: hub_one_def NewHub_def ch_recv_def)
qed


definition hub_pinged :: hub where
  "hub_pinged = hub_one\<lparr>hub_written := (\<lambda>_. [])(1 := [newPingEvent])\<rparr>"


text \<open>C29. Fan-out of a broadcast message: every client of the fleet with room in its queue gets the message at
  the end of it and stays; every client whose queue of 256 is full gets no message, is closed and leaves the
  fleet; clients of other fleets are untouched.\<close>

theorem fanOut_delivers:
  assumes "hub_reachable h" "hub_fleets h f = Some fs"
  shows "\<exists>h' fs'. fanOut (f, d) h = Some h' \<and> hub_fleets h' f = Some fs' \<and>
     (\<forall>c cl. hub_heap h c = Some cl \<longrightarrow>
        (c \<notin> set (fs_clients fs) \<longrightarrow> hub_heap h' c = Some cl) \<and>
        (c \<in> set (fs_clients fs) \<and> \<not> full cl \<longrightarrow> c \<in> set (fs_clients fs') \<and>
           hub_heap h' c = Some (cl\<lparr>cl_send := (cl_send cl)\<lparr>cbuf := cbuf (cl_send cl) @ [d]\<rparr>\<rparr>)) \<and>
        (c \<in> set (fs_clients fs) \<and> full cl \<longrightarrow> c \<notin> set (fs_clients fs') \<and>
           hub_heap h' c = Some (cl\<lparr>cl_send := (cl_send cl)\<lparr>cclosed := True\<rparr>\<rparr>)))"
proof -
  have "fleets_ok h" using reachable_inv [OF assms(1)] by (simp add: hub_inv_def)
  from fanOut_effect [OF this, of f d] assms(2) show ?thesis
    by (simp add: kept_in keeps_def offered_heap_def offered_def)
qed

theorem fanOut_delivers_witness:
  "\<exists>h h' fs'. hub_fleets h ''FLEET-A'' \<noteq> None \<and> fanOut (''FLEET-A'', newPingEvent) h = Some h' \<and>
     hub_fleets h' ''FLEET-A'' = Some fs' \<and> 1 \<in> set (fs_clients fs')"
proof -
  let ?h = "hub_one\<lparr>hub_register := \<lparr>cbuf = [], ccap = 64, cclosed = False\<rparr>\<rparr>"
  obtain h where h: "addClient 1 ?h = Some h" "hub_fleets h ''FLEET-A'' = Some
      \<lparr>fs_clients = [1], fs_telemetrySub = ''fleet:FLEET-A:telemetry'', fs_alertsSub = ''fleet:FLEET-A:alerts''\<rparr>"
    "hub_heap h 1 = Some (newClient ''FLEET-A'')"
    by (simp add: addClient_def startFleetSubscriptions_def hub_one_def NewHub_def newClient_def Let_def)
  have "run_case hub_one (addClient 1 ?h)"
    by (rule run_case.register) (simp_all add: hub_one_def NewHub_def ch_recv_def)
  then have "hub_reachable h" using hub_reachable.run [OF hub_one_reachable] h(1) by simp
  then show ?thesis
    using fanOut_delivers [of h "''FLEET-A''" _ newPingEvent] h(2,3)
    by (fastforce simp: full_def newClient_def sendBufferSize_def)
qed

text \<open>What a client of an authenticator gets from it: a connection is upgraded only for a fleet the token is
  entitled to.\<close>

context key_authenticator
begin

lemma ServeWS_entitled:
  assumes "ServeWS fleetID rq s = (None, s')"
  shows "hr_query rq ''fleet_id'' \<noteq> [] \<and> entitled s (hr_query rq ''token'') (hr_query rq ''fleet_id'')"
proof -
  obtain g ok s1 where F: "fleetID (hr_query rq ''token'') s = ((g, ok), s1)" by (metis prod.exhaust)
  then have "g = hr_query rq ''fleet_id''" "g \<noteq> []"
    using assms by (auto simp: ServeWS_def Let_def split: if_splits)
  then show ?thesis using fleet_named [OF F] by simp
qed

end

context redis_server
begin

lemmas ServeWS_token = srv_authn.ServeWS_entitled

end

text \<open>C30. A WebSocket is opened only for the fleet of its token: the authenticator holds an unexpired cache
  entry that maps the token to the requested fleet, or Redis maps it there now. In particular a static key
  opens none.\<close>

theorem ws_opens_own_fleet:
  assumes "redis_server rc view clock published"
    and "ServeWS (srv_FleetID rc now now') rq (a, r) = (None, s')"
  shows "hr_query rq ''fleet_id'' \<noteq> [] \<and>
     ((\<exists>e. au_localCache a (hr_query rq ''token'') = Some e \<and> ce_fleetID e = hr_query rq ''fleet_id'' \<and>
          now < ce_expiresAt e) \<or>
      view r (clock r) (auth_key (hr_query rq ''token'')) = Some (RStr (hr_query rq ''fleet_id''))) \<and>
     \<not> au_staticKeys a (hr_query rq ''token'')"
proof -
  have "hr_query rq ''fleet_id'' \<noteq> [] \<and>
     ((\<exists>e. au_localCache a (hr_query rq ''token'') = Some e \<and> ce_fleetID e = hr_query rq ''fleet_id'' \<and>
          now < ce_expiresAt e) \<or>
      view r (clock r) (auth_key (hr_query rq ''token'')) = Some (RStr (hr_query rq ''fleet_id'')))"
    using redis_server.ServeWS_token [OF assms]
    by simp
  moreover have "\<not> au_staticKeys a (hr_query rq ''token'')"
    using assms(2) by (auto simp: ServeWS_def srv_FleetID_def Let_def split: if_splits)
  ultimately show ?thesis by blast
qed

definition ws_redis :: mem_redis where
  "ws_redis = (mem_empty 0 [])\<lparr>mr_keys := [auth_key ''k1'' \<mapsto> (RStr ''FLEET-A'', None)]\<rparr>"

definition ws_request :: http_request where
  "ws_request = \<lparr>hr_apiKey = [], hr_query = (\<lambda>_. [])(''fleet_id'' := ''FLEET-A'', ''token'' := ''k1''),
     hr_path = (\<lambda>_. []), hr_body = None\<rparr>"

theorem ws_opens_own_fleet_witness:
  "mem_view ws_redis (mr_now ws_redis) (auth_key ''k1'') = Some (RStr ''FLEET-A'')"
proof -
  let ?a = "srv_NewAuthenticator \<lparr>sac_ValidAPIKeys = [], sac_CacheTTLSeconds = 60\<rparr>"
  have "fst (ServeWS (srv_FleetID (mem_client (\<lambda>_. [])) 0 0) ws_request (?a, ws_redis)) = None"
    by (simp add: ServeWS_def ws_request_def srv_FleetID_def srv_NewAuthenticator_def lookupRedis_def ws_redis_def
        mem_client_def mem_Get_def mem_faulty_def mem_empty_def mem_now_def mem_view_def auth_key_def Let_def static_key_map_def)
  then have "ServeWS (srv_FleetID (mem_client (\<lambda>_. [])) 0 0) ws_request (?a, ws_redis) =
      (None, snd (ServeWS (srv_FleetID (mem_client (\<lambda>_. [])) 0 0) ws_request (?a, ws_redis)))"
    by (metis prod.collapse)
  from ws_opens_own_fleet [OF mem.redis_server_axioms this] show ?thesis
    by (simp add: ws_request_def srv_NewAuthenticator_def Let_def)
qed

text \<open>A client that disconnects before the hub has registered it can stay in its fleet for good: \<open>select\<close> may
  take the unregistration first, which does nothing, and the registration after it. The client then is in
  the fleet, closed and with no unregistration to come, and the fleet's subscriptions stay open.\<close>

theorem ghost_client_can_remain:
  "\<exists>h c cl fs. hub_reachable h \<and> hub_heap h c = Some cl \<and> cl_done cl \<and>
     hub_fleets h (cl_fleetID cl) = Some fs \<and> c \<in> set (fs_clients fs) \<and> cbuf (hub_unregister h) = [] \<and>
     fleet_channels (cl_fleetID cl) \<subseteq> hub_subs h"
proof -
  let ?cl = "(newClient ''FLEET-A'')\<lparr>cl_done := True\<rparr>"
  let ?h1 = "hub_one\<lparr>hub_heap := (hub_heap hub_one)(1 \<mapsto> ?cl),
      hub_unregister := \<lparr>cbuf = [1], ccap = 64, cclosed = False\<rparr>\<rparr>"
  let ?h2 = "?h1\<lparr>hub_unregister := \<lparr>cbuf = [], ccap = 64, cclosed = False\<rparr>\<rparr>"
  let ?h3 = "?h2\<lparr>hub_register := \<lparr>cbuf = [], ccap = 64, cclosed = False\<rparr>\<rparr>"
  have "env_case hub_one ?h1"
    by (rule env_case.client_close) (simp_all add: hub_one_def NewHub_def newClient_def ch_send_def)
  then have "hub_reachable ?h1" by (rule hub_reachable.env [OF hub_one_reachable])
  moreover have "run_case ?h1 (removeClient 1 ?h2)"
    by (rule run_case.unregister) (simp_all add: hub_one_def NewHub_def ch_recv_def)
  then have "run_case ?h1 (Some ?h2)"
    by (simp add: removeClient_def hub_one_def NewHub_def)
  ultimately have h2: "hub_reachable ?h2" by (rule hub_reachable.run)
  have reg: "run_case ?h2 (addClient 1 ?h3)"
    by (rule run_case.register) (simp_all add: hub_one_def NewHub_def ch_recv_def)
  obtain h3 where h3: "addClient 1 ?h3 = Some h3" using run_case_inv [OF reachable_inv [OF h2] reg] by blast
  then have "hub_reachable h3" using hub_reachable.run [OF h2] reg by simp
  moreover have "hub_heap h3 1 = Some ?cl" "hub_fleets h3 ''FLEET-A'' \<noteq> None"
      "1 \<in> set (fs_clients (the (hub_fleets h3 ''FLEET-A'')))" "cbuf (hub_unregister h3) = []"
      "fleet_channels ''FLEET-A'' \<subseteq> hub_subs h3"
    using h3 by (auto simp: addClient_def startFleetSubscriptions_def fleet_channels_def hub_one_def NewHub_def
        newClient_def Let_def)
  ultimately show ?thesis
    by (intro exI [of _ h3] exI [of _ 1] exI [of _ ?cl]) (auto simp: newClient_def)
qed

end
