(* ===== verification/Serving_Alerts.thy ===== *)
theory Serving_Alerts
  imports Serving_Core
begin

text \<open>
  The alert endpoints of the serving service (\<open>src/serving/internal/handler/alert.go\<close>): the
  attention queue, the detail view, the acknowledge workflow and the history of a fleet. The
  world of a handler is the database and Redis; the printer and parser of times and the scanner of
  numbers are parameters (\<open>srv_env\<close>), as is the time of the final reading of the clock.

  \<open>ORDER BY\<close> leaves the order of equal rows open; the model keeps the order of the table. A
  \<open>LIMIT 1\<close> without an order takes the first row of the table.
\<close>

record srv_env =
  sv_fmtTime :: "time \<Rightarrow> string"
  sv_parseTime :: "string \<Rightarrow> time option"
  sv_scan :: "string \<Rightarrow> float64"
  sv_parseFloat :: "string \<Rightarrow> float64"
  sv_now :: time

record alert_view =
  av_row :: alert_row
  av_value :: float64
  av_display_name :: string

record enrichedAlert =
  ea_view :: alert_view
  ea_DriverName :: "string option"
  ea_RouteName :: "string option"
  ea_IsConditionActive :: bool

section \<open>Joins\<close>

text \<open>\<open>LEFT JOIN vehicle_registry v\<close> (its key is \<open>vehicle_id\<close>) and \<open>COALESCE(v.display_name, a.vehicle_id)\<close>.\<close>

definition registry_of :: "db \<Rightarrow> string \<Rightarrow> vehicle_row option" where
  "registry_of d vid = find (\<lambda>v. ve_vehicle_id v = vid) (vehicle_registry d)"

definition display_name_of :: "db \<Rightarrow> string \<Rightarrow> string" where
  "display_name_of d vid = (case registry_of d vid of None \<Rightarrow> vid | Some v \<Rightarrow> ve_display_name v)"

text \<open>The loop over the rows of a query, with a scan that can fail: pgx closes the rows when \<open>Scan\<close> fails, so the
  \<open>continue\<close> of the source leads to a \<open>Next\<close> that returns false.\<close>

fun scan_until :: "('a \<Rightarrow> 'b option) \<Rightarrow> 'a list \<Rightarrow> 'b list" where
  "scan_until f [] = []"
| "scan_until f (x # xs) = (case f x of None \<Rightarrow> [] | Some y \<Rightarrow> y # scan_until f xs)"

text \<open>Scanning a row: a \<open>NULL\<close> in \<open>triggered_value\<close> cannot be scanned into a \<open>float64\<close>.\<close>

definition scan_alert :: "db \<Rightarrow> alert_row \<Rightarrow> alert_view option" where
  "scan_alert d a =
     (case al_triggered_value a of
        None \<Rightarrow> None
      | Some v \<Rightarrow> Some \<lparr>av_row = a, av_value = v, av_display_name = display_name_of d (al_vehicle_id a)\<rparr>)"

definition active_trip_names :: "string \<Rightarrow> db \<Rightarrow> (string \<times> string) list" where
  "active_trip_names vid d =
     concat (map (\<lambda>t. concat (map (\<lambda>dr. map (\<lambda>ro. (dr_full_name dr, ro_route_name ro))
                (filter (\<lambda>ro. ro_route_id ro = tr_route_id t) (route_registry d)))
              (filter (\<lambda>dr. dr_driver_id dr = tr_driver_id t) (driver_registry d))))
       (filter (\<lambda>t. tr_vehicle_id t = vid \<and> tr_status t = TripInProgress) (trip d)))"

definition enrichWithTrip :: "string \<Rightarrow> pg \<Rightarrow> (string \<times> string) option \<times> pg" where
  "enrichWithTrip vid p =
     (case pg_query_row (\<lambda>now d. active_trip_names vid d) p of
        (Inr names, p') \<Rightarrow> (Some names, p')
      | (Inl e, p') \<Rightarrow> (None, p'))"

definition isConditionActive :: "'r redis_client \<Rightarrow> (string \<Rightarrow> float64) \<Rightarrow> string \<Rightarrow> string \<Rightarrow> 'r \<Rightarrow> bool \<times> 'r" where
  "isConditionActive rc scan vid alertType r =
     (case cmd_HMGet rc (''vehicle:'' @ vid @ '':state'') [''speed_kmh'', ''fuel_pct'', ''engine_temp''] r of
        (Inl e, r') \<Rightarrow> (False, r')
      | (Inr vals, r') \<Rightarrow>
          if length vals < 3 then (False, r')
          else if alertType = AlertSpeeding then (f64_less (Fin 100) (parseFloat scan (vals ! 0)), r')
          else if alertType = AlertLowFuel then (f64_less (parseFloat scan (vals ! 1)) (Fin 10), r')
          else if alertType = AlertEngineOverheat then (f64_less (Fin 100) (parseFloat scan (vals ! 2)), r')
          else if alertType = AlertRouteDeviation
          then (case cmd_Get rc (''vehicle:'' @ vid @ '':deviation'') r' of
                  (Inl e, r'') \<Rightarrow> (False, r'')
                | (Inr v, r'') \<Rightarrow> (v = ''true'', r''))
          else (False, r'))"

definition enrich ::
  "'r redis_client \<Rightarrow> srv_env \<Rightarrow> alert_view \<Rightarrow> pg \<times> 'r \<Rightarrow> enrichedAlert \<times> pg \<times> 'r" where
  "enrich rc env v w =
     (case enrichWithTrip (al_vehicle_id (av_row v)) (fst w) of
        (names, p') \<Rightarrow>
          (case isConditionActive rc (sv_scan env) (al_vehicle_id (av_row v)) (al_alert_type (av_row v)) (snd w) of
             (active, r') \<Rightarrow>
               (\<lparr>ea_view = v, ea_DriverName = map_option fst names, ea_RouteName = map_option snd names,
                 ea_IsConditionActive = active\<rparr>, p', r')))"

fun enrich_all ::
  "'r redis_client \<Rightarrow> srv_env \<Rightarrow> alert_view list \<Rightarrow> pg \<times> 'r \<Rightarrow> enrichedAlert list \<times> pg \<times> 'r" where
  "enrich_all rc env [] w = ([], w)"
| "enrich_all rc env (v # vs) w =
     (let (ea, w') = enrich rc env v w; (eas, w'') = enrich_all rc env vs w' in (ea # eas, w''))"

section \<open>JSON\<close>

definition opt_str :: "string \<Rightarrow> string option \<Rightarrow> (string \<times> json) list" where
  "opt_str key v = (case v of None \<Rightarrow> [] | Some s \<Rightarrow> [(key, JStr s)])"

definition null_str :: "string option \<Rightarrow> json" where
  "null_str v = (case v of None \<Rightarrow> JNull | Some s \<Rightarrow> JStr s)"

text \<open>The fields of \<open>domain.Alert\<close>; \<open>full\<close>: whether the four optional ones were read.\<close>

definition alert_fields :: "srv_env \<Rightarrow> bool \<Rightarrow> alert_view \<Rightarrow> (string \<times> json) list" where
  "alert_fields env full v =
     (let a = av_row v in
      [(''id'', JInt (al_id a)), (''vehicle_id'', JStr (al_vehicle_id a)), (''fleet_id'', JStr (al_fleet_id a)),
       (''alert_type'', JStr (al_alert_type a)), (''severity'', JStr (al_severity a)),
       (''triggered_value'', JNum (av_value v)), (''created_at'', JStr (sv_fmtTime env (al_created_at a)))] @
      (if full
       then opt_str ''acknowledged_at'' (map_option (sv_fmtTime env) (al_acknowledged_at a)) @
            opt_str ''acknowledged_by'' (al_acknowledged_by a) @
            opt_str ''resolved_at'' (map_option (sv_fmtTime env) (al_resolved_at a)) @
            opt_str ''resolved_by'' (al_resolved_by a)
       else []))"

definition enriched_fields :: "srv_env \<Rightarrow> bool \<Rightarrow> enrichedAlert \<Rightarrow> (string \<times> json) list" where
  "enriched_fields env full ea =
     alert_fields env full (ea_view ea) @
     [(''display_name'', JStr (av_display_name (ea_view ea))), (''driver_name'', null_str (ea_DriverName ea)),
      (''route_name'', null_str (ea_RouteName ea)), (''is_condition_active'', JBool (ea_IsConditionActive ea))]"

section \<open>Attention queue\<close>

definition severity_rank :: "string \<Rightarrow> nat" where
  "severity_rank s = (if s = SeverityCritical then 0 else if s = SeverityWarning then 1 else 2)"

definition attention_where :: "string \<Rightarrow> string \<Rightarrow> string \<Rightarrow> alert_row \<Rightarrow> bool" where
  "attention_where fleet severity alertType a \<longleftrightarrow>
     al_fleet_id a = fleet \<and> al_acknowledged_at a = None \<and> al_resolved_at a = None \<and>
     (severity = [] \<or> al_severity a = severity) \<and> (alertType = [] \<or> al_alert_type a = alertType)"

text \<open>\<open>ORDER BY CASE a.severity ... END, a.created_at DESC\<close>.\<close>

definition attention_order :: "alert_row list \<Rightarrow> alert_row list" where
  "attention_order as =
     sort_key (\<lambda>a. severity_rank (al_severity a)) (sort_key (\<lambda>a. - al_created_at a) as)"

definition count_alerts :: "(alert_row \<Rightarrow> bool) \<Rightarrow> pg \<Rightarrow> int \<times> pg" where
  "count_alerts P p =
     (case pg_query (\<lambda>now d. int (length (filter P (vehicle_alerts d)))) p of
        (Inl e, p') \<Rightarrow> (0, p')
      | (Inr n, p') \<Rightarrow> (n, p'))"

text \<open>\<open>LIMIT\<close> and \<open>OFFSET\<close> of a query that yields the scanned rows.\<close>

definition page_alerts ::
  "(alert_row list \<Rightarrow> alert_row list) \<Rightarrow> (alert_row \<Rightarrow> bool) \<Rightarrow> int \<Rightarrow> int \<Rightarrow> pg \<Rightarrow> (sql_err + alert_view list) \<times> pg" where
  "page_alerts order P limit offset p =
     pg_run False
       (\<lambda>now d. (case sql_page limit offset (order (filter P (vehicle_alerts d))) of
                   Inl e \<Rightarrow> Inl e
                 | Inr rows \<Rightarrow> Inr (scan_until (scan_alert d) rows), d)) p"

definition HandleAttentionQueue :: "'r redis_client \<Rightarrow> srv_env \<Rightarrow> (pg \<times> 'r) srv_handler" where
  "HandleAttentionQueue rc env ctx rq w =
     (let q = hr_query rq; fleetID = q ''fleet_id'' in
      if fleetID = [] then (writeError StatusBadRequest ''fleet_id query parameter is required'', w)
      else
        (let P = attention_where fleetID (q ''severity'') (q ''alert_type'');
             (page, limit) = parsePagination (q ''page'') (q ''limit'');
             (tot, p1) = count_alerts P (fst w)
         in case page_alerts attention_order P limit (page_offset page limit) p1 of
              (Inl err, p2) \<Rightarrow> (writeError StatusInternalServerError ''failed to query alerts'', p2, snd w)
            | (Inr views, p2) \<Rightarrow>
                (let (eas, w') = enrich_all rc env views (p2, snd w)
                 in (writeJSON StatusOK
                       (JObj [(''fleet_id'', JStr fleetID),
                              (''alerts'', JArr (map (\<lambda>ea. JObj (enriched_fields env False ea)) eas)),
                              (''pagination'', pagination_json (NewPagination page limit tot))]), w'))))"

section \<open>Alert detail\<close>

definition alert_by_id :: "int \<Rightarrow> db \<Rightarrow> alert_row list" where
  "alert_by_id i d = filter (\<lambda>a. al_id a = i) (vehicle_alerts d)"

definition driver_contacts :: "string \<Rightarrow> db \<Rightarrow> (string \<times> string) list" where
  "driver_contacts vid d =
     concat (map (\<lambda>dr. map (\<lambda>t. (dr_phone_number dr, dr_license_number dr))
         (filter (\<lambda>t. tr_driver_id t = dr_driver_id dr \<and> tr_vehicle_id t = vid \<and> tr_status t = TripInProgress) (trip d)))
       (driver_registry d))"

text \<open>The latest telemetry of the vehicle at or before a time.\<close>

definition telemetry_before :: "string \<Rightarrow> time \<Rightarrow> db \<Rightarrow> telemetry_row list" where
  "telemetry_before vid t d =
     sort_key (\<lambda>x. - te_timestamp x) (filter (\<lambda>x. te_vehicle_id x = vid \<and> te_timestamp x \<le> t) (vehicle_telemetry d))"

definition snapshot_json :: "telemetry_row \<Rightarrow> json" where
  "snapshot_json x =
     JObj [(''vehicle_id'', JStr []), (''fleet_id'', JStr []), (''lat'', JNum (te_latitude x)),
       (''lng'', JNum (te_longitude x)), (''speed_kmh'', JNum (te_speed_kmh x)),
       (''fuel_pct'', JNum (te_fuel_pct x)), (''engine_temp_celsius'', JNum (te_engine_temp_celsius x)),
       (''battery_voltage'', JNum (te_battery_voltage x)), (''is_moving'', JBool False),
       (''engine_on'', JBool False), (''timestamp'', JInt (Unix (te_timestamp x))), (''received_at'', JInt 0)]"

definition HandleAlertDetail :: "'r redis_client \<Rightarrow> srv_env \<Rightarrow> (pg \<times> 'r) srv_handler" where
  "HandleAlertDetail rc env ctx rq w =
     (case ParseInt (hr_path rq ''alert_id'') of
        None \<Rightarrow> (writeError StatusBadRequest ''alert_id must be an integer'', w)
      | Some alertID \<Rightarrow>
          (case pg_query_row (\<lambda>now d. map (\<lambda>a. (scan_alert d a, registry_of d (al_vehicle_id a))) (alert_by_id alertID d)) (fst w) of
             (Inr (Some v, reg), p1) \<Rightarrow>
               (let (ea, p2, r1) = enrich rc env v (p1, snd w);
                    vid = al_vehicle_id (av_row v);
                    (contact, p3) = (if ea_DriverName ea = None then (None, p2)
                                     else case pg_query_row (\<lambda>now d. driver_contacts vid d) p2 of
                                            (Inl e, p3) \<Rightarrow> (None, p3)
                                          | (Inr c, p3) \<Rightarrow> (Some c, p3));
                    (snap, p4) = (case pg_query_row (\<lambda>now d. telemetry_before vid (al_created_at (av_row v)) d) p3 of
                                    (Inl e, p4) \<Rightarrow> (None, p4)
                                  | (Inr x, p4) \<Rightarrow> (Some x, p4))
                in (writeJSON StatusOK
                      (JObj (enriched_fields env True ea @
                         [(''registration_number'', JStr (case reg of None \<Rightarrow> [] | Some v \<Rightarrow> ve_registration_number v)),
                          (''vehicle_type'', JStr (case reg of None \<Rightarrow> [] | Some v \<Rightarrow> ve_vehicle_type v))] @
                         opt_str ''driver_phone'' (map_option fst contact) @
                         opt_str ''driver_license'' (map_option snd contact) @
                         (case snap of None \<Rightarrow> [] | Some x \<Rightarrow> [(''telemetry_at_alert'', snapshot_json x)]))),
                    p4, r1))
           | (Inr (None, reg), p1) \<Rightarrow> (writeError StatusNotFound ''alert not found'', p1, snd w)
           | (Inl e, p1) \<Rightarrow> (writeError StatusNotFound ''alert not found'', p1, snd w)))"

section \<open>Acknowledge workflow\<close>

text \<open>\<open>json.NewDecoder(r.Body).Decode(&body)\<close> and the test of the operator's name.\<close>

definition operator_of :: "json option \<Rightarrow> string option" where
  "operator_of body =
     (case body of
        None \<Rightarrow> None
      | Some j \<Rightarrow>
          (case decode_struct (\<lambda>k v s. if names_field k ''operator'' then set_string (\<lambda>x _. x) v s else Some s) j [] of
             None \<Rightarrow> None
           | Some name \<Rightarrow> if name = [] then None else Some name))"

definition acknowledge_stmt :: "string \<Rightarrow> int \<Rightarrow> nat statement" where
  "acknowledge_stmt operator alertID =
     update_alerts (\<lambda>a. al_id a = alertID \<and> al_acknowledged_at a = None)
       (\<lambda>now a. a\<lparr>al_acknowledged_at := Some now, al_acknowledged_by := Some operator\<rparr>)"

definition resolve_stmt :: "string \<Rightarrow> int \<Rightarrow> nat statement" where
  "resolve_stmt operator alertID =
     update_alerts (\<lambda>a. al_id a = alertID \<and> al_resolved_at a = None)
       (\<lambda>now a. a\<lparr>al_resolved_at := Some now, al_resolved_by := Some operator\<rparr>)"

definition unacknowledge_stmt :: "int \<Rightarrow> nat statement" where
  "unacknowledge_stmt alertID =
     update_alerts (\<lambda>a. al_id a = alertID \<and> al_acknowledged_at a \<noteq> None)
       (\<lambda>now a. a\<lparr>al_acknowledged_at := None, al_acknowledged_by := None\<rparr>)"

definition HandleAcknowledge :: "srv_env \<Rightarrow> (pg \<times> 'r) srv_handler" where
  "HandleAcknowledge env ctx rq w =
     (case ParseInt (hr_path rq ''alert_id'') of
        None \<Rightarrow> (writeError StatusBadRequest ''alert_id must be an integer'', w)
      | Some alertID \<Rightarrow>
          (case operator_of (hr_body rq) of
             None \<Rightarrow> (writeError StatusBadRequest ''request body must contain \"operator\" field'', w)
           | Some operator \<Rightarrow>
               (case pg_run False (acknowledge_stmt operator alertID) (fst w) of
                  (Inl err, p) \<Rightarrow> (writeError StatusInternalServerError ''failed to acknowledge alert'', p, snd w)
                | (Inr n, p) \<Rightarrow>
                    if n = 0 then (writeError StatusNotFound ''alert not found or already acknowledged'', p, snd w)
                    else (writeJSON StatusOK
                            (JObj [(''alert_id'', JInt alertID), (''acknowledged_by'', JStr operator),
                                   (''acknowledged_at'', JStr (sv_fmtTime env (sv_now env)))]), p, snd w))))"

definition HandleResolve :: "srv_env \<Rightarrow> (pg \<times> 'r) srv_handler" where
  "HandleResolve env ctx rq w =
     (case ParseInt (hr_path rq ''alert_id'') of
        None \<Rightarrow> (writeError StatusBadRequest ''alert_id must be an integer'', w)
      | Some alertID \<Rightarrow>
          (case operator_of (hr_body rq) of
             None \<Rightarrow> (writeError StatusBadRequest ''request body must contain \"operator\" field'', w)
           | Some operator \<Rightarrow>
               (case pg_run False (resolve_stmt operator alertID) (fst w) of
                  (Inl err, p) \<Rightarrow> (writeError StatusInternalServerError ''failed to resolve alert'', p, snd w)
                | (Inr n, p) \<Rightarrow>
                    if n = 0 then (writeError StatusNotFound ''alert not found or already resolved'', p, snd w)
                    else (writeJSON StatusOK
                            (JObj [(''alert_id'', JInt alertID), (''resolved_by'', JStr operator),
                                   (''resolved_at'', JStr (sv_fmtTime env (sv_now env)))]), p, snd w))))"

definition HandleUnacknowledge :: "(pg \<times> 'r) srv_handler" where
  "HandleUnacknowledge ctx rq w =
     (case ParseInt (hr_path rq ''alert_id'') of
        None \<Rightarrow> (writeError StatusBadRequest ''alert_id must be an integer'', w)
      | Some alertID \<Rightarrow>
          (case pg_run False (unacknowledge_stmt alertID) (fst w) of
             (Inl err, p) \<Rightarrow> (writeError StatusInternalServerError ''failed to unacknowledge alert'', p, snd w)
           | (Inr n, p) \<Rightarrow>
               if n = 0 then (writeError StatusNotFound ''alert not found or not currently acknowledged'', p, snd w)
               else (writeJSON StatusOK
                       (JObj [(''alert_id'', JInt alertID), (''status'', JStr ''returned to attention queue'')]),
                     p, snd w)))"

section \<open>Fleet alert history\<close>

text \<open>A bound that does not parse is ignored.\<close>

definition time_bound :: "srv_env \<Rightarrow> string \<Rightarrow> time option" where
  "time_bound env v = (if v = [] then None else sv_parseTime env v)"

definition history_where :: "srv_env \<Rightarrow> string \<Rightarrow> (string \<Rightarrow> string) \<Rightarrow> alert_row \<Rightarrow> bool" where
  "history_where env fleet q a \<longleftrightarrow>
     al_fleet_id a = fleet \<and>
     (case time_bound env (q ''from'') of None \<Rightarrow> True | Some t \<Rightarrow> t \<le> al_created_at a) \<and>
     (case time_bound env (q ''to'') of None \<Rightarrow> True | Some t \<Rightarrow> al_created_at a \<le> t) \<and>
     (q ''alert_type'' = [] \<or> al_alert_type a = q ''alert_type'') \<and>
     (q ''severity'' = [] \<or> al_severity a = q ''severity'') \<and>
     (q ''acknowledged'' = ''true'' \<longrightarrow> al_acknowledged_at a \<noteq> None) \<and>
     (q ''acknowledged'' = ''false'' \<longrightarrow> al_acknowledged_at a = None)"

definition newest_first :: "alert_row list \<Rightarrow> alert_row list" where
  "newest_first as = sort_key (\<lambda>a. - al_created_at a) as"

definition history_json :: "srv_env \<Rightarrow> alert_view \<Rightarrow> json" where
  "history_json env v = JObj (alert_fields env True v @ [(''display_name'', JStr (av_display_name v))])"

definition HandleFleetAlertHistory :: "srv_env \<Rightarrow> (pg \<times> 'r) srv_handler" where
  "HandleFleetAlertHistory env ctx rq w =
     (let fleetID = hr_path rq ''fleet_id''; q = hr_query rq in
      if fleetID = [] then (writeError StatusBadRequest ''fleet_id path parameter is required'', w)
      else
        (let P = history_where env fleetID q;
             (page, limit) = parsePagination (q ''page'') (q ''limit'');
             (tot, p1) = count_alerts P (fst w)
         in case page_alerts newest_first P limit (page_offset page limit) p1 of
              (Inl err, p2) \<Rightarrow> (writeError StatusInternalServerError ''failed to query fleet alerts'', p2, snd w)
            | (Inr views, p2) \<Rightarrow>
                (writeJSON StatusOK
                   (JObj [(''fleet_id'', JStr fleetID), (''alerts'', JArr (map (history_json env) views)),
                          (''pagination'', pagination_json (NewPagination page limit tot))]), p2, snd w)))"

section \<open>Lemmas\<close>

subsection \<open>Order and pages\<close>

definition attention_before :: "alert_row \<Rightarrow> alert_row \<Rightarrow> bool" where
  "attention_before a b \<longleftrightarrow>
     severity_rank (al_severity a) < severity_rank (al_severity b) \<or>
     severity_rank (al_severity a) = severity_rank (al_severity b) \<and> al_created_at b \<le> al_created_at a"

text \<open>A stable sort keeps the order of the rows it finds equal.\<close>

lemma sorted_wrt_insort:
  assumes "sorted_wrt (\<lambda>a b. f a < f b \<or> f a = f b \<and> R a b) xs" "\<forall>y\<in>set xs. R x y"
  shows "sorted_wrt (\<lambda>a b. f a < f b \<or> f a = f b \<and> R a b) (insort_key f x xs)"
  using assms by (induction xs) (auto simp: set_insort_key)

lemma sorted_wrt_sort_key:
  "sorted_wrt R xs \<Longrightarrow> sorted_wrt (\<lambda>a b. f a < f b \<or> f a = f b \<and> R a b) (sort_key f xs)"
  by (induction xs) (auto intro: sorted_wrt_insort)

lemma attention_order_sorted: "sorted_wrt attention_before (attention_order as)"
proof -
  have "sorted (map (\<lambda>a. - al_created_at a) (sort_key (\<lambda>a. - al_created_at a) as))" by simp
  then have "sorted_wrt (\<lambda>a b. al_created_at b \<le> al_created_at a) (sort_key (\<lambda>a. - al_created_at a) as)"
    by (simp add: sorted_map)
  from sorted_wrt_sort_key [OF this, of "\<lambda>a. severity_rank (al_severity a)"] show ?thesis
    by (simp add: attention_order_def attention_before_def [abs_def])
qed

lemma set_attention_order [simp]: "set (attention_order as) = set as"
  by (simp add: attention_order_def)

lemma length_attention_order [simp]: "length (attention_order as) = length as"
  by (simp add: attention_order_def)

lemma sorted_wrt_page: "sorted_wrt R xs \<Longrightarrow> sorted_wrt R (take n (drop m xs))"
  by (simp add: sorted_wrt_take sorted_wrt_drop)

lemma scan_rows: "map av_row (scan_until (scan_alert d) as) = takeWhile (\<lambda>a. al_triggered_value a \<noteq> None) as"
  by (induction as) (auto simp: scan_alert_def split: option.splits)

lemma enrich_all_views:
  "enrich_all rc env vs w = (eas, w') \<Longrightarrow> map ea_view eas = vs"
proof (induction vs arbitrary: w eas)
  case (Cons v vs)
  then show ?case
    by (auto simp: enrich_def Let_def split: prod.splits)
qed simp

lemma enrich_all_db:
  "enrich_all rc env vs (p, r) = (eas, p', r') \<Longrightarrow> pg_db p' = pg_db p"
proof (induction vs arbitrary: p r eas)
  case (Cons v vs)
  obtain names p1 where n: "enrichWithTrip (al_vehicle_id (av_row v)) p = (names, p1)" by fastforce
  then have "pg_db p1 = pg_db p"
    by (auto simp: enrichWithTrip_def dest!: pg_query_row_db split: prod.splits sum.splits)
  then show ?case using Cons n by (auto simp: enrich_def Let_def split: prod.splits)
qed simp

lemma page_alerts_up:
  assumes "pg_plan p = []" "0 \<le> offset"
  shows "page_alerts order P limit offset p =
    (Inr (scan_until (scan_alert (pg_db p))
       (take (nat limit) (drop (nat offset) (order (filter P (vehicle_alerts (pg_db p))))))), p)"
  using assms by (simp add: page_alerts_def pg_run_up sql_page_def)

lemma count_alerts_up:
  "pg_plan p = [] \<Longrightarrow> count_alerts P p = (int (length (filter P (vehicle_alerts (pg_db p)))), p)"
  by (simp add: count_alerts_def pg_query_up)

subsection \<open>The workflow\<close>

lemma ack_only_one:
  assumes "distinct (map al_id as)" "a \<in> set as"
  shows "length (filter (\<lambda>b. al_id b = al_id a \<and> P b) as) = (if P a then 1 else 0)"
  using assms
proof (induction as)
  case (Cons b as)
  show ?case
  proof (cases "a = b")
    case True
    moreover have "al_id b \<notin> al_id ` set as" using Cons.prems(1) by simp
    ultimately have "\<forall>c\<in>set as. al_id c \<noteq> al_id a" by (metis imageI)
    then have "filter (\<lambda>b. al_id b = al_id a \<and> P b) as = []" by auto
    then show ?thesis using True by simp
  next
    case False
    then have "a \<in> set as" "al_id b \<notin> al_id ` set as" using Cons.prems by auto
    then have "al_id b \<noteq> al_id a" by (metis imageI)
    then show ?thesis using Cons False by simp
  qed
qed simp

text \<open>A time is set exactly when a name is.\<close>

definition stamps_ok :: "alert_row \<Rightarrow> bool" where
  "stamps_ok a \<longleftrightarrow> (al_acknowledged_at a = None \<longleftrightarrow> al_acknowledged_by a = None) \<and>
                   (al_resolved_at a = None \<longleftrightarrow> al_resolved_by a = None)"

definition workflow_inv :: "db \<Rightarrow> bool" where
  "workflow_inv d \<longleftrightarrow> alerts_wf d \<and> list_all stamps_ok (vehicle_alerts d)"

lemma update_alerts_inv:
  assumes "workflow_inv d" "update_alerts P f now d = (x, d')"
    "\<And>a. al_id (f now a) = al_id a" "\<And>a. al_vehicle_id (f now a) = al_vehicle_id a"
    "\<And>a. al_alert_type (f now a) = al_alert_type a" "\<And>a. al_severity (f now a) = al_severity a"
    "\<And>a. al_created_at (f now a) = al_created_at a" "\<And>a. stamps_ok a \<Longrightarrow> stamps_ok (f now a)"
  shows "workflow_inv d'"
proof -
  have "alerts_wf d'" using update_alerts_wf [OF _ assms(2-7)] assms(1) by (simp add: workflow_inv_def)
  moreover have "list_all stamps_ok (vehicle_alerts d')"
    using assms(1,2,8) by (auto simp: workflow_inv_def update_alerts_def list_all_iff)
  ultimately show ?thesis by (simp add: workflow_inv_def)
qed

lemma workflow_stmts_inv:
  "workflow_inv d \<Longrightarrow> acknowledge_stmt op i now d = (x, d') \<Longrightarrow> workflow_inv d'"
  "workflow_inv d \<Longrightarrow> resolve_stmt op i now d = (x, d') \<Longrightarrow> workflow_inv d'"
  "workflow_inv d \<Longrightarrow> unacknowledge_stmt i now d = (x, d') \<Longrightarrow> workflow_inv d'"
  unfolding acknowledge_stmt_def resolve_stmt_def unacknowledge_stmt_def
  by (erule (1) update_alerts_inv; simp add: stamps_ok_def)+

lemma pg_run_workflow_inv:
  assumes "\<And>x d'. stmt (pg_now p) (pg_db p) = (x, d') \<Longrightarrow> workflow_inv d'"
    "workflow_inv (pg_db p)" "pg_run c stmt p = (y, p')"
  shows "workflow_inv (pg_db p')"
  using pg_run_db [OF assms(3)] assms(1,2) by (metis surj_pair snd_conv)

lemma HandleAcknowledge_inv:
  assumes "HandleAcknowledge env ctx rq (p, r) = (resp, p', r')" "workflow_inv (pg_db p)"
  shows "workflow_inv (pg_db p')"
  using assms pg_run_workflow_inv [OF workflow_stmts_inv(1) [OF assms(2)] assms(2)]
  by (fastforce simp: HandleAcknowledge_def split: option.splits prod.splits sum.splits if_splits)

lemma HandleResolve_inv:
  assumes "HandleResolve env ctx rq (p, r) = (resp, p', r')" "workflow_inv (pg_db p)"
  shows "workflow_inv (pg_db p')"
  using assms pg_run_workflow_inv [OF workflow_stmts_inv(2) [OF assms(2)] assms(2)]
  by (fastforce simp: HandleResolve_def split: option.splits prod.splits sum.splits if_splits)

lemma HandleUnacknowledge_inv:
  assumes "HandleUnacknowledge ctx rq (p, r) = (resp, p', r')" "workflow_inv (pg_db p)"
  shows "workflow_inv (pg_db p')"
  using assms pg_run_workflow_inv [OF workflow_stmts_inv(3) [OF assms(2)] assms(2)]
  by (fastforce simp: HandleUnacknowledge_def split: option.splits prod.splits sum.splits if_splits)

lemma InsertAlert_inv:
  assumes "InsertAlert vid fid ty sev v p = (x, p')" "workflow_inv (pg_db p)"
  shows "workflow_inv (pg_db p')"
proof -
  obtain y where y: "pg_run False (insert_alert_row True vid fid ty sev v) p = (y, p')"
    using assms(1) by (auto simp: InsertAlert_def split: prod.splits sum.splits)
  have "workflow_inv d'" if "insert_alert_row True vid fid ty sev v (pg_now p) (pg_db p) = (z, d')" for z d'
    using that assms(2) insert_alert_row_wf [OF _ that]
    by (auto simp: workflow_inv_def insert_alert_row_def Let_def list_all_iff stamps_ok_def new_alert_def split: if_splits)
  from pg_run_workflow_inv [OF this assms(2) y] show ?thesis .
qed

text \<open>The requests that write alerts, in any order.\<close>

datatype workflow_op =
    OpInsert string string string string float64
  | OpAcknowledge http_request
  | OpResolve http_request
  | OpUnacknowledge http_request

fun apply_op :: "srv_env \<Rightarrow> workflow_op \<Rightarrow> pg \<Rightarrow> pg" where
  "apply_op env (OpInsert vid fid ty sev v) p = snd (InsertAlert vid fid ty sev v p)"
| "apply_op env (OpAcknowledge rq) p = fst (snd (HandleAcknowledge env \<lparr>cx_APIKey = [], cx_FleetID = []\<rparr> rq (p, ())))"
| "apply_op env (OpResolve rq) p = fst (snd (HandleResolve env \<lparr>cx_APIKey = [], cx_FleetID = []\<rparr> rq (p, ())))"
| "apply_op env (OpUnacknowledge rq) p = fst (snd (HandleUnacknowledge \<lparr>cx_APIKey = [], cx_FleetID = []\<rparr> rq (p, ())))"

lemma apply_op_inv: "workflow_inv (pg_db p) \<Longrightarrow> workflow_inv (pg_db (apply_op env op p))"
proof (induction env op p rule: apply_op.induct)
  case (1 env vid fid ty sev v p)
  then show ?case using InsertAlert_inv by (metis apply_op.simps(1) surj_pair snd_conv)
next
  case (2 env rq p)
  then show ?case using HandleAcknowledge_inv by (metis apply_op.simps(2) fst_conv snd_conv surj_pair)
next
  case (3 env rq p)
  then show ?case using HandleResolve_inv by (metis apply_op.simps(3) fst_conv snd_conv surj_pair)
next
  case (4 env rq p)
  then show ?case using HandleUnacknowledge_inv by (metis apply_op.simps(4) fst_conv snd_conv surj_pair)
qed

subsection \<open>One request of the workflow, on a database that answers\<close>

definition acked :: "time \<Rightarrow> string \<Rightarrow> int \<Rightarrow> alert_row \<Rightarrow> alert_row" where
  "acked now op i a = (if al_id a = i \<and> al_acknowledged_at a = None
     then a\<lparr>al_acknowledged_at := Some now, al_acknowledged_by := Some op\<rparr> else a)"

definition unacked :: "int \<Rightarrow> alert_row \<Rightarrow> alert_row" where
  "unacked i a = (if al_id a = i \<and> al_acknowledged_at a \<noteq> None
     then a\<lparr>al_acknowledged_at := None, al_acknowledged_by := None\<rparr> else a)"

lemma HandleAcknowledge_up:
  assumes "ParseInt (hr_path rq ''alert_id'') = Some i" "operator_of (hr_body rq) = Some op"
    "pg_plan p = []" "HandleAcknowledge env ctx rq (p, r) = (resp, p', r')"
  shows "resp_status resp = (if \<exists>a\<in>set (vehicle_alerts (pg_db p)). al_id a = i \<and> al_acknowledged_at a = None
          then StatusOK else StatusNotFound)"
    and "vehicle_alerts (pg_db p') = map (acked (pg_now p) op i) (vehicle_alerts (pg_db p))"
    and "pg_plan p' = []"
  using assms
  by (auto simp: HandleAcknowledge_def pg_run_up acknowledge_stmt_def update_alerts_def filter_empty_conv
      acked_def split: if_splits)

lemma HandleUnacknowledge_up:
  assumes "ParseInt (hr_path rq ''alert_id'') = Some i" "pg_plan p = []"
    "HandleUnacknowledge ctx rq (p, r) = (resp, p', r')"
  shows "resp_status resp = (if \<exists>a\<in>set (vehicle_alerts (pg_db p)). al_id a = i \<and> al_acknowledged_at a \<noteq> None
          then StatusOK else StatusNotFound)"
    and "vehicle_alerts (pg_db p') = map (unacked i) (vehicle_alerts (pg_db p))"
  using assms
  by (auto simp: HandleUnacknowledge_def pg_run_up unacknowledge_stmt_def update_alerts_def filter_empty_conv
      unacked_def split: if_splits)

lemma acked_done: "al_id (acked now op i a) = i \<Longrightarrow> al_acknowledged_at (acked now op i a) \<noteq> None"
  by (auto simp: acked_def split: if_splits)

lemma acked_twice: "acked now2 op2 i (acked now op i a) = acked now op i a"
  by (auto simp: acked_def)

section \<open>Properties\<close>

definition sample_env :: srv_env where
  "sample_env = \<lparr>sv_fmtTime = Itoa, sv_parseTime = ParseInt, sv_scan = (\<lambda>s. Fin 0),
    sv_parseFloat = (\<lambda>s. Fin 0), sv_now = 0\<rparr>"

definition sample_alert :: "int \<Rightarrow> string \<Rightarrow> time \<Rightarrow> alert_row" where
  "sample_alert i sev t = new_alert i (''TRUCK-'' @ Itoa i) ''fleet-a'' ''SPEEDING'' sev (Fin 120) t"

definition alerts_pg :: "alert_row list \<Rightarrow> pg" where
  "alerts_pg as = \<lparr>pg_db = empty_db\<lparr>vehicle_alerts := as, vehicle_alerts_id_seq := 100\<rparr>, pg_now = 7, pg_plan = []\<rparr>"

definition plain_request :: "(string \<times> string) list \<Rightarrow> (string \<times> string) list \<Rightarrow> json option \<Rightarrow> http_request" where
  "plain_request q path body = \<lparr>hr_apiKey = ''k1'', hr_query = map_get q, hr_path = map_get path, hr_body = body\<rparr>"

definition anon :: auth_ctx where
  "anon = \<lparr>cx_APIKey = ''k1'', cx_FleetID = ''fleet-a''\<rparr>"

text \<open>C23. The attention queue: on a database that answers, the response is 200 and lists, in the order of the
  ranking (CRITICAL, WARNING, the rest; newest first within a severity), the requested page of the
  fleet's alerts that are neither acknowledged nor resolved and match the filters; no alert of
  another fleet appears. A page ends before an alert without a value.\<close>

theorem attention_queue_page:
  assumes "HandleAttentionQueue rc env ctx rq (p, r) = (resp, p', r')" "pg_plan p = []"
    and "hr_query rq ''fleet_id'' \<noteq> []"
    and "parsePagination (hr_query rq ''page'') (hr_query rq ''limit'') = (page, limit)" "page \<le> 2 ^ 63 div 100"
  shows "\<exists>eas. resp = writeJSON StatusOK (JObj
        [(''fleet_id'', JStr (hr_query rq ''fleet_id'')),
         (''alerts'', JArr (map (\<lambda>ea. JObj (enriched_fields env False ea)) eas)),
         (''pagination'', pagination_json (NewPagination page limit
            (int (length (filter (attention_where (hr_query rq ''fleet_id'') (hr_query rq ''severity'') (hr_query rq ''alert_type''))
               (vehicle_alerts (pg_db p)))))))]) \<and>
     map (\<lambda>ea. av_row (ea_view ea)) eas =
       takeWhile (\<lambda>a. al_triggered_value a \<noteq> None)
        (take (nat limit) (drop (nat ((page - 1) * limit))
          (attention_order (filter (attention_where (hr_query rq ''fleet_id'') (hr_query rq ''severity'') (hr_query rq ''alert_type''))
             (vehicle_alerts (pg_db p)))))) \<and>
     sorted_wrt attention_before (map (\<lambda>ea. av_row (ea_view ea)) eas) \<and>
     (\<forall>ea\<in>set eas. al_fleet_id (av_row (ea_view ea)) = hr_query rq ''fleet_id'' \<and>
        al_acknowledged_at (av_row (ea_view ea)) = None \<and> al_resolved_at (av_row (ea_view ea)) = None)"
proof -
  let ?P = "attention_where (hr_query rq ''fleet_id'') (hr_query rq ''severity'') (hr_query rq ''alert_type'')"
  let ?all = "attention_order (filter ?P (vehicle_alerts (pg_db p)))"
  let ?rows = "take (nat limit) (drop (nat ((page - 1) * limit)) ?all)"
  let ?views = "scan_until (scan_alert (pg_db p)) ?rows"
  have off: "page_offset page limit = (page - 1) * limit" "0 \<le> page_offset page limit"
    using parsePagination_bounds [OF assms(4)] page_offset_exact assms(5) by auto
  obtain eas w where e: "enrich_all rc env ?views (p, r) = (eas, w)" by (metis surj_pair)
  have rows: "map (\<lambda>ea. av_row (ea_view ea)) eas = takeWhile (\<lambda>a. al_triggered_value a \<noteq> None) ?rows"
  proof -
    have "map (\<lambda>ea. av_row (ea_view ea)) eas = map av_row (map ea_view eas)" by simp
    also have "\<dots> = map av_row ?views" using enrich_all_views [OF e] by simp
    finally show ?thesis by (simp only: scan_rows)
  qed
  have resp: "resp = writeJSON StatusOK (JObj
        [(''fleet_id'', JStr (hr_query rq ''fleet_id'')),
         (''alerts'', JArr (map (\<lambda>ea. JObj (enriched_fields env False ea)) eas)),
         (''pagination'', pagination_json (NewPagination page limit (int (length (filter ?P (vehicle_alerts (pg_db p)))))))])"
    using assms(1,3,4) off e
    by (simp add: HandleAttentionQueue_def Let_def count_alerts_up [OF assms(2)] page_alerts_up [OF assms(2)])
  have "sorted_wrt attention_before (takeWhile (\<lambda>a. al_triggered_value a \<noteq> None) ?rows)"
    by (subst takeWhile_eq_take) (intro sorted_wrt_take sorted_wrt_page attention_order_sorted)
  then have srt: "sorted_wrt attention_before (map (\<lambda>ea. av_row (ea_view ea)) eas)" by (simp only: rows)
  have "set ?rows \<subseteq> set ?all" by (meson order_trans set_drop_subset set_take_subset)
  then have "\<forall>a\<in>set (map (\<lambda>ea. av_row (ea_view ea)) eas). ?P a"
    unfolding rows by (auto dest: set_takeWhileD)
  then have "\<forall>ea\<in>set eas. al_fleet_id (av_row (ea_view ea)) = hr_query rq ''fleet_id'' \<and>
        al_acknowledged_at (av_row (ea_view ea)) = None \<and> al_resolved_at (av_row (ea_view ea)) = None"
    by (simp add: attention_where_def)
  with resp rows srt show ?thesis by blast
qed

abbreviation "alerts_client \<equiv> mem_client (\<lambda>x. ''0'')"

theorem attention_queue_page_witness:
  "\<exists>eas. map (\<lambda>ea. al_id (av_row (ea_view ea))) eas = [2, 1] \<and>
     fst (HandleAttentionQueue alerts_client sample_env anon (plain_request [(''fleet_id'', ''fleet-a'')] [] None)
       (alerts_pg [sample_alert 1 ''WARNING'' 5, sample_alert 2 ''CRITICAL'' 3], mem_empty 0 [])) =
     writeJSON StatusOK (JObj [(''fleet_id'', JStr ''fleet-a''),
         (''alerts'', JArr (map (\<lambda>ea. JObj (enriched_fields sample_env False ea)) eas)),
         (''pagination'', pagination_json (NewPagination 1 50 2))])"
proof -
  let ?w = "(alerts_pg [sample_alert 1 ''WARNING'' 5, sample_alert 2 ''CRITICAL'' 3], mem_empty 0 [])"
  let ?rq = "plain_request [(''fleet_id'', ''fleet-a'')] [] None"
  let ?h = "HandleAttentionQueue alerts_client sample_env anon ?rq ?w"
  have "?h = (fst ?h, fst (snd ?h), snd (snd ?h))" by simp
  moreover have "pg_plan (fst ?w) = []" by (simp add: alerts_pg_def)
  moreover have "hr_query ?rq ''fleet_id'' = ''fleet-a''" "hr_query ?rq ''severity'' = []" "hr_query ?rq ''alert_type'' = []"
    "hr_query ?rq ''page'' = []" "hr_query ?rq ''limit'' = []"
    by (simp_all add: plain_request_def map_get_def)
  moreover have "parsePagination [] [] = (1, 50)" by (simp add: parsePagination_def Atoi_def)
  moreover have n: "int (length (filter (attention_where ''fleet-a'' [] []) (vehicle_alerts (pg_db (fst ?w))))) = 2"
    by (simp add: alerts_pg_def sample_alert_def new_alert_def attention_where_def)
  ultimately obtain eas where resp: "fst ?h = writeJSON StatusOK (JObj [(''fleet_id'', JStr ''fleet-a''),
         (''alerts'', JArr (map (\<lambda>ea. JObj (enriched_fields sample_env False ea)) eas)),
         (''pagination'', pagination_json (NewPagination 1 50 2))])"
    and rows: "map (\<lambda>ea. av_row (ea_view ea)) eas = takeWhile (\<lambda>a. al_triggered_value a \<noteq> None)
       (take 50 (drop 0 (attention_order (filter (attention_where ''fleet-a'' [] []) (vehicle_alerts (pg_db (fst ?w)))))))"
    using attention_queue_page [of alerts_client sample_env anon ?rq "fst ?w" "snd ?w" "fst ?h" "fst (snd ?h)" "snd (snd ?h)" 1 50]
    by auto
  have "map al_id (map (\<lambda>ea. av_row (ea_view ea)) eas) = [2, 1]"
    unfolding rows
    by (simp add: alerts_pg_def sample_alert_def new_alert_def attention_where_def attention_order_def severity_rank_def
        SeverityCritical_def SeverityWarning_def)
  then show ?thesis using resp by (intro exI [of _ eas]) (simp add: comp_def)
qed

text \<open>Paging loses nothing: for every limit the endpoints allow, the pages 1 to the reported number of
  pages, as \<open>LIMIT\<close> and \<open>OFFSET\<close> select them, put together are the whole result in order, and no offset
  computed for them overflows.\<close>

theorem pages_partition_result:
  assumes "parsePagination pageStr limitStr = (page, limit)" "int (length xs) < 2 ^ 56"
  shows "concat (map (\<lambda>k. case sql_page limit (page_offset (int k + 1) limit) xs of Inr rows \<Rightarrow> rows | Inl e \<Rightarrow> [])
           [0..<nat (pm_Pages (NewPagination page limit (int (length xs))))]) = xs"
proof -
  have lim: "1 \<le> limit" "limit \<le> 100" using parsePagination_bounds [OF assms(1)] by auto
  let ?n = "nat (pm_Pages (NewPagination page limit (int (length xs))))"
  have n: "int ?n = (int (length xs) + limit - 1) div limit"
    using NewPagination_pages [OF lim, of "int (length xs)" page] assms(2) lim
    by (simp add: pos_imp_zdiv_nonneg_iff)
  have small: "int ?n \<le> 2 ^ 63 div 100"
  proof -
    have "(int (length xs) + limit - 1) div limit \<le> int (length xs) + limit - 1"
      using zdiv_mono2 [of "int (length xs) + limit - 1" 1 limit] lim by simp
    moreover have "int (length xs) + limit - 1 \<le> 2 ^ 63 div 100" using assms(2) lim by simp
    ultimately show ?thesis using n by linarith
  qed
  have "sql_page limit (page_offset (int k + 1) limit) xs = Inr (take (nat limit) (drop (k * nat limit) xs))" if "k < ?n" for k
  proof -
    have "page_offset (int k + 1) limit = int k * limit"
    proof -
      have "int k + 1 \<le> 2 ^ 63 div 100" using small that by linarith
      then show ?thesis using page_offset_exact [of "int k + 1" limit] lim by simp
    qed
    then show ?thesis using lim by (simp add: sql_page_def nat_mult_distrib not_less)
  qed
  then have "concat (map (\<lambda>k. case sql_page limit (page_offset (int k + 1) limit) xs of Inr rows \<Rightarrow> rows | Inl e \<Rightarrow> []) [0..<?n]) =
      concat (map (\<lambda>k. take (nat limit) (drop (k * nat limit) xs)) [0..<?n])"
    by (intro arg_cong [of _ _ concat] map_cong) auto
  also have "\<dots> = xs"
  proof (rule pages_cover)
    have "int (length xs) \<le> int ?n * limit"
    proof -
      have "(int (length xs) + limit - 1) mod limit < limit" using lim by simp
      then show ?thesis
        unfolding n using div_mult_mod_eq [of "int (length xs) + limit - 1" limit] by linarith
    qed
    then show "length xs \<le> ?n * nat limit" using lim by (simp add: nat_le_iff flip: of_nat_le_iff [where ?'a = int])
  qed (use lim in simp)
  finally show ?thesis .
qed

theorem pages_partition_result_witness:
  "concat (map (\<lambda>k. case sql_page 50 (page_offset (int k + 1) 50) [7::int, 8, 9] of Inr rows \<Rightarrow> rows | Inl e \<Rightarrow> [])
     [0..<nat (pm_Pages (NewPagination 1 50 3))]) = [7, 8, 9]"
  using pages_partition_result [of "[]" "[]" 1 50 "[7::int, 8, 9]"] by (simp add: parsePagination_def Atoi_def)

text \<open>C24. Acknowledging: on a database that answers, the request is 200 exactly when an alert with this
  identifier exists and is not acknowledged, and 404 otherwise; it changes the two acknowledgement
  columns of that alert and nothing else. A second acknowledgement is 404 and changes nothing.\<close>

theorem acknowledge_once:
  assumes "ParseInt (hr_path rq ''alert_id'') = Some i" "operator_of (hr_body rq) = Some op"
    and "pg_plan p = []" "HandleAcknowledge env ctx rq (p, r) = (resp, p', r')"
    and "HandleAcknowledge env' ctx' rq2 (p', r') = (resp2, p'', r'')"
    and "hr_path rq2 ''alert_id'' = hr_path rq ''alert_id''" "operator_of (hr_body rq2) = Some op2"
  shows "(resp_status resp = StatusOK \<longleftrightarrow>
            (\<exists>a\<in>set (vehicle_alerts (pg_db p)). al_id a = i \<and> al_acknowledged_at a = None)) \<and>
    vehicle_alerts (pg_db p') =
      map (\<lambda>a. if al_id a = i \<and> al_acknowledged_at a = None
               then a\<lparr>al_acknowledged_at := Some (pg_now p), al_acknowledged_by := Some op\<rparr> else a)
          (vehicle_alerts (pg_db p)) \<and>
    resp_status resp2 = StatusNotFound \<and> vehicle_alerts (pg_db p'') = vehicle_alerts (pg_db p')"
proof -
  note one = HandleAcknowledge_up [OF assms(1-4)]
  have "ParseInt (hr_path rq2 ''alert_id'') = Some i" using assms(1,6) by simp
  note two = HandleAcknowledge_up [OF this assms(7) one(3) assms(5)]
  have none: "\<not> (\<exists>a\<in>set (vehicle_alerts (pg_db p')). al_id a = i \<and> al_acknowledged_at a = None)"
    unfolding one(2) set_map by (metis acked_done imageE)
  have acked: "acked (pg_now p) op i = (\<lambda>a. if al_id a = i \<and> al_acknowledged_at a = None
      then a\<lparr>al_acknowledged_at := Some (pg_now p), al_acknowledged_by := Some op\<rparr> else a)"
    by (rule ext) (simp add: acked_def)
  show ?thesis
  proof (intro conjI)
    show "vehicle_alerts (pg_db p'') = vehicle_alerts (pg_db p')"
      unfolding two(2) one(2) by (simp add: acked_twice)
    show "resp_status resp2 = StatusNotFound" unfolding two(1) using none by (simp only: if_False)
  qed (simp_all only: one(1) one(2) acked split: if_splits, simp)
qed

lemma sample_operator: "operator_of (Some (JObj [(''operator'', JStr ''asha'')])) = Some ''asha''"
  by (simp add: operator_of_def names_field_def)

lemma sample_id: "ParseInt ''1'' = Some 1"
  by (simp add: ParseInt_def ParseUnsigned_def is_digit_def digit_val_def in_int64_def)

theorem acknowledge_once_witness:
  "resp_status (fst (HandleAcknowledge sample_env anon
      (plain_request [] [(''alert_id'', ''1'')] (Some (JObj [(''operator'', JStr ''asha'')])))
      (alerts_pg [sample_alert 1 ''WARNING'' 5], 0 :: nat))) = StatusOK"
proof -
  let ?rq = "plain_request [] [(''alert_id'', ''1'')] (Some (JObj [(''operator'', JStr ''asha'')]))"
  let ?w = "(alerts_pg [sample_alert 1 ''WARNING'' 5], 0 :: nat)"
  let ?h = "HandleAcknowledge sample_env anon ?rq ?w"
  let ?g = "HandleAcknowledge sample_env anon ?rq (fst (snd ?h), snd (snd ?h))"
  have "?h = (fst ?h, fst (snd ?h), snd (snd ?h))" "?g = (fst ?g, fst (snd ?g), snd (snd ?g))" by simp_all
  moreover have "ParseInt (hr_path ?rq ''alert_id'') = Some 1" "operator_of (hr_body ?rq) = Some ''asha''"
    by (simp_all add: plain_request_def map_get_def sample_id sample_operator)
  moreover have "pg_plan (fst ?w) = []" by (simp add: alerts_pg_def)
  moreover have "\<exists>a\<in>set (vehicle_alerts (pg_db (fst ?w))). al_id a = 1 \<and> al_acknowledged_at a = None"
    by (simp add: alerts_pg_def sample_alert_def new_alert_def)
  ultimately show ?thesis
    using acknowledge_once [of ?rq 1 "''asha''" "fst ?w" sample_env anon "snd ?w" "fst ?h" "fst (snd ?h)" "snd (snd ?h)"
        sample_env anon ?rq "fst ?g" "fst (snd ?g)" "snd (snd ?g)" "''asha''"]
    by simp
qed

text \<open>Unacknowledging undoes an acknowledgement: an alert that was unacknowledged, then acknowledged, then
  unacknowledged leaves the table exactly as it was.\<close>

theorem unacknowledge_undoes:
  assumes "ParseInt (hr_path rq ''alert_id'') = Some i" "operator_of (hr_body rq) = Some op"
    and "pg_plan p = []" "workflow_inv (pg_db p)"
    and "HandleAcknowledge env ctx rq (p, r) = (resp, p', r')" "resp_status resp = StatusOK"
    and "hr_path rq2 ''alert_id'' = hr_path rq ''alert_id''"
    and "HandleUnacknowledge ctx' rq2 (p', r') = (resp2, p'', r'')"
  shows "resp_status resp2 = StatusOK \<and> vehicle_alerts (pg_db p'') = vehicle_alerts (pg_db p)"
proof -
  note one = HandleAcknowledge_up [OF assms(1-3,5)]
  have "ParseInt (hr_path rq2 ''alert_id'') = Some i" using assms(1,7) by simp
  note two = HandleUnacknowledge_up [OF this one(3) assms(8)]
  obtain a where a: "a \<in> set (vehicle_alerts (pg_db p))" "al_id a = i" "al_acknowledged_at a = None"
    using one(1) assms(6) by (auto split: if_splits)
  have ids: "distinct (map al_id (vehicle_alerts (pg_db p)))"
    using assms(4) by (simp add: workflow_inv_def alerts_wf_def)
  have only: "b = a" if "b \<in> set (vehicle_alerts (pg_db p))" "al_id b = i" for b
    using ids that a by (metis distinct_map inj_onD)
  have "al_acknowledged_by a = None"
    using assms(4) a by (auto simp: workflow_inv_def list_all_iff stamps_ok_def)
  then have "unacked i (acked (pg_now p) op i b) = b" if "b \<in> set (vehicle_alerts (pg_db p))" for b
    using only [OF that] a(3) by (auto simp: unacked_def acked_def)
  then have "vehicle_alerts (pg_db p'') = vehicle_alerts (pg_db p)"
    unfolding two(2) one(2) by (simp add: map_idI)
  moreover
  have "acked (pg_now p) op i a \<in> set (vehicle_alerts (pg_db p'))" using a(1) one(2) by simp
  moreover have "al_id (acked (pg_now p) op i a) = i \<and> al_acknowledged_at (acked (pg_now p) op i a) \<noteq> None"
    using a(2,3) by (simp add: acked_def)
  ultimately show ?thesis using two(1) by (metis (mono_tags, lifting))
qed

theorem unacknowledge_undoes_witness:
  "vehicle_alerts (pg_db (fst (snd (HandleUnacknowledge anon (plain_request [] [(''alert_id'', ''1'')] None)
     (snd (HandleAcknowledge sample_env anon
       (plain_request [] [(''alert_id'', ''1'')] (Some (JObj [(''operator'', JStr ''asha'')])))
       (alerts_pg [sample_alert 1 ''WARNING'' 5], 0 :: nat))))))) = [sample_alert 1 ''WARNING'' 5]"
proof -
  let ?rq = "plain_request [] [(''alert_id'', ''1'')] (Some (JObj [(''operator'', JStr ''asha'')]))"
  let ?rq2 = "plain_request [] [(''alert_id'', ''1'')] None"
  let ?p = "alerts_pg [sample_alert 1 ''WARNING'' 5]"
  let ?h = "HandleAcknowledge sample_env anon ?rq (?p, 0 :: nat)"
  let ?g = "HandleUnacknowledge anon ?rq2 (fst (snd ?h), snd (snd ?h))"
  have h: "?h = (fst ?h, fst (snd ?h), snd (snd ?h))" and g: "?g = (fst ?g, fst (snd ?g), snd (snd ?g))" by simp_all
  have ids: "ParseInt (hr_path ?rq ''alert_id'') = Some 1" "hr_path ?rq2 ''alert_id'' = hr_path ?rq ''alert_id''"
    and op: "operator_of (hr_body ?rq) = Some ''asha''"
    by (simp_all add: plain_request_def map_get_def sample_id sample_operator)
  have p: "pg_plan ?p = []" "workflow_inv (pg_db ?p)"
    by (simp_all add: alerts_pg_def workflow_inv_def alerts_wf_def stamps_ok_def sample_alert_def new_alert_def
        chk_alert_type_def chk_severity_def)
  have ok: "resp_status (fst ?h) = StatusOK"
    using HandleAcknowledge_up(1) [OF ids(1) op p(1) h] by (simp add: alerts_pg_def sample_alert_def new_alert_def)
  from unacknowledge_undoes [OF ids(1) op p h ok ids(2) g] show ?thesis by (simp add: alerts_pg_def)
qed

text \<open>The workflow keeps the table consistent: from a table that satisfies its constraints and in which a
  time is set exactly when a name is, any sequence of the requests that write alerts, with any
  arguments and under any failures of the database, leads to such a table.\<close>

theorem workflow_consistent:
  assumes "workflow_inv (pg_db p)"
  shows "workflow_inv (pg_db (fold (apply_op env) ops p))"
  using assms by (induction ops arbitrary: p) (simp_all add: apply_op_inv)

theorem workflow_consistent_witness:
  "workflow_inv (pg_db (fold (apply_op sample_env)
     [OpInsert ''TRUCK-1'' ''fleet-a'' ''SPEEDING'' ''WARNING'' (Fin 120),
      OpAcknowledge (plain_request [] [(''alert_id'', ''1'')] (Some (JObj [(''operator'', JStr ''asha'')])))]
     (alerts_pg [])))"
  by (rule workflow_consistent) (simp add: workflow_inv_def alerts_wf_def alerts_pg_def)

end
