(* ===== verification/Serving_Geo.thy ===== *)
theory Serving_Geo
  imports Go_Prelude
begin

text \<open>
  The distances of the background jobs (\<open>src/serving/internal/jobs/geo.go\<close>) and the distance to a
  route of \<open>jobs/deviation_detector.go\<close>. A \<open>float64\<close> is a real number, an infinity or NaN: the
  arithmetic is exact on finite numbers. An argument that is not finite makes each distance NaN: the
  sine of an infinity is NaN, and so is every quotient and product the projection then computes.
\<close>

section \<open>geo.go\<close>

definition intervalFromSeconds :: "int \<Rightarrow> duration" where
  "intervalFromSeconds seconds = duration_of (if seconds < 1 then 1 else seconds) Second"

text \<open>\<open>math.Atan2\<close> on finite numbers.\<close>

definition Atan2 :: "real \<Rightarrow> real \<Rightarrow> real" where
  "Atan2 y x =
     (if 0 < x then arctan (y / x)
      else if x = 0 then (if 0 < y then pi / 2 else if y < 0 then - pi / 2 else 0)
      else if 0 \<le> y then arctan (y / x) + pi else arctan (y / x) - pi)"

text \<open>The value \<open>a\<close> of the source, and the distance; \<open>math.Sqrt\<close> of a negative number is NaN.\<close>

definition haversine_a :: "real \<Rightarrow> real \<Rightarrow> real \<Rightarrow> real \<Rightarrow> real" where
  "haversine_a lat1 lng1 lat2 lng2 =
     (let dLat = (lat2 - lat1) * pi / 180; dLng = (lng2 - lng1) * pi / 180
      in sin (dLat / 2) * sin (dLat / 2) +
         cos (lat1 * pi / 180) * cos (lat2 * pi / 180) * sin (dLng / 2) * sin (dLng / 2))"

fun haversineKm :: "float64 \<Rightarrow> float64 \<Rightarrow> float64 \<Rightarrow> float64 \<Rightarrow> float64" where
  "haversineKm (Fin lat1) (Fin lng1) (Fin lat2) (Fin lng2) =
     (let r = 6371; a = haversine_a lat1 lng1 lat2 lng2
      in if a < 0 \<or> 1 < a then NaN else Fin (r * 2 * Atan2 (sqrt a) (sqrt (1 - a))))"
| "haversineKm _ _ _ _ = NaN"

definition segment_t :: "real \<Rightarrow> real \<Rightarrow> real \<Rightarrow> real \<Rightarrow> real \<Rightarrow> real \<Rightarrow> real" where
  "segment_t pLat pLng aLat aLng bLat bLng =
     (let t = ((pLat - aLat) * (bLat - aLat) + (pLng - aLng) * (bLng - aLng)) /
              ((bLat - aLat) * (bLat - aLat) + (bLng - aLng) * (bLng - aLng))
      in max 0 (min 1 t))"

fun pointToSegmentDistanceKm ::
  "float64 \<Rightarrow> float64 \<Rightarrow> float64 \<Rightarrow> float64 \<Rightarrow> float64 \<Rightarrow> float64 \<Rightarrow> float64" where
  "pointToSegmentDistanceKm (Fin pLat) (Fin pLng) (Fin aLat) (Fin aLng) (Fin bLat) (Fin bLng) =
     (if aLat = bLat \<and> aLng = bLng then haversineKm (Fin pLat) (Fin pLng) (Fin aLat) (Fin aLng)
      else let t = segment_t pLat pLng aLat aLng bLat bLng
           in haversineKm (Fin pLat) (Fin pLng) (Fin (aLat + t * (bLat - aLat))) (Fin (aLng + t * (bLng - aLng))))"
| "pointToSegmentDistanceKm _ _ _ _ _ _ = NaN"

section \<open>The distance to a route\<close>

record stopPoint =
  sp_lat :: float64
  sp_lng :: float64

text \<open>The loop over consecutive stops, with the minimum so far.\<close>

fun min_over_segments :: "float64 \<Rightarrow> float64 \<Rightarrow> float64 \<Rightarrow> stopPoint list \<Rightarrow> float64" where
  "min_over_segments lat lng m (a # b # stops) =
     (let dist = pointToSegmentDistanceKm lat lng (sp_lat a) (sp_lng a) (sp_lat b) (sp_lng b)
      in min_over_segments lat lng (if f64_less dist m then dist else m) (b # stops))"
| "min_over_segments lat lng m [a] = m"
| "min_over_segments lat lng m [] = m"

definition minDistanceToRoute :: "float64 \<Rightarrow> float64 \<Rightarrow> stopPoint list \<Rightarrow> float64" where
  "minDistanceToRoute lat lng stops =
     (case stops of
        [] \<Rightarrow> Fin 0
      | [s] \<Rightarrow> haversineKm lat lng (sp_lat s) (sp_lng s)
      | _ \<Rightarrow> min_over_segments lat lng (Fin (10 ^ 18)) stops)"

section \<open>Lemmas\<close>

definition valid_lat :: "real \<Rightarrow> bool" where
  "valid_lat x \<longleftrightarrow> - 90 \<le> x \<and> x \<le> 90"

lemma cos_lat_nonneg: "valid_lat x \<Longrightarrow> 0 \<le> cos (x * pi / 180)"
proof (rule cos_ge_zero)
  assume x: "valid_lat x"
  have "- 90 * pi \<le> x * pi" "x * pi \<le> 90 * pi"
    using x by (intro mult_right_mono; simp add: valid_lat_def)+
  then show "- (pi / 2) \<le> x * pi / 180" "x * pi / 180 \<le> pi / 2" by simp_all
qed

text \<open>The product of the cosines is at most the squared cosine of half the difference.\<close>

lemma cos_product_le: "cos x * cos y \<le> (cos ((y - x) / 2))\<^sup>2" for x y :: real
proof -
  have "cos x * cos y = (cos (x - y) + cos (x + y)) / 2" by (rule cos_times_cos)
  also have "\<dots> \<le> (cos (x - y) + 1) / 2" by simp
  also have "\<dots> = (cos ((x - y) / 2))\<^sup>2"
  proof -
    have "2 * ((x - y) / 2) = x - y" by simp
    then have "cos (x - y) = 2 * (cos ((x - y) / 2))\<^sup>2 - 1" by (metis cos_double_cos)
    then show ?thesis by simp
  qed
  also have "\<dots> = (cos ((y - x) / 2))\<^sup>2"
    by (metis cos_minus minus_diff_eq minus_divide_left)
  finally show ?thesis .
qed

lemma haversine_a_squares:
  "haversine_a lat1 lng1 lat2 lng2 =
     (sin ((lat2 - lat1) * pi / 180 / 2))\<^sup>2 +
     cos (lat1 * pi / 180) * cos (lat2 * pi / 180) * (sin ((lng2 - lng1) * pi / 180 / 2))\<^sup>2"
  by (simp add: haversine_a_def Let_def power2_eq_square)

lemma haversine_a_le_1: "haversine_a lat1 lng1 lat2 lng2 \<le> 1"
proof -
  let ?u = "(lat2 - lat1) * pi / 180 / 2" and ?v = "(lng2 - lng1) * pi / 180 / 2"
  let ?c = "cos (lat1 * pi / 180) * cos (lat2 * pi / 180)"
  have "?c \<le> (cos ((lat2 * pi / 180 - lat1 * pi / 180) / 2))\<^sup>2" by (rule cos_product_le)
  also have "(lat2 * pi / 180 - lat1 * pi / 180) / 2 = ?u" by (simp add: algebra_simps diff_divide_distrib)
  finally have c: "?c \<le> (cos ?u)\<^sup>2" .
  have "?c * (sin ?v)\<^sup>2 \<le> (cos ?u)\<^sup>2 * (sin ?v)\<^sup>2" by (rule mult_right_mono [OF c]) simp
  also have "\<dots> \<le> (cos ?u)\<^sup>2 * 1"
    by (rule mult_left_mono) (simp_all add: abs_square_le_1)
  finally have "?c * (sin ?v)\<^sup>2 \<le> (cos ?u)\<^sup>2" by simp
  then show ?thesis using sin_cos_squared_add [of ?u] unfolding haversine_a_squares by linarith
qed

lemma haversine_a_nonneg: "valid_lat lat1 \<Longrightarrow> valid_lat lat2 \<Longrightarrow> 0 \<le> haversine_a lat1 lng1 lat2 lng2"
  unfolding haversine_a_squares by (intro add_nonneg_nonneg mult_nonneg_nonneg cos_lat_nonneg) simp_all

lemma haversine_a_sym: "haversine_a lat1 lng1 lat2 lng2 = haversine_a lat2 lng2 lat1 lng1"
proof -
  have "(sin ((x - y) * pi / 180 / 2))\<^sup>2 = (sin ((y - x) * pi / 180 / 2))\<^sup>2" for x y :: real
  proof -
    have "(x - y) * pi / 180 / 2 = - ((y - x) * pi / 180 / 2)"
      by (simp only: minus_divide_left minus_mult_left minus_diff_eq)
    then show ?thesis by (metis power2_minus sin_minus)
  qed
  then show ?thesis unfolding haversine_a_squares by (simp add: mult.commute)
qed

lemma Atan2_quadrant: "0 \<le> y \<Longrightarrow> 0 \<le> x \<Longrightarrow> 0 \<le> Atan2 y x \<and> Atan2 y x \<le> pi / 2"
  using arctan_ubound [of "y / x"] by (auto simp: Atan2_def zero_le_arctan_iff)

text \<open>The distance between two points with valid latitudes is a number.\<close>

definition haversine_real :: "real \<Rightarrow> real \<Rightarrow> real \<Rightarrow> real \<Rightarrow> real" where
  "haversine_real lat1 lng1 lat2 lng2 =
     6371 * 2 * Atan2 (sqrt (haversine_a lat1 lng1 lat2 lng2)) (sqrt (1 - haversine_a lat1 lng1 lat2 lng2))"

lemma haversineKm_Fin:
  "valid_lat lat1 \<Longrightarrow> valid_lat lat2 \<Longrightarrow>
   haversineKm (Fin lat1) (Fin lng1) (Fin lat2) (Fin lng2) = Fin (haversine_real lat1 lng1 lat2 lng2)"
  using haversine_a_nonneg [of lat1 lat2 lng1 lng2] haversine_a_le_1 [of lat1 lng1 lat2 lng2]
  by (simp add: haversine_real_def Let_def)

lemma haversine_real_bounds:
  assumes "valid_lat lat1" "valid_lat lat2"
  shows "0 \<le> haversine_real lat1 lng1 lat2 lng2" "haversine_real lat1 lng1 lat2 lng2 \<le> 6371 * pi"
proof -
  have "0 \<le> sqrt (haversine_a lat1 lng1 lat2 lng2)" "0 \<le> sqrt (1 - haversine_a lat1 lng1 lat2 lng2)"
    using haversine_a_nonneg [OF assms] haversine_a_le_1 [of lat1 lng1 lat2 lng2] by simp_all
  from Atan2_quadrant [OF this] show "0 \<le> haversine_real lat1 lng1 lat2 lng2"
    "haversine_real lat1 lng1 lat2 lng2 \<le> 6371 * pi"
    by (simp_all add: haversine_real_def)
qed

lemma haversine_same [simp]: "haversineKm (Fin x) (Fin y) (Fin x) (Fin y) = Fin 0"
  by (simp add: haversine_a_def Atan2_def)

lemma segment_t_range: "0 \<le> segment_t a b c d e f \<and> segment_t a b c d e f \<le> 1"
  by (simp add: segment_t_def Let_def)

lemma between_valid:
  assumes "valid_lat a" "valid_lat b" "0 \<le> t" "t \<le> 1"
  shows "valid_lat (a + t * (b - a))"
proof -
  have "a + t * (b - a) = (1 - t) * a + t * b" by (simp add: algebra_simps)
  moreover have "(1 - t) * (- 90) + t * (- 90) \<le> (1 - t) * a + t * b"
    using assms by (intro add_mono mult_left_mono) (simp_all add: valid_lat_def)
  moreover have "(1 - t) * a + t * b \<le> (1 - t) * 90 + t * 90"
    using assms by (intro add_mono mult_left_mono) (simp_all add: valid_lat_def)
  ultimately show ?thesis by (simp add: valid_lat_def algebra_simps)
qed

definition valid_stop :: "stopPoint \<Rightarrow> bool" where
  "valid_stop s \<longleftrightarrow> (\<exists>x y. sp_lat s = Fin x \<and> sp_lng s = Fin y \<and> valid_lat x)"

abbreviation segment_km :: "float64 \<Rightarrow> float64 \<Rightarrow> stopPoint \<Rightarrow> stopPoint \<Rightarrow> float64" where
  "segment_km lat lng a b \<equiv> pointToSegmentDistanceKm lat lng (sp_lat a) (sp_lng a) (sp_lat b) (sp_lng b)"

lemma segment_km_bounds:
  assumes "valid_lat lat" "valid_stop a" "valid_stop b"
  shows "\<exists>d. segment_km (Fin lat) (Fin lng) a b = Fin d \<and> 0 \<le> d \<and> d \<le> 6371 * pi"
proof -
  obtain ax ay bx by' where ab: "sp_lat a = Fin ax" "sp_lng a = Fin ay" "valid_lat ax"
    "sp_lat b = Fin bx" "sp_lng b = Fin by'" "valid_lat bx"
    using assms(2,3) by (auto simp: valid_stop_def)
  let ?t = "segment_t lat lng ax ay bx by'"
  have v: "valid_lat (ax + ?t * (bx - ax))"
    using between_valid ab segment_t_range by blast
  show ?thesis
  proof (cases "ax = bx \<and> ay = by'")
    case True
    then show ?thesis
      using ab haversineKm_Fin [OF assms(1) ab(3)] haversine_real_bounds [OF assms(1) ab(3)] by simp
  next
    case False
    then have "segment_km (Fin lat) (Fin lng) a b =
        Fin (haversine_real lat lng (ax + ?t * (bx - ax)) (ay + ?t * (by' - ay)))"
      using ab haversineKm_Fin [OF assms(1) v] by (auto simp: Let_def simp del: haversineKm.simps)
    then show ?thesis using haversine_real_bounds [OF assms(1) v] by simp
  qed
qed

text \<open>The segments of a route, and the reference definition of the distance to it.\<close>

fun segments :: "stopPoint list \<Rightarrow> (stopPoint \<times> stopPoint) list" where
  "segments (a # b # stops) = (a, b) # segments (b # stops)"
| "segments [a] = []"
| "segments [] = []"

definition real_of_f64 :: "float64 \<Rightarrow> real" where
  "real_of_f64 x = (case x of Fin r \<Rightarrow> r | _ \<Rightarrow> 0)"

definition segment_dists :: "real \<Rightarrow> real \<Rightarrow> stopPoint list \<Rightarrow> real list" where
  "segment_dists lat lng stops = map (\<lambda>(a, b). real_of_f64 (segment_km (Fin lat) (Fin lng) a b)) (segments stops)"

lemma segment_dists_Cons:
  "segment_km (Fin lat) (Fin lng) a b = Fin d \<Longrightarrow>
   segment_dists lat lng (a # b # stops) = d # segment_dists lat lng (b # stops)"
  by (simp add: segment_dists_def real_of_f64_def)

lemma min_over_segments_Fin:
  assumes "valid_lat lat" "list_all valid_stop stops"
  shows "min_over_segments (Fin lat) (Fin lng) (Fin m) stops = Fin (Min (insert m (set (segment_dists lat lng stops))))"
  using assms(2)
proof (induction stops arbitrary: m rule: segments.induct)
  case (1 a b stops)
  obtain d where d: "segment_km (Fin lat) (Fin lng) a b = Fin d"
    using segment_km_bounds [OF assms(1), of a b] 1(2) by auto
  have "min_over_segments (Fin lat) (Fin lng) (Fin m) (a # b # stops) =
        min_over_segments (Fin lat) (Fin lng) (Fin (min d m)) (b # stops)"
    using d by (simp add: Let_def min_def)
  also have "\<dots> = Fin (Min (insert (min d m) (set (segment_dists lat lng (b # stops)))))"
    using 1 by simp
  also have "Min (insert (min d m) (set (segment_dists lat lng (b # stops)))) =
      Min (insert m (set (segment_dists lat lng (a # b # stops))))"
  proof -
    have s: "set (segment_dists lat lng (a # b # stops)) = insert d (set (segment_dists lat lng (b # stops)))"
      using segment_dists_Cons [OF d] by simp
    show ?thesis
      by (cases "segment_dists lat lng (b # stops) = []")
         (simp_all add: s Min_insert insert_commute min.assoc min.commute min.left_commute)
  qed
  finally show ?case .
qed (simp_all add: segment_dists_def)

lemma segment_dists_bounds:
  assumes "valid_lat lat" "list_all valid_stop stops" "d \<in> set (segment_dists lat lng stops)"
  shows "0 \<le> d \<and> d \<le> 6371 * pi"
  using assms(2,3)
proof (induction stops rule: segments.induct)
  case (1 a b stops)
  obtain e where e: "segment_km (Fin lat) (Fin lng) a b = Fin e" "0 \<le> e" "e \<le> 6371 * pi"
    using segment_km_bounds [OF assms(1), of a b] 1(2) by auto
  then show ?case using 1 segment_dists_Cons [OF e(1)] by auto
qed (simp_all add: segment_dists_def)

section \<open>Properties\<close>

text \<open>The distance between two points with latitudes of the globe is a number between 0 and half the
  circumference of the sphere; it is symmetric and 0 from a point to itself. A coordinate that is not
  finite gives NaN.\<close>

theorem haversine_bounds:
  assumes "valid_lat lat1" "valid_lat lat2"
  shows "\<exists>d. haversineKm (Fin lat1) (Fin lng1) (Fin lat2) (Fin lng2) = Fin d \<and>
     haversineKm (Fin lat2) (Fin lng2) (Fin lat1) (Fin lng1) = Fin d \<and> 0 \<le> d \<and> d \<le> 6371 * pi \<and>
     (lat1 = lat2 \<and> lng1 = lng2 \<longrightarrow> d = 0) \<and> (\<not> is_finite x \<longrightarrow> haversineKm x (Fin lng1) (Fin lat2) (Fin lng2) = NaN)"
proof -
  have "haversineKm (Fin lat2) (Fin lng2) (Fin lat1) (Fin lng1) = haversineKm (Fin lat1) (Fin lng1) (Fin lat2) (Fin lng2)"
    by (simp add: haversine_a_sym [of lat2])
  moreover have "lat1 = lat2 \<and> lng1 = lng2 \<longrightarrow> haversine_real lat1 lng1 lat2 lng2 = 0"
    using haversineKm_Fin [OF assms] haversine_same by (metis float64.inject(1))
  moreover have "\<not> is_finite x \<longrightarrow> haversineKm x (Fin lng1) (Fin lat2) (Fin lng2) = NaN" by (cases x) auto
  ultimately show ?thesis
    using haversineKm_Fin [OF assms] haversine_real_bounds [OF assms] by metis
qed

theorem haversine_bounds_witness:
  "\<exists>d. haversineKm (Fin 28) (Fin 77) (Fin 27) (Fin 76) = Fin d \<and> 0 \<le> d \<and> d \<le> 6371 * pi"
  using haversine_bounds [of 28 27 77 76 NaN] by (auto simp: valid_lat_def simp del: haversineKm.simps)



end
