(* ===== verification/Serving_Jobs.thy ===== *)
theory Serving_Jobs
  imports Serving_Ws Serving_Alerts Serving_Geo
begin

text \<open>
  The background jobs of the serving service (\<open>src/serving/internal/jobs\<close>): the heartbeat monitor,
  the deviation detector, the stop detector and the ETA estimator. Their world is Redis, the database
  and the hub. \<open>Run\<close> calls \<open>tick\<close> once and then at every tick of a timer; a tick is a function of the
  world. The parser of floating-point texts, the printers of times and the readings of the clock are
  arguments; a reading inside a loop is keyed by what the loop is at.
\<close>

record 'r world =
  jw_redis :: 'r
  jw_pg :: pg
  jw_hub :: hub

abbreviation put_redis :: "'r \<Rightarrow> 'r world \<Rightarrow> 'r world" where
  "put_redis r w \<equiv> w\<lparr>jw_redis := r\<rparr>"

text \<open>\<open>v, _ := Get(...).Result()\<close>: an error leaves the empty string.\<close>

definition get_or_empty :: "'r redis_client \<Rightarrow> string \<Rightarrow> 'r \<Rightarrow> string \<times> 'r" where
  "get_or_empty rc key r =
     (case cmd_Get rc key r of (Inl e, r') \<Rightarrow> ([], r') | (Inr v, r') \<Rightarrow> (v, r'))"

text \<open>The position of a vehicle, from its state hash; \<open>None\<close>: the early returns.\<close>

definition live_position ::
  "'r redis_client \<Rightarrow> (string \<Rightarrow> float64 option) \<Rightarrow> string \<Rightarrow> 'r \<Rightarrow> (float64 \<times> float64) option \<times> 'r" where
  "live_position rc parseF vid r =
     (case cmd_HMGet rc (''vehicle:'' @ vid @ '':state'') [''lat'', ''lng''] r of
        (Inr (Some la # Some lo # rest), r') \<Rightarrow>
          (case (parseF la, parseF lo) of
             (Some lat, Some lng) \<Rightarrow> (Some (lat, lng), r')
           | _ \<Rightarrow> (None, r'))
      | (_, r') \<Rightarrow> (None, r'))"

text \<open>The loop of every job's \<open>Run\<close>: a tick at once, then one for each event of the ticker until the context is done
  (\<open>None\<close>). An event carries the readings of its tick and what the rest of the system did to the world since the last one.\<close>

fun job_loop :: "('e \<Rightarrow> 'w \<Rightarrow> 'w) \<Rightarrow> (('w \<Rightarrow> 'w) \<times> 'e) option list \<Rightarrow> 'w \<Rightarrow> 'w" where
  "job_loop tick [] w = w"
| "job_loop tick (None # es) w = w"
| "job_loop tick (Some (env, e) # es) w = job_loop tick es (tick e (env w))"

definition job_Run :: "('e \<Rightarrow> 'w \<Rightarrow> 'w) \<Rightarrow> 'e \<Rightarrow> (('w \<Rightarrow> 'w) \<times> 'e) option list \<Rightarrow> 'w \<Rightarrow> 'w" where
  "job_Run tick e es w = job_loop tick es (tick e w)"

section \<open>heartbeat_monitor.go\<close>

record HeartbeatMonitor =
  hm_interval :: duration
  hm_defaultThreshold :: duration

definition NewHeartbeatMonitor :: "int \<Rightarrow> int \<Rightarrow> HeartbeatMonitor" where
  "NewHeartbeatMonitor intervalSec thresholdSec =
     \<lparr>hm_interval = intervalFromSeconds intervalSec, hm_defaultThreshold = duration_of thresholdSec Second\<rparr>"

definition loadFleetThresholds :: "pg \<Rightarrow> (string \<rightharpoonup> duration) \<times> pg" where
  "loadFleetThresholds p =
     (case pg_query (\<lambda>now d. map (\<lambda>c. (fc_fleet_id c, fc_staleness_threshold_seconds c)) (fleet_config d)) p of
        (Inl e, p') \<Rightarrow> (Map.empty, p')
      | (Inr rows, p') \<Rightarrow> (fold (\<lambda>(f, secs) m. m(f \<mapsto> duration_of secs Second)) rows Map.empty, p'))"

definition online_key :: "string \<Rightarrow> string" where
  "online_key vid = ''vehicle:'' @ vid @ '':online_status''"

definition setOffline ::
  "'r redis_client \<Rightarrow> (time \<Rightarrow> string) \<Rightarrow> string \<Rightarrow> string \<Rightarrow> time \<Rightarrow> 'r world \<Rightarrow> 'r world" where
  "setOffline rc fmt vid fid lastSeen w =
     (case get_or_empty rc (online_key vid) (jw_redis w) of
        (current, r1) \<Rightarrow>
          if current = ''offline'' then put_redis r1 w
          else (case cmd_Set rc (online_key vid) ''offline'' 0 r1 of
                  (e, r2) \<Rightarrow> w\<lparr>jw_redis := r2, jw_hub := BroadcastOffline fmt fid
                    \<lparr>vo_VehicleID = vid, vo_LastSeenAt = lastSeen\<rparr> (jw_hub w)\<rparr>))"

definition check ::
  "'r redis_client \<Rightarrow> (time \<Rightarrow> string) \<Rightarrow> time \<Rightarrow> string \<Rightarrow> string \<Rightarrow> duration \<Rightarrow> 'r world \<Rightarrow> 'r world" where
  "check rc fmt now vid fid threshold w =
     (case cmd_HGet rc (''vehicle:'' @ vid @ '':state'') ''received_at'' (jw_redis w) of
        (Inl RedisNil, r1) \<Rightarrow> setOffline rc fmt vid fid zero_time (put_redis r1 w)
      | (Inl (RedisErr e), r1) \<Rightarrow> put_redis r1 w
      | (Inr recvStr, r1) \<Rightarrow>
          (case ParseInt recvStr of
             None \<Rightarrow> put_redis r1 w
           | Some recvUnix \<Rightarrow>
               (case get_or_empty rc (online_key vid) r1 of
                  (current, r2) \<Rightarrow>
                    if threshold < Sub now (time_Unix recvUnix)
                    then setOffline rc fmt vid fid (time_Unix recvUnix) (put_redis r2 w)
                    else if current \<noteq> ''online''
                    then (case cmd_Set rc (online_key vid) ''online'' 0 r2 of
                            (e, r3) \<Rightarrow> w\<lparr>jw_redis := r3, jw_hub := BroadcastOnline fid
                              \<lparr>vn_VehicleID = vid\<rparr> (jw_hub w)\<rparr>)
                    else put_redis r2 w)))"

fun check_all ::
  "'r redis_client \<Rightarrow> (time \<Rightarrow> string) \<Rightarrow> (string \<Rightarrow> time) \<Rightarrow> (string \<rightharpoonup> duration) \<Rightarrow> duration \<Rightarrow>
   (string \<times> string) list \<Rightarrow> 'r world \<Rightarrow> 'r world" where
  "check_all rc fmt now thresholds dflt [] w = w"
| "check_all rc fmt now thresholds dflt ((vid, fid) # vs) w =
     (let threshold = (case thresholds fid of None \<Rightarrow> dflt | Some t \<Rightarrow> t)
      in check_all rc fmt now thresholds dflt vs (check rc fmt (now vid) vid fid threshold w))"

definition active_vehicles :: "db \<Rightarrow> (string \<times> string) list" where
  "active_vehicles d = map (\<lambda>v. (ve_vehicle_id v, ve_fleet_id v)) (filter ve_active (vehicle_registry d))"

definition heartbeat_tick ::
  "'r redis_client \<Rightarrow> (time \<Rightarrow> string) \<Rightarrow> (string \<Rightarrow> time) \<Rightarrow> HeartbeatMonitor \<Rightarrow> 'r world \<Rightarrow> 'r world" where
  "heartbeat_tick rc fmt now h w =
     (case loadFleetThresholds (jw_pg w) of
        (thresholds, p1) \<Rightarrow>
          (case pg_query (\<lambda>t d. active_vehicles d) p1 of
             (Inl err, p2) \<Rightarrow> w\<lparr>jw_pg := p2\<rparr>
           | (Inr vs, p2) \<Rightarrow> check_all rc fmt now thresholds (hm_defaultThreshold h) vs (w\<lparr>jw_pg := p2\<rparr>)))"

definition heartbeat_Run ::
  "'r redis_client \<Rightarrow> (time \<Rightarrow> string) \<Rightarrow> HeartbeatMonitor \<Rightarrow> (string \<Rightarrow> time) \<Rightarrow>
   (('r world \<Rightarrow> 'r world) \<times> (string \<Rightarrow> time)) option list \<Rightarrow> 'r world \<Rightarrow> 'r world" where
  "heartbeat_Run rc fmt h = job_Run (\<lambda>now. heartbeat_tick rc fmt now h)"

section \<open>deviation_detector.go\<close>

record DeviationDetector =
  dd_interval :: duration

definition NewDeviationDetector :: "int \<Rightarrow> DeviationDetector" where
  "NewDeviationDetector intervalSec = \<lparr>dd_interval = intervalFromSeconds intervalSec\<rparr>"

record activeTrip =
  at_tripID :: string
  at_vehicleID :: string
  at_fleetID :: string
  at_corridorRadiusKm :: float64
  at_stops :: "stopPoint list"

definition in_progress_routes :: "db \<Rightarrow> (string \<times> string \<times> string \<times> float64) list" where
  "in_progress_routes d =
     concat (map (\<lambda>t. concat (map (\<lambda>v. map (\<lambda>ro. (tr_trip_id t, tr_vehicle_id t, ve_fleet_id v, ro_corridor_radius_km ro))
                (filter (\<lambda>ro. ro_route_id ro = tr_route_id t) (route_registry d)))
              (filter (\<lambda>v. ve_vehicle_id v = tr_vehicle_id t) (vehicle_registry d))))
       (filter (\<lambda>t. tr_status t = TripInProgress) (trip d)))"

definition stops_of_trip :: "string \<Rightarrow> db \<Rightarrow> stop_row list" where
  "stops_of_trip tripID d =
     sort_key st_stop_sequence
       (concat (map (\<lambda>t. filter (\<lambda>s. st_route_id s = tr_route_id t) (route_stops d))
          (filter (\<lambda>t. tr_trip_id t = tripID) (trip d))))"

definition loadRouteStops :: "string \<Rightarrow> pg \<Rightarrow> (sql_err + stopPoint list) \<times> pg" where
  "loadRouteStops tripID p =
     pg_query (\<lambda>now d. map (\<lambda>s. \<lparr>sp_lat = st_lat s, sp_lng = st_lng s\<rparr>) (stops_of_trip tripID d)) p"

fun load_stops :: "(string \<times> string \<times> string \<times> float64) list \<Rightarrow> pg \<Rightarrow> activeTrip list \<times> pg" where
  "load_stops [] p = ([], p)"
| "load_stops ((tid, vid, fid, radius) # rows) p =
     (case loadRouteStops tid p of
        (Inl err, p1) \<Rightarrow> load_stops rows p1
      | (Inr stops, p1) \<Rightarrow>
          (case load_stops rows p1 of
             (ts, p2) \<Rightarrow> (\<lparr>at_tripID = tid, at_vehicleID = vid, at_fleetID = fid,
                           at_corridorRadiusKm = radius, at_stops = stops\<rparr> # ts, p2)))"

definition deviation_loadActiveTrips :: "pg \<Rightarrow> (sql_err + activeTrip list) \<times> pg" where
  "deviation_loadActiveTrips p =
     (case pg_query (\<lambda>now d. in_progress_routes d) p of
        (Inl err, p1) \<Rightarrow> (Inl err, p1)
      | (Inr rows, p1) \<Rightarrow> (case load_stops rows p1 of (ts, p2) \<Rightarrow> (Inr ts, p2)))"

definition deviation_insert :: "string \<Rightarrow> string \<Rightarrow> float64 \<Rightarrow> nat statement" where
  "deviation_insert vid severity dev now d =
     (case registry_of d vid of
        None \<Rightarrow> (Inr 0, d)
      | Some v \<Rightarrow> insert_alert_row False vid (ve_fleet_id v) ''ROUTE_DEVIATION'' severity dev now d)"

fun f64_twice :: "float64 \<Rightarrow> float64" where
  "f64_twice (Fin x) = Fin (x * 2)"
| "f64_twice (Inf s) = Inf s"
| "f64_twice NaN = NaN"

definition deviation_dedup_key :: "string \<Rightarrow> string \<Rightarrow> string" where
  "deviation_dedup_key vid tid = ''deviation:'' @ vid @ '':'' @ tid"

definition fireAlert :: "'r redis_client \<Rightarrow> activeTrip \<Rightarrow> float64 \<Rightarrow> 'r world \<Rightarrow> 'r world" where
  "fireAlert rc t deviationKm w =
     (case cmd_SetNX rc (deviation_dedup_key (at_vehicleID t) (at_tripID t)) ''1'' (10 * Minute) (jw_redis w) of
        (Inr True, r1) \<Rightarrow>
          (let severity = (if f64_less (f64_twice (at_corridorRadiusKm t)) deviationKm then ''CRITICAL'' else ''WARNING'')
           in case pg_run False (deviation_insert (at_vehicleID t) severity deviationKm) (jw_pg w) of
                (res, p1) \<Rightarrow> w\<lparr>jw_redis := r1, jw_pg := p1\<rparr>)
      | (_, r1) \<Rightarrow> put_redis r1 w)"

definition auto_resolve_stmt :: "string \<Rightarrow> nat statement" where
  "auto_resolve_stmt vid =
     update_alerts (\<lambda>a. al_vehicle_id a = vid \<and> al_alert_type a = ''ROUTE_DEVIATION'' \<and> al_resolved_at a = None)
       (\<lambda>now a. a\<lparr>al_resolved_at := Some now, al_resolved_by := Some ''system''\<rparr>)"

definition autoResolve :: "'r redis_client \<Rightarrow> string \<Rightarrow> string \<Rightarrow> 'r world \<Rightarrow> 'r world" where
  "autoResolve rc vid tid w =
     (case pg_run False (auto_resolve_stmt vid) (jw_pg w) of
        (Inl err, p1) \<Rightarrow> w\<lparr>jw_pg := p1\<rparr>
      | (Inr n, p1) \<Rightarrow>
          (case cmd_Del rc (deviation_dedup_key vid tid) (jw_redis w) of
             (e, r1) \<Rightarrow> w\<lparr>jw_pg := p1, jw_redis := r1\<rparr>))"

definition deviation_key :: "string \<Rightarrow> string" where
  "deviation_key vid = ''vehicle:'' @ vid @ '':deviation''"

definition checkTrip ::
  "'r redis_client \<Rightarrow> (string \<Rightarrow> float64 option) \<Rightarrow> activeTrip \<Rightarrow> 'r world \<Rightarrow> 'r world" where
  "checkTrip rc parseF t w =
     (case live_position rc parseF (at_vehicleID t) (jw_redis w) of
        (None, r1) \<Rightarrow> put_redis r1 w
      | (Some (lat, lng), r1) \<Rightarrow>
          (let minDist = minDistanceToRoute lat lng (at_stops t)
           in if f64_less (at_corridorRadiusKm t) minDist
              then (case cmd_Set rc (deviation_key (at_vehicleID t)) ''true'' 0 r1 of
                      (e, r2) \<Rightarrow>
                        (let w' = fireAlert rc t minDist (put_redis r2 w)
                         in w'\<lparr>jw_hub := BroadcastDeviation (at_fleetID t)
                              \<lparr>vd_VehicleID = at_vehicleID t, vd_TripID = at_tripID t,
                                 vd_DeviationKm = minDist\<rparr> (jw_hub w')\<rparr>))
              else (case cmd_Set rc (deviation_key (at_vehicleID t)) ''false'' 0 r1 of
                      (e, r2) \<Rightarrow> autoResolve rc (at_vehicleID t) (at_tripID t) (put_redis r2 w))))"

definition deviation_tick ::
  "'r redis_client \<Rightarrow> (string \<Rightarrow> float64 option) \<Rightarrow> 'r world \<Rightarrow> 'r world" where
  "deviation_tick rc parseF w =
     (case deviation_loadActiveTrips (jw_pg w) of
        (Inl err, p1) \<Rightarrow> w\<lparr>jw_pg := p1\<rparr>
      | (Inr ts, p1) \<Rightarrow> fold (checkTrip rc parseF) ts (w\<lparr>jw_pg := p1\<rparr>))"

definition deviation_Run ::
  "'r redis_client \<Rightarrow> (string \<Rightarrow> float64 option) \<Rightarrow> (('r world \<Rightarrow> 'r world) \<times> unit) option list \<Rightarrow> 'r world \<Rightarrow> 'r world" where
  "deviation_Run rc parseF = job_Run (\<lambda>u. deviation_tick rc parseF) ()"

section \<open>Lemmas\<close>

text \<open>What the ticks and the rest of the system keep, a run keeps.\<close>

lemma job_Run_inv:
  assumes "\<And>e w. I w \<Longrightarrow> I (tick e w)" "\<And>env e w. Some (env, e) \<in> set es \<Longrightarrow> I w \<Longrightarrow> I (env w)" "I w"
  shows "I (job_Run tick e es w)"
proof -
  have loop: "I (job_loop tick es v)" if "I v" "\<And>env e w. Some (env, e) \<in> set es \<Longrightarrow> I w \<Longrightarrow> I (env w)" for v es
    using that
  proof (induction es arbitrary: v)
    case (Cons x es)
    show ?case
    proof (cases x)
      case (Some ee)
      then obtain env e where x: "x = Some (env, e)" by (cases ee) auto
      have "I (env v)" using Cons.prems x by auto
      then have "I (tick e (env v))" by (rule assms(1))
      then have "I (job_loop tick es (tick e (env v)))" by (rule Cons.IH) (use Cons.prems(2) in auto)
      then show ?thesis using x by simp
    qed (use Cons.prems in simp)
  qed simp
  show ?thesis unfolding job_Run_def by (rule loop) (use assms in blast)+
qed

context redis_store
begin

lemma get_or_empty_frame:
  "get_or_empty rc key r = (v, r') \<Longrightarrow> clock r' = clock r \<and> view r' (clock r) = view r (clock r)"
  using get_frame by (fastforce simp: get_or_empty_def split: prod.splits sum.splits)

text \<open>A stored text is read, or the command failed.\<close>

lemma get_or_empty_value:
  assumes "get_or_empty rc key r = (v, r')" "view r (clock r) key = Some (RStr u)"
  shows "v = u \<or> (\<exists>e. fst (cmd_Get rc key r) = Inl (RedisErr e))"
proof -
  obtain x r1 where x: "cmd_Get rc key r = (x, r1)" by fastforce
  consider "x = Inl RedisNil" | e where "x = Inl (RedisErr e)" | s where "x = Inr s"
    by (metis redis_err.exhaust sum.exhaust)
  then show ?thesis
    using assms x get_value [of key r _ r1] get_nil [of key r r1] by cases (auto simp: get_or_empty_def)
qed

text \<open>What one check of the heartbeat monitor can announce.\<close>

lemma setOffline_hub:
  assumes "setOffline rc fmt vid fid seen w = w'"
  shows "jw_hub w' = jw_hub w \<or>
     jw_hub w' = broadcastEvent fid (newOfflineEvent fmt \<lparr>vo_VehicleID = vid, vo_LastSeenAt = seen\<rparr>) (jw_hub w) \<and>
     (view (jw_redis w) (clock (jw_redis w)) (online_key vid) = Some (RStr ''offline'') \<longrightarrow>
        (\<exists>r e. fst (cmd_Get rc (online_key vid) r) = Inl (RedisErr e)))"
proof -
  obtain current r1 where g: "get_or_empty rc (online_key vid) (jw_redis w) = (current, r1)" by fastforce
  show ?thesis
  proof (cases "current = ''offline''")
    case True
    then show ?thesis using assms g by (auto simp: setOffline_def)
  next
    case False
    then show ?thesis using assms g get_or_empty_value [OF g] by (auto simp: setOffline_def split: prod.splits)
  qed
qed

lemma check_hub:
  assumes "check rc fmt now vid fid threshold w = w'"
  defines "received \<equiv> map_of (hash_of (view (jw_redis w) (clock (jw_redis w)) (''vehicle:'' @ vid @ '':state''))) ''received_at''"
    and "failed \<equiv> \<exists>r e. fst (cmd_Get rc (online_key vid) r) = Inl (RedisErr e)"
    and "status \<equiv> view (jw_redis w) (clock (jw_redis w)) (online_key vid)"
  shows "jw_hub w' = jw_hub w \<or>
     (jw_hub w' = broadcastEvent fid (newOnlineEvent \<lparr>vn_VehicleID = vid\<rparr>) (jw_hub w) \<and>
        (\<exists>s n. received = Some s \<and> ParseInt s = Some n \<and> Sub now (time_Unix n) \<le> threshold) \<and>
        (status = Some (RStr ''online'') \<longrightarrow> failed)) \<or>
     (\<exists>seen. jw_hub w' = broadcastEvent fid (newOfflineEvent fmt \<lparr>vo_VehicleID = vid, vo_LastSeenAt = seen\<rparr>) (jw_hub w) \<and>
        (received = None \<and> seen = zero_time \<or>
         (\<exists>s n. received = Some s \<and> ParseInt s = Some n \<and> threshold < Sub now (time_Unix n) \<and> seen = time_Unix n)) \<and>
        (status = Some (RStr ''offline'') \<longrightarrow> failed))"
proof -
  let ?r = "jw_redis w"
  obtain x r1 where h: "cmd_HGet rc (''vehicle:'' @ vid @ '':state'') ''received_at'' ?r = (x, r1)" by fastforce
  have r1: "clock r1 = clock ?r" "view r1 (clock ?r) = view ?r (clock ?r)" using hget_frame [OF h] by auto
  consider (nil) "x = Inl RedisNil" | (err) e where "x = Inl (RedisErr e)"
    | (bad) s where "x = Inr s" "ParseInt s = None" | (val) s n where "x = Inr s" "ParseInt s = Some n"
    by (metis redis_err.exhaust sum.exhaust option.exhaust)
  then show ?thesis
  proof cases
    case nil
    then have "setOffline rc fmt vid fid zero_time (put_redis r1 w) = w'" using assms(1) h by (simp add: check_def)
    from setOffline_hub [OF this] show ?thesis
      using nil h hget_nil [of "''vehicle:'' @ vid @ '':state''" "''received_at''" ?r r1] r1
      by (simp add: received_def failed_def status_def)
  next
    case (val s n)
    obtain current r2 where g: "get_or_empty rc (online_key vid) r1 = (current, r2)" by fastforce
    have r2: "clock r2 = clock ?r" "view r2 (clock ?r) = view ?r (clock ?r)"
      using get_or_empty_frame [OF g] r1 by auto
    have recv: "received = Some s" using h val hget_value by (simp add: received_def)
    consider "threshold < Sub now (time_Unix n)" | "\<not> threshold < Sub now (time_Unix n)" "current \<noteq> ''online''"
      | "\<not> threshold < Sub now (time_Unix n)" "current = ''online''" by blast
    then show ?thesis
    proof cases
      case 1
      then have "setOffline rc fmt vid fid (time_Unix n) (put_redis r2 w) = w'"
        using assms(1) h val g by (simp add: check_def)
      from setOffline_hub [OF this] show ?thesis
        using recv val 1 r2 by (simp add: failed_def status_def)
    next
      case 2
      then have "jw_hub w' = broadcastEvent fid (newOnlineEvent \<lparr>vn_VehicleID = vid\<rparr>) (jw_hub w)"
        using assms(1) h val g by (auto simp: check_def split: prod.splits)
      moreover have "status = Some (RStr ''online'') \<longrightarrow> failed"
        using get_or_empty_value [OF g, of "''online''"] 2 r1 by (auto simp: failed_def status_def)
      ultimately show ?thesis using recv val 2 by (simp add: not_less)
    next
      case 3
      then show ?thesis using assms(1) h val g by (auto simp: check_def)
    qed
  qed (use assms(1) h in \<open>auto simp: check_def\<close>)
qed

end

text \<open>The deviation detector and the alert table.\<close>

lemma deviation_insert_inv:
  assumes "workflow_inv d" "deviation_insert vid sev dev now d = (x, d')"
  shows "workflow_inv d'"
proof (cases "registry_of d vid")
  case (Some v)
  then have "insert_alert_row False vid (ve_fleet_id v) ''ROUTE_DEVIATION'' sev dev now d = (x, d')"
    using assms(2) by (simp add: deviation_insert_def)
  then show ?thesis
    using insert_alert_row_wf [of d] assms(1)
    by (auto simp: workflow_inv_def insert_alert_row_def Let_def new_alert_def stamps_ok_def split: if_splits)
qed (use assms in \<open>simp add: deviation_insert_def\<close>)

lemma auto_resolve_inv: "workflow_inv d \<Longrightarrow> auto_resolve_stmt vid now d = (x, d') \<Longrightarrow> workflow_inv d'"
  unfolding auto_resolve_stmt_def by (erule (1) update_alerts_inv) (simp_all add: stamps_ok_def)

lemma fireAlert_inv: "workflow_inv (pg_db (jw_pg w)) \<Longrightarrow> workflow_inv (pg_db (jw_pg (fireAlert rc t km w)))"
  using pg_run_workflow_inv [OF deviation_insert_inv]
  by (auto simp: fireAlert_def Let_def split: prod.splits sum.splits bool.splits)

lemma autoResolve_inv: "workflow_inv (pg_db (jw_pg w)) \<Longrightarrow> workflow_inv (pg_db (jw_pg (autoResolve rc vid tid w)))"
  using pg_run_workflow_inv [OF auto_resolve_inv]
  by (auto simp: autoResolve_def split: prod.splits sum.splits)

lemma checkTrip_inv: "workflow_inv (pg_db (jw_pg w)) \<Longrightarrow> workflow_inv (pg_db (jw_pg (checkTrip rc parseF t w)))"
  by (auto simp: checkTrip_def Let_def fireAlert_inv autoResolve_inv split: prod.splits option.splits)

lemma load_stops_db: "load_stops rows p = (ts, p') \<Longrightarrow> pg_db p' = pg_db p \<and> pg_now p' = pg_now p"
proof (induction rows arbitrary: p ts)
  case (Cons row rows)
  obtain tid vid fid radius where row: "row = (tid, vid, fid, radius)" by (cases row)
  obtain res p1 where l: "loadRouteStops tid p = (res, p1)" by fastforce
  then have "pg_db p1 = pg_db p \<and> pg_now p1 = pg_now p" unfolding loadRouteStops_def by (rule pg_query_db)
  then show ?case using Cons l row by (cases res) (auto split: prod.splits)
qed simp

section \<open>Properties\<close>


definition idle_world :: "mem_redis world" where
  "idle_world = \<lparr>jw_redis = mem_empty 0 [], jw_pg = \<lparr>pg_db = empty_db, pg_now = 0, pg_plan = []\<rparr>, jw_hub = NewHub\<rparr>"

abbreviation "idle_client \<equiv> mem_client (\<lambda>_. ''0'')"


lemma deviation_tick_inv:
  assumes "workflow_inv (pg_db (jw_pg w))"
  shows "workflow_inv (pg_db (jw_pg (deviation_tick rc parseF w)))"
proof -
  have pass: "workflow_inv (pg_db (jw_pg (fold (checkTrip rc parseF) ts v)))" if "workflow_inv (pg_db (jw_pg v))" for ts v
    using that by (induction ts arbitrary: v) (simp_all add: checkTrip_inv)
  obtain res p1 where l: "deviation_loadActiveTrips (jw_pg w) = (res, p1)" by fastforce
  then have "pg_db p1 = pg_db (jw_pg w)"
    by (auto simp: deviation_loadActiveTrips_def dest!: pg_query_db load_stops_db split: prod.splits sum.splits)
  then show ?thesis
    using assms l pass [of "w\<lparr>jw_pg := p1\<rparr>"] by (cases res) (simp_all add: deviation_tick_def)
qed

text \<open>The deviation detector keeps the alert table consistent: from a table that satisfies its constraints and in which a
  time is set exactly when a name is, a run of the detector leads to such a table, whatever the positions, the
  routes and the failures of Redis and of the database, when the rest of the system keeps the table so
  between the ticks.\<close>

theorem deviation_run_consistent:
  assumes "workflow_inv (pg_db (jw_pg w))"
    and "\<And>env u v. Some (env, u) \<in> set es \<Longrightarrow> workflow_inv (pg_db (jw_pg v)) \<Longrightarrow> workflow_inv (pg_db (jw_pg (env v)))"
  shows "workflow_inv (pg_db (jw_pg (deviation_Run rc parseF es w)))"
  unfolding deviation_Run_def
  by (rule job_Run_inv [where I = "\<lambda>w. workflow_inv (pg_db (jw_pg w))"]) (use deviation_tick_inv assms in blast)+

theorem deviation_run_consistent_witness:
  "workflow_inv (pg_db (jw_pg (deviation_Run idle_client (\<lambda>_. None) [Some (id, ()), None] idle_world)))"
  by (rule deviation_run_consistent) (auto simp: idle_world_def workflow_inv_def alerts_wf_def empty_db_def)

text \<open>C38. A deviation that recurs within five minutes is lost: when the table holds a deviation alert of the vehicle
  from the last five minutes (resolved or not), raising another one wins the claim in Redis, fails on the
  exclusion constraint, stores nothing and keeps the claim, so that for ten minutes no further alert is tried.\<close>

theorem deviation_realert_lost:
  assumes "redis_server rc view clock published"
    and "cmd_SetNX rc (deviation_dedup_key (at_vehicleID t) (at_tripID t)) ''1'' (10 * Minute) (jw_redis w) = (Inr True, r1)"
    and "pg_plan (jw_pg w) = []" "registry_of (pg_db (jw_pg w)) (at_vehicleID t) = Some v"
    and "a \<in> set (vehicle_alerts (pg_db (jw_pg w)))" "al_vehicle_id a = at_vehicleID t" "al_alert_type a = ''ROUTE_DEVIATION''"
    and "al_created_at a \<le> pg_now (jw_pg w)" "pg_now (jw_pg w) < al_created_at a + 5 * Minute"
  shows "vehicle_alerts (pg_db (jw_pg (fireAlert rc t km w))) = vehicle_alerts (pg_db (jw_pg w)) \<and>
     (\<forall>now. clock (jw_redis w) \<le> now \<and> now < clock (jw_redis w) + 10 * Minute \<longrightarrow>
        view (jw_redis (fireAlert rc t km w)) now (deviation_dedup_key (at_vehicleID t) (at_tripID t)) = Some (RStr ''1''))"
proof -
  let ?d = "pg_db (jw_pg w)"
  have "alert_conflicts (new_alert i (at_vehicleID t) f ''ROUTE_DEVIATION'' s km (pg_now (jw_pg w))) ?d" for i f s
    using assms(5-9) unfolding alert_conflicts_def list_ex_iff
    by (intro bexI [of _ a]) (auto simp: dedup_conflict_def new_alert_def Minute_def)
  then have "vehicle_alerts (pg_db (jw_pg (fireAlert rc t km w))) = vehicle_alerts ?d"
    using assms(2-4)
    by (simp add: fireAlert_def pg_run_up deviation_insert_def insert_alert_row_def Let_def split: prod.splits)
  moreover have "jw_redis (fireAlert rc t km w) = r1"
    using assms(2) by (simp add: fireAlert_def Let_def split: prod.splits)
  ultimately show ?thesis using redis_server.setnx_claim_present [OF assms(1,2)] by simp
qed

definition deviated_db :: db where
  "deviated_db = empty_db\<lparr>vehicle_registry := [\<lparr>ve_vehicle_id = ''V'', ve_fleet_id = ''F'', ve_display_name = ''V'',
       ve_registration_number = ''R'', ve_vehicle_type = ''truck'', ve_capacity_tonnes = None,
       ve_manufacture_year = None, ve_active = True\<rparr>],
     vehicle_alerts := [new_alert 1 ''V'' ''F'' ''ROUTE_DEVIATION'' ''WARNING'' (Fin 30) 0]\<rparr>"

theorem deviation_realert_lost_witness:
  "vehicle_alerts (pg_db (jw_pg (fireAlert idle_client \<lparr>at_tripID = ''T'', at_vehicleID = ''V'', at_fleetID = ''F'',
       at_corridorRadiusKm = Fin 25, at_stops = []\<rparr> (Fin 40)
     (idle_world\<lparr>jw_pg := \<lparr>pg_db = deviated_db, pg_now = 4 * Minute, pg_plan = []\<rparr>\<rparr>)))) =
   [new_alert 1 ''V'' ''F'' ''ROUTE_DEVIATION'' ''WARNING'' (Fin 30) 0]"
proof -
  let ?t = "\<lparr>at_tripID = ''T'', at_vehicleID = ''V'', at_fleetID = ''F'', at_corridorRadiusKm = Fin 25, at_stops = []\<rparr>"
  let ?w = "idle_world\<lparr>jw_pg := \<lparr>pg_db = deviated_db, pg_now = 4 * Minute, pg_plan = []\<rparr>\<rparr>"
  let ?k = "deviation_dedup_key (at_vehicleID ?t) (at_tripID ?t)"
  have "cmd_SetNX idle_client ?k ''1'' (10 * Minute) (jw_redis ?w) =
      (Inr True, (mem_empty 0 [])\<lparr>mr_keys := [?k \<mapsto> (RStr ''1'', Some (10 * Minute))]\<rparr>)"
    by (simp add: idle_world_def mem_SetNX_def mem_faulty_def mem_empty_def mem_now_def mem_view_def mem_deadline_def Minute_def)
  from deviation_realert_lost [OF mem.redis_server_axioms this, of _ "new_alert 1 ''V'' ''F'' ''ROUTE_DEVIATION'' ''WARNING'' (Fin 30) 0" "Fin 40"]
  show ?thesis by (simp add: deviated_db_def registry_of_def new_alert_def Minute_def)
qed

end
