(* ===== verification/Serving_Stops.thy ===== *)
theory Serving_Stops
  imports Serving_Jobs
begin

text \<open>
  The stop detector and the ETA estimator (\<open>src/serving/internal/jobs/stop_detector.go\<close> and
  \<open>eta_estimator.go\<close>): the progress of a trip along the stops of its route as a state machine kept
  in the database, and the estimate for the next stop kept in Redis.
\<close>

section \<open>stop_detector.go\<close>

record StopDetector =
  sd_interval :: duration

definition NewStopDetector :: "int \<Rightarrow> StopDetector" where
  "NewStopDetector intervalSec = \<lparr>sd_interval = intervalFromSeconds intervalSec\<rparr>"

record tripStopRow =
  ts_tripID :: string
  ts_vehicleID :: string
  ts_fleetID :: string
  ts_stopID :: string
  ts_stopName :: string
  ts_stopSequence :: int
  ts_stopLat :: float64
  ts_stopLng :: float64
  ts_arrivalRadiusKm :: float64
  ts_status :: string
  ts_isFinalStop :: bool

text \<open>\<open>LEFT JOIN trip_stop_progress\<close>, whose key is the trip and the stop, and \<open>COALESCE(tsp.status, 'PENDING')\<close>.\<close>

definition progress_of :: "db \<Rightarrow> string \<Rightarrow> string \<Rightarrow> progress_row option" where
  "progress_of d tid sid = find (\<lambda>p. pr_trip_id p = tid \<and> pr_stop_id p = sid) (trip_stop_progress d)"

definition stop_status :: "db \<Rightarrow> string \<Rightarrow> string \<Rightarrow> string" where
  "stop_status d tid sid = (case progress_of d tid sid of None \<Rightarrow> StopPending | Some p \<Rightarrow> pr_status p)"

text \<open>The last column is \<open>rs.stop_sequence = MAX(rs.stop_sequence) OVER (PARTITION BY rs.route_id)\<close>.\<close>

definition trip_stops_query :: "string \<Rightarrow> db \<Rightarrow> tripStopRow list" where
  "trip_stops_query tripID d =
     sort_key ts_stopSequence
       (concat (map (\<lambda>t. concat (map (\<lambda>v.
          (let stops = filter (\<lambda>s. st_route_id s = tr_route_id t) (route_stops d)
           in map (\<lambda>s. \<lparr>ts_tripID = tr_trip_id t, ts_vehicleID = tr_vehicle_id t, ts_fleetID = ve_fleet_id v,
                ts_stopID = st_stop_id s, ts_stopName = st_stop_name s, ts_stopSequence = st_stop_sequence s,
                ts_stopLat = st_lat s, ts_stopLng = st_lng s, ts_arrivalRadiusKm = st_arrival_radius_km s,
                ts_status = stop_status d (tr_trip_id t) (st_stop_id s),
                ts_isFinalStop = list_all (\<lambda>s'. st_stop_sequence s' \<le> st_stop_sequence s) stops\<rparr>) stops))
            (filter (\<lambda>v. ve_vehicle_id v = tr_vehicle_id t) (vehicle_registry d))))
          (filter (\<lambda>t. tr_trip_id t = tripID) (trip d))))"

definition loadTripStops :: "string \<Rightarrow> pg \<Rightarrow> (sql_err + tripStopRow list) \<times> pg" where
  "loadTripStops tripID p = pg_query (\<lambda>now d. trip_stops_query tripID d) p"

definition stop_loadActiveTrips :: "pg \<Rightarrow> (sql_err + string list) \<times> pg" where
  "stop_loadActiveTrips p =
     pg_query (\<lambda>now d. map tr_trip_id (filter (\<lambda>t. tr_status t = ''IN_PROGRESS'') (trip d))) p"

text \<open>\<open>COALESCE($2, arrived_at)\<close>: a \<open>nil\<close> argument keeps the column. The \<open>CHECK\<close> on the status fails the
  statement for another text.\<close>

definition coalesce :: "'a option \<Rightarrow> 'a option \<Rightarrow> 'a option" where
  "coalesce x y = (case x of None \<Rightarrow> y | Some v \<Rightarrow> Some v)"

definition mark_stmt :: "string \<Rightarrow> string \<Rightarrow> string \<Rightarrow> time option \<Rightarrow> time option \<Rightarrow> nat statement" where
  "mark_stmt tid sid status arrivedAt departedAt now d =
     (let P = (\<lambda>p. pr_trip_id p = tid \<and> pr_stop_id p = sid);
          n = length (filter P (trip_stop_progress d))
      in if n \<noteq> 0 \<and> \<not> chk_stop_status status then (Inl (CheckViolation ''chk_stop_status''), d)
         else (Inr n, d\<lparr>trip_stop_progress := map (\<lambda>p. if P p
                  then p\<lparr>pr_status := status, pr_arrived_at := coalesce arrivedAt (pr_arrived_at p),
                         pr_departed_at := coalesce departedAt (pr_departed_at p)\<rparr> else p)
                (trip_stop_progress d)\<rparr>))"

definition markStop :: "string \<Rightarrow> string \<Rightarrow> string \<Rightarrow> time option \<Rightarrow> time option \<Rightarrow> 'r world \<Rightarrow> 'r world" where
  "markStop tid sid status arrivedAt departedAt w =
     w\<lparr>jw_pg := snd (pg_run False (mark_stmt tid sid status arrivedAt departedAt) (jw_pg w))\<rparr>"

definition complete_stmt :: "string \<Rightarrow> nat statement" where
  "complete_stmt tid now d =
     (Inr (length (filter (\<lambda>t. tr_trip_id t = tid) (trip d))),
      d\<lparr>trip := map (\<lambda>t. if tr_trip_id t = tid then t\<lparr>tr_status := ''COMPLETED'', tr_completed_at := Some now\<rparr> else t) (trip d)\<rparr>)"

definition completeTrip :: "string \<Rightarrow> 'r world \<Rightarrow> 'r world" where
  "completeTrip tid w = w\<lparr>jw_pg := snd (pg_run False (complete_stmt tid) (jw_pg w))\<rparr>"

definition maxArrivedSeq :: "tripStopRow list \<Rightarrow> int" where
  "maxArrivedSeq stops =
     fold (\<lambda>st m. if (ts_status st = ''ARRIVED'' \<or> ts_status st = ''DEPARTED'') \<and> m < ts_stopSequence st
                  then ts_stopSequence st else m) stops 0"

text \<open>The body of the loop over the stops.\<close>

definition process_stop ::
  "(time \<Rightarrow> string) \<Rightarrow> (string \<Rightarrow> time) \<Rightarrow> string \<Rightarrow> string \<Rightarrow> float64 \<Rightarrow> float64 \<Rightarrow> int \<Rightarrow> tripStopRow \<Rightarrow> 'r world \<Rightarrow> 'r world" where
  "process_stop fmt now vid fid lat lng maxSeq st w =
     (let dist = haversineKm lat lng (ts_stopLat st) (ts_stopLng st) in
      if ts_status st = ''PENDING''
      then (if ts_stopSequence st < maxSeq
            then markStop (ts_tripID st) (ts_stopID st) ''MISSED'' None None w
            else if f64_le dist (ts_arrivalRadiusKm st)
            then (let t = now (ts_stopID st);
                      w1 = markStop (ts_tripID st) (ts_stopID st) ''ARRIVED'' (Some t) None w;
                      w2 = w1\<lparr>jw_hub := BroadcastStopArrived fmt fid
                             \<lparr>sa_VehicleID = vid, sa_TripID = ts_tripID st, sa_StopID = ts_stopID st,
                              sa_StopName = ts_stopName st, sa_ArrivedAt = t\<rparr> (jw_hub w1)\<rparr>
                  in if ts_isFinalStop st then completeTrip (ts_tripID st) w2 else w2)
            else w)
      else if ts_status st = ''ARRIVED''
      then (if f64_less (ts_arrivalRadiusKm st) dist
            then markStop (ts_tripID st) (ts_stopID st) ''DEPARTED'' None (Some (now (ts_stopID st))) w
            else w)
      else w)"

definition processTrip ::
  "'r redis_client \<Rightarrow> (string \<Rightarrow> float64 option) \<Rightarrow> (time \<Rightarrow> string) \<Rightarrow> (string \<Rightarrow> time) \<Rightarrow> string \<Rightarrow> 'r world \<Rightarrow> 'r world" where
  "processTrip rc parseF fmt now tripID w =
     (case loadTripStops tripID (jw_pg w) of
        (Inl err, p1) \<Rightarrow> w\<lparr>jw_pg := p1\<rparr>
      | (Inr [], p1) \<Rightarrow> w\<lparr>jw_pg := p1\<rparr>
      | (Inr (st0 # rest), p1) \<Rightarrow>
          (let vid = ts_vehicleID st0; fid = ts_fleetID st0 in
           case live_position rc parseF vid (jw_redis w) of
             (None, r1) \<Rightarrow> w\<lparr>jw_pg := p1, jw_redis := r1\<rparr>
           | (Some (lat, lng), r1) \<Rightarrow>
               fold (process_stop fmt now vid fid lat lng (maxArrivedSeq (st0 # rest))) (st0 # rest)
                 (w\<lparr>jw_pg := p1, jw_redis := r1\<rparr>)))"

definition stop_tick ::
  "'r redis_client \<Rightarrow> (string \<Rightarrow> float64 option) \<Rightarrow> (time \<Rightarrow> string) \<Rightarrow> (string \<Rightarrow> string \<Rightarrow> time) \<Rightarrow> 'r world \<Rightarrow> 'r world" where
  "stop_tick rc parseF fmt now w =
     (case stop_loadActiveTrips (jw_pg w) of
        (Inl err, p1) \<Rightarrow> w\<lparr>jw_pg := p1\<rparr>
      | (Inr tids, p1) \<Rightarrow> fold (\<lambda>tid. processTrip rc parseF fmt (now tid) tid) tids (w\<lparr>jw_pg := p1\<rparr>))"

definition stop_Run ::
  "'r redis_client \<Rightarrow> (string \<Rightarrow> float64 option) \<Rightarrow> (time \<Rightarrow> string) \<Rightarrow> (string \<Rightarrow> string \<Rightarrow> time) \<Rightarrow>
   (('r world \<Rightarrow> 'r world) \<times> (string \<Rightarrow> string \<Rightarrow> time)) option list \<Rightarrow> 'r world \<Rightarrow> 'r world" where
  "stop_Run rc parseF fmt = job_Run (\<lambda>now. stop_tick rc parseF fmt now)"

section \<open>eta_estimator.go\<close>

record ETAEstimator =
  ee_interval :: duration

definition NewETAEstimator :: "int \<Rightarrow> ETAEstimator" where
  "NewETAEstimator intervalSec = \<lparr>ee_interval = intervalFromSeconds intervalSec\<rparr>"

record nextStop =
  ns_vehicleID :: string
  ns_lat :: float64
  ns_lng :: float64

text \<open>The rows, by trip and within a trip by sequence.\<close>

definition pending_stops :: "db \<Rightarrow> (string \<times> nextStop) list" where
  "pending_stops d =
     concat (map (\<lambda>t. map (\<lambda>s. (tr_trip_id t, \<lparr>ns_vehicleID = tr_vehicle_id t, ns_lat = st_lat s, ns_lng = st_lng s\<rparr>))
         (sort_key st_stop_sequence
           (filter (\<lambda>s. st_route_id s = tr_route_id t \<and> stop_status d (tr_trip_id t) (st_stop_id s) = ''PENDING'')
              (route_stops d))))
       (filter (\<lambda>t. tr_status t = ''IN_PROGRESS'') (trip d)))"

text \<open>The map from trips to their first pending stop, as an association list in the order of insertion.\<close>

definition first_per_trip :: "(string \<times> nextStop) list \<Rightarrow> (string \<times> nextStop) list" where
  "first_per_trip rows =
     fold (\<lambda>(tid, ns) next. if tid \<in> fst ` set next then next else next @ [(tid, ns)]) rows []"

text \<open>\<open>time.Duration(x)\<close> of a \<open>float64\<close>: towards zero; outside the range of \<open>int64\<close> the result is left to the
  implementation (\<open>conv\<close>).\<close>

definition f64_int :: "(float64 \<Rightarrow> int) \<Rightarrow> float64 \<Rightarrow> int" where
  "f64_int conv x =
     (case x of
        Fin r \<Rightarrow> (let n = (if 0 \<le> r then \<lfloor>r\<rfloor> else - \<lfloor>- r\<rfloor>) in if in_int64 n then n else conv x)
      | _ \<Rightarrow> conv x)"

text \<open>The speed used: the reported one when it is above 5 km/h, else 60.\<close>

definition eta_speed :: "(string \<Rightarrow> float64 option) \<Rightarrow> string option \<Rightarrow> float64" where
  "eta_speed parseF v =
     (case Option.bind v parseF of
        None \<Rightarrow> Fin 60
      | Some s \<Rightarrow> if f64_less (Fin 5) s then s else Fin 60)"

text \<open>\<open>(distKm / speedKmh) * 60\<close>; a finite distance over an infinite speed is 0. The speed is positive.\<close>

definition eta_minutes :: "float64 \<Rightarrow> float64 \<Rightarrow> float64" where
  "eta_minutes distKm speedKmh =
     (case (distKm, speedKmh) of
        (Fin x, Fin y) \<Rightarrow> Fin ((x / y) * 60)
      | (Fin x, Inf s) \<Rightarrow> Fin 0
      | (Inf s, Fin y) \<Rightarrow> Inf s
      | _ \<Rightarrow> NaN)"

definition eta_key :: "string \<Rightarrow> string" where
  "eta_key tid = ''trip:'' @ tid @ '':eta''"

definition computeAndStore ::
  "'r redis_client \<Rightarrow> (string \<Rightarrow> float64 option) \<Rightarrow> (time \<Rightarrow> string) \<Rightarrow> (float64 \<Rightarrow> int) \<Rightarrow> time \<Rightarrow> string \<Rightarrow> nextStop \<Rightarrow> 'r \<Rightarrow> 'r" where
  "computeAndStore rc parseF fmt conv now tripID ns r =
     (case cmd_HMGet rc (''vehicle:'' @ ns_vehicleID ns @ '':state'') [''lat'', ''lng'', ''speed_kmh''] r of
        (Inr (Some la # Some lo # sp # rest), r1) \<Rightarrow>
          (case (parseF la, parseF lo) of
             (Some vLat, Some vLng) \<Rightarrow>
               (let distKm = haversineKm vLat vLng (ns_lat ns) (ns_lng ns);
                    etaMinutes = eta_minutes distKm (eta_speed parseF sp);
                    eta = now + duration_of (f64_int conv etaMinutes) Minute
                in snd (cmd_Set rc (eta_key tripID) (fmt eta) (10 * Minute) r1))
           | _ \<Rightarrow> r1)
      | (_, r1) \<Rightarrow> r1)"

definition eta_tick ::
  "'r redis_client \<Rightarrow> (string \<Rightarrow> float64 option) \<Rightarrow> (time \<Rightarrow> string) \<Rightarrow> (float64 \<Rightarrow> int) \<Rightarrow> (string \<Rightarrow> time) \<Rightarrow> 'r world \<Rightarrow> 'r world" where
  "eta_tick rc parseF fmt conv now w =
     (case pg_query (\<lambda>t d. pending_stops d) (jw_pg w) of
        (Inl err, p1) \<Rightarrow> w\<lparr>jw_pg := p1\<rparr>
      | (Inr rows, p1) \<Rightarrow>
          w\<lparr>jw_pg := p1,
            jw_redis := fold (\<lambda>(tid, ns). computeAndStore rc parseF fmt conv (now tid) tid ns) (first_per_trip rows) (jw_redis w)\<rparr>)"

definition eta_Run ::
  "'r redis_client \<Rightarrow> (string \<Rightarrow> float64 option) \<Rightarrow> (time \<Rightarrow> string) \<Rightarrow> (float64 \<Rightarrow> int) \<Rightarrow> (string \<Rightarrow> time) \<Rightarrow>
   (('r world \<Rightarrow> 'r world) \<times> (string \<Rightarrow> time)) option list \<Rightarrow> 'r world \<Rightarrow> 'r world" where
  "eta_Run rc parseF fmt conv = job_Run (\<lambda>now. eta_tick rc parseF fmt conv now)"

section \<open>The state machine of a stop\<close>

text \<open>The order of the states of a stop: from pending to arrived and departed, or to missed.\<close>

definition stop_le :: "string \<Rightarrow> string \<Rightarrow> bool" where
  "stop_le s s' \<longleftrightarrow> s = s' \<or> s = StopPending \<and> s' \<in> {StopArrived, StopDeparted, StopMissed} \<or>
     s = StopArrived \<and> s' = StopDeparted"

text \<open>A row of the progress table has the times its status calls for.\<close>

definition stop_stamped :: "progress_row \<Rightarrow> bool" where
  "stop_stamped p \<longleftrightarrow> (pr_status p \<in> {StopArrived, StopDeparted} \<longrightarrow> pr_arrived_at p \<noteq> None) \<and>
     (pr_status p = StopDeparted \<longrightarrow> pr_departed_at p \<noteq> None)"

lemmas stop_names = StopPending_def StopArrived_def StopDeparted_def StopMissed_def

lemma stop_le_refl [simp]: "stop_le s s"
  by (simp add: stop_le_def)

lemma stop_le_trans: "stop_le s t \<Longrightarrow> stop_le t u \<Longrightarrow> stop_le s u"
  by (auto simp: stop_le_def stop_names)

text \<open>What a pass may do to a row, when it works on the trips \<open>tids\<close>.\<close>

definition row_le :: "string set \<Rightarrow> progress_row \<Rightarrow> progress_row \<Rightarrow> bool" where
  "row_le tids p q \<longleftrightarrow> pr_trip_id q = pr_trip_id p \<and> pr_stop_id q = pr_stop_id p \<and>
     stop_le (pr_status p) (pr_status q) \<and> (stop_stamped p \<longrightarrow> stop_stamped q) \<and>
     (chk_stop_status (pr_status p) \<longrightarrow> chk_stop_status (pr_status q)) \<and> (pr_trip_id p \<notin> tids \<longrightarrow> q = p)"

definition trip_le :: "time \<Rightarrow> string set \<Rightarrow> trip_row \<Rightarrow> trip_row \<Rightarrow> bool" where
  "trip_le now tids t u \<longleftrightarrow> u = t \<or>
     tr_trip_id t \<in> tids \<and> u = t\<lparr>tr_status := ''COMPLETED'', tr_completed_at := Some now\<rparr>"

definition advance :: "time \<Rightarrow> string set \<Rightarrow> db \<Rightarrow> db \<Rightarrow> bool" where
  "advance now tids d d' \<longleftrightarrow>
     (\<exists>ts ps. d' = d\<lparr>trip := ts, trip_stop_progress := ps\<rparr> \<and>
        list_all2 (trip_le now tids) (trip d) ts \<and> list_all2 (row_le tids) (trip_stop_progress d) ps)"

lemma row_le_refl [simp]: "row_le tids p p"
  by (simp add: row_le_def)

lemma row_le_trans: "row_le tids p q \<Longrightarrow> row_le tids q r \<Longrightarrow> row_le tids p r"
  unfolding row_le_def using stop_le_trans by metis

lemma trip_le_refl [simp]: "trip_le now tids t t"
  by (simp add: trip_le_def)

lemma trip_le_trans: "trip_le now tids t u \<Longrightarrow> trip_le now tids u v \<Longrightarrow> trip_le now tids t v"
  by (auto simp: trip_le_def)

lemma advance_refl [simp]: "advance now tids d d"
proof -
  have "list_all2 (trip_le now tids) (trip d) (trip d)" "list_all2 (row_le tids) (trip_stop_progress d) (trip_stop_progress d)"
    by (simp_all add: list_all2_same)
  then show ?thesis unfolding advance_def by (intro exI [of _ "trip d"] exI [of _ "trip_stop_progress d"]) simp
qed

lemma advance_trans:
  assumes "advance now tids d e" "advance now tids e f"
  shows "advance now tids d f"
proof -
  obtain ts ps us qs where e: "e = d\<lparr>trip := ts, trip_stop_progress := ps\<rparr>"
      "list_all2 (trip_le now tids) (trip d) ts" "list_all2 (row_le tids) (trip_stop_progress d) ps"
    and f: "f = e\<lparr>trip := us, trip_stop_progress := qs\<rparr>"
      "list_all2 (trip_le now tids) (trip e) us" "list_all2 (row_le tids) (trip_stop_progress e) qs"
    using assms by (auto simp: advance_def)
  have "list_all2 (trip_le now tids) (trip d) us"
    by (rule list_all2_trans [OF _ e(2)]) (use f e trip_le_trans in auto)
  moreover have "list_all2 (row_le tids) (trip_stop_progress d) qs"
    by (rule list_all2_trans [OF _ e(3)]) (use f e row_le_trans in auto)
  ultimately show ?thesis unfolding advance_def e(1) f(1) by (intro exI conjI) simp_all
qed

lemma advance_keys:
  assumes "advance now tids d d'"
  shows "map tr_trip_id (trip d') = map tr_trip_id (trip d)"
    "map (\<lambda>p. (pr_trip_id p, pr_stop_id p)) (trip_stop_progress d') = map (\<lambda>p. (pr_trip_id p, pr_stop_id p)) (trip_stop_progress d)"
    "route_stops d' = route_stops d" "vehicle_registry d' = vehicle_registry d"
    "driver_registry d' = driver_registry d" "route_registry d' = route_registry d" "fleet_config d' = fleet_config d"
  using assms unfolding advance_def
  by (auto elim!: list_all2_map_eq simp: trip_le_def row_le_def)

lemma advance_wf:
  assumes "advance now tids d d'" "registry_wf d"
  shows "registry_wf d'"
proof -
  obtain ts ps where d': "d' = d\<lparr>trip := ts, trip_stop_progress := ps\<rparr>"
    "list_all2 (trip_le now tids) (trip d) ts" "list_all2 (row_le tids) (trip_stop_progress d) ps"
    using assms(1) by (auto simp: advance_def)
  have "list_all (\<lambda>t. chk_trip_status (tr_status t)) ts"
    by (rule list_all2_list_all [OF d'(2), where P = "\<lambda>t. chk_trip_status (tr_status t)"])
       (use assms(2) in \<open>auto simp: registry_wf_def trip_le_def chk_trip_status_def\<close>)
  moreover have "list_all (\<lambda>p. chk_stop_status (pr_status p)) ps"
    by (rule list_all2_list_all [OF d'(3), where P = "\<lambda>p. chk_stop_status (pr_status p)"]) (use assms(2) in \<open>auto simp: registry_wf_def row_le_def\<close>)
  ultimately show ?thesis
    using assms(2) advance_keys [OF assms(1)] d'(1) by (simp add: registry_wf_def)
qed

text \<open>The two statements; a statement that is run fails or takes effect once.\<close>

lemma mark_advance:
  assumes "tid \<in> tids"
    and "\<And>p. p \<in> set (trip_stop_progress d) \<Longrightarrow> pr_trip_id p = tid \<Longrightarrow> pr_stop_id p = sid \<Longrightarrow>
           stop_le (pr_status p) status \<and>
           (stop_stamped p \<longrightarrow> stop_stamped (p\<lparr>pr_status := status, pr_arrived_at := coalesce a (pr_arrived_at p),
              pr_departed_at := coalesce l (pr_departed_at p)\<rparr>))"
    and "chk_stop_status status"
  shows "advance now tids d (snd (mark_stmt tid sid status a l t d))"
proof -
  let ?g = "\<lambda>p. if pr_trip_id p = tid \<and> pr_stop_id p = sid
     then p\<lparr>pr_status := status, pr_arrived_at := coalesce a (pr_arrived_at p),
            pr_departed_at := coalesce l (pr_departed_at p)\<rparr> else p"
  have "list_all2 (row_le tids) (trip_stop_progress d) (map ?g (trip_stop_progress d))"
    using assms by (intro list_all2_map_left) (auto simp: row_le_def)
  moreover have "snd (mark_stmt tid sid status a l t d) = d\<lparr>trip := trip d, trip_stop_progress := map ?g (trip_stop_progress d)\<rparr>"
    using assms(3) by (simp add: mark_stmt_def Let_def)
  ultimately show ?thesis
    unfolding advance_def by (intro exI [of _ "trip d"] exI conjI) (auto simp: list_all2_same)
qed

lemma complete_advance: "tid \<in> tids \<Longrightarrow> advance now tids d (snd (complete_stmt tid now d))"
proof -
  assume tid: "tid \<in> tids"
  let ?g = "\<lambda>t. if tr_trip_id t = tid then t\<lparr>tr_status := ''COMPLETED'', tr_completed_at := Some now\<rparr> else t"
  have "list_all2 (trip_le now tids) (trip d) (map ?g (trip d))"
    using tid by (intro list_all2_map_left) (auto simp: trip_le_def)
  then show ?thesis
    unfolding advance_def complete_stmt_def
    by (intro exI [of _ "map ?g (trip d)"] exI [of _ "trip_stop_progress d"]) (simp add: list_all2_same)
qed

lemma pg_run_advance:
  assumes "advance (pg_now p) tids (pg_db p) (snd (stmt (pg_now p) (pg_db p)))"
  shows "advance (pg_now p) tids (pg_db p) (pg_db (snd (pg_run False stmt p)))" "pg_now (snd (pg_run False stmt p)) = pg_now p"
proof -
  obtain r p' where r: "pg_run False stmt p = (r, p')" by fastforce
  then show "pg_now (snd (pg_run False stmt p)) = pg_now p" using pg_run_now by simp
  show "advance (pg_now p) tids (pg_db p) (pg_db (snd (pg_run False stmt p)))"
    using pg_run_db [OF r] r assms by auto
qed

text \<open>The snapshot a pass works on still describes the rows of the stops to come.\<close>

definition snapshot_of :: "db \<Rightarrow> tripStopRow list \<Rightarrow> bool" where
  "snapshot_of d sts \<longleftrightarrow>
     (\<forall>st\<in>set sts. \<forall>p\<in>set (trip_stop_progress d).
        pr_trip_id p = ts_tripID st \<and> pr_stop_id p = ts_stopID st \<longrightarrow> pr_status p = ts_status st)"

lemma mark_other_rows:
  "p \<in> set (trip_stop_progress (snd (mark_stmt tid sid status a l t d))) \<Longrightarrow> pr_stop_id p \<noteq> sid \<Longrightarrow>
   p \<in> set (trip_stop_progress d)"
  by (auto simp: mark_stmt_def Let_def split: if_splits)

lemma markStop_effect:
  fixes w :: "'r world"
  assumes "ts_tripID st \<in> tids" "snapshot_of (pg_db (jw_pg w)) (st # sts)" "ts_stopID st \<notin> ts_stopID ` set sts"
    and "stop_le (ts_status st) status" "status \<in> {StopArrived, StopDeparted, StopMissed}"
    and "status = StopArrived \<longrightarrow> a \<noteq> None" "status = StopDeparted \<longrightarrow> l \<noteq> None \<and> ts_status st = StopArrived"
  defines "w' \<equiv> markStop (ts_tripID st) (ts_stopID st) status a l w"
  shows "advance (pg_now (jw_pg w)) tids (pg_db (jw_pg w)) (pg_db (jw_pg w'))" "pg_now (jw_pg w') = pg_now (jw_pg w)"
    "snapshot_of (pg_db (jw_pg w')) sts" "jw_redis w' = jw_redis w" "jw_hub w' = jw_hub w"
proof -
  let ?d = "pg_db (jw_pg w)" and ?s = "mark_stmt (ts_tripID st) (ts_stopID st) status a l"
  have adv: "advance (pg_now (jw_pg w)) tids ?d (snd (?s (pg_now (jw_pg w)) ?d))"
  proof (rule mark_advance [OF assms(1)])
    fix p
    assume "p \<in> set (trip_stop_progress ?d)" "pr_trip_id p = ts_tripID st" "pr_stop_id p = ts_stopID st"
    then have "pr_status p = ts_status st" using assms(2) by (simp add: snapshot_of_def)
    then show "stop_le (pr_status p) status \<and> (stop_stamped p \<longrightarrow> stop_stamped (p\<lparr>pr_status := status,
        pr_arrived_at := coalesce a (pr_arrived_at p), pr_departed_at := coalesce l (pr_departed_at p)\<rparr>))"
      using assms(4-7) by (auto simp: stop_stamped_def coalesce_def stop_names split: option.splits)
  next
    show "chk_stop_status status" using assms(5) by (auto simp: chk_stop_status_def stop_names)
  qed
  have w': "jw_pg w' = snd (pg_run False ?s (jw_pg w))" by (simp add: w'_def markStop_def)
  show "advance (pg_now (jw_pg w)) tids ?d (pg_db (jw_pg w'))" "pg_now (jw_pg w') = pg_now (jw_pg w)"
    using pg_run_advance [where stmt = ?s, OF adv] by (simp_all add: w')
  obtain r p' where r: "pg_run False ?s (jw_pg w) = (r, p')" by fastforce
  show "snapshot_of (pg_db (jw_pg w')) sts"
    using pg_run_db [OF r] assms(2,3) mark_other_rows
    unfolding w' r snapshot_of_def by (auto simp: image_iff)
  show "jw_redis w' = jw_redis w" "jw_hub w' = jw_hub w" by (simp_all add: w'_def markStop_def)
qed

lemma completeTrip_effect:
  assumes "tid \<in> tids"
  shows "advance (pg_now (jw_pg w)) tids (pg_db (jw_pg w)) (pg_db (jw_pg (completeTrip tid w)))"
    "pg_now (jw_pg (completeTrip tid w)) = pg_now (jw_pg w)"
    "snapshot_of (pg_db (jw_pg w)) sts \<Longrightarrow> snapshot_of (pg_db (jw_pg (completeTrip tid w))) sts"
proof -
  note adv = pg_run_advance [where stmt = "complete_stmt tid", OF complete_advance [OF assms]]
  show "advance (pg_now (jw_pg w)) tids (pg_db (jw_pg w)) (pg_db (jw_pg (completeTrip tid w)))"
    "pg_now (jw_pg (completeTrip tid w)) = pg_now (jw_pg w)"
    using adv by (simp_all add: completeTrip_def)
  obtain r p' where r: "pg_run False (complete_stmt tid) (jw_pg w) = (r, p')" by fastforce
  have "trip_stop_progress (pg_db p') = trip_stop_progress (pg_db (jw_pg w))"
    using pg_run_db [OF r] by (auto simp: complete_stmt_def)
  then show "snapshot_of (pg_db (jw_pg w)) sts \<Longrightarrow> snapshot_of (pg_db (jw_pg (completeTrip tid w))) sts"
    using r by (simp add: completeTrip_def snapshot_of_def)
qed

text \<open>One stop, and a pass over the stops of a trip.\<close>

lemma process_stop_effect:
  fixes w :: "'r world" and m :: int and lat lng :: float64 and vid fid :: string
    and now :: "string \<Rightarrow> time" and fmt :: "time \<Rightarrow> string"
  assumes "ts_tripID st \<in> tids" "snapshot_of (pg_db (jw_pg w)) (st # sts)" "ts_stopID st \<notin> ts_stopID ` set sts"
  defines "w' \<equiv> process_stop fmt now vid fid lat lng m st w"
  shows "advance (pg_now (jw_pg w)) tids (pg_db (jw_pg w)) (pg_db (jw_pg w')) \<and>
     pg_now (jw_pg w') = pg_now (jw_pg w) \<and> snapshot_of (pg_db (jw_pg w')) sts"
proof -
  have rest: "snapshot_of (pg_db (jw_pg w)) sts" using assms(2) by (simp add: snapshot_of_def)
  note mark = markStop_effect [OF assms(1,2,3)]
  let ?dist = "haversineKm lat lng (ts_stopLat st) (ts_stopLng st)"
  consider (missed) "ts_status st = ''PENDING''" "ts_stopSequence st < m"
    | (arrived) "ts_status st = ''PENDING''" "\<not> ts_stopSequence st < m" "f64_le ?dist (ts_arrivalRadiusKm st)"
    | (departed) "ts_status st = ''ARRIVED''" "f64_less (ts_arrivalRadiusKm st) ?dist"
    | (nothing) "w' = w"
    unfolding w'_def process_stop_def Let_def by argo
  then show ?thesis
  proof cases
    case missed
    then show ?thesis
      using mark [of StopMissed None None] by (simp add: w'_def process_stop_def stop_le_def stop_names)
  next
    case arrived
    let ?w1 = "markStop (ts_tripID st) (ts_stopID st) StopArrived (Some (now (ts_stopID st))) None w"
    let ?e = "newStopArrivedEvent fmt \<lparr>sa_VehicleID = vid, sa_TripID = ts_tripID st, sa_StopID = ts_stopID st,
        sa_StopName = ts_stopName st, sa_ArrivedAt = now (ts_stopID st)\<rparr>"
    let ?w2 = "?w1\<lparr>jw_hub := broadcastEvent fid ?e (jw_hub ?w1)\<rparr>"
    have w': "w' = (if ts_isFinalStop st then completeTrip (ts_tripID st) ?w2 else ?w2)"
      using arrived by (simp add: w'_def process_stop_def Let_def stop_names)
    have w2: "advance (pg_now (jw_pg w)) tids (pg_db (jw_pg w)) (pg_db (jw_pg ?w2))"
      "pg_now (jw_pg ?w2) = pg_now (jw_pg w)" "snapshot_of (pg_db (jw_pg ?w2)) sts"
      using mark [of StopArrived "Some (now (ts_stopID st))" None] arrived(1)
      by (simp_all add: stop_le_def stop_names)
    show ?thesis
      using w2 completeTrip_effect(1,2) [OF assms(1), of ?w2] completeTrip_effect(3) [OF assms(1), of ?w2 sts]
        advance_trans [OF w2(1)] unfolding w' by auto
  next
    case departed
    then show ?thesis
      using mark [of StopDeparted None "Some (now (ts_stopID st))"]
      by (simp add: w'_def process_stop_def stop_le_def stop_names Let_def)
  next
    case nothing
    then show ?thesis using rest by simp
  qed
qed

lemma pass_effect:
  fixes w :: "'r world"
  assumes "\<forall>st\<in>set sts. ts_tripID st \<in> tids" "snapshot_of (pg_db (jw_pg w)) sts" "distinct (map ts_stopID sts)"
  shows "advance (pg_now (jw_pg w)) tids (pg_db (jw_pg w)) (pg_db (jw_pg (fold (process_stop fmt now vid fid lat lng m) sts w))) \<and>
     pg_now (jw_pg (fold (process_stop fmt now vid fid lat lng m) sts w)) = pg_now (jw_pg w)"
  using assms
proof (induction sts arbitrary: w)
  case (Cons st sts)
  have st: "ts_tripID st \<in> tids" "ts_stopID st \<notin> ts_stopID ` set sts" using Cons.prems by simp_all
  note one = process_stop_effect [OF st(1) Cons.prems(2) st(2), of fmt now vid fid lat lng m]
  have "advance (pg_now (jw_pg (process_stop fmt now vid fid lat lng m st w))) tids
      (pg_db (jw_pg (process_stop fmt now vid fid lat lng m st w)))
      (pg_db (jw_pg (fold (process_stop fmt now vid fid lat lng m) sts (process_stop fmt now vid fid lat lng m st w)))) \<and>
    pg_now (jw_pg (fold (process_stop fmt now vid fid lat lng m) sts (process_stop fmt now vid fid lat lng m st w))) =
      pg_now (jw_pg (process_stop fmt now vid fid lat lng m st w))"
    using one Cons.prems by (intro Cons.IH) auto
  then show ?case using one advance_trans by (auto intro: advance_trans)
qed simp

text \<open>The rows of the query: one per stop, with the status of the table.\<close>

lemma trip_stops_query_rows:
  assumes "registry_wf d"
  shows "distinct (map ts_stopID (trip_stops_query tid d))" "\<forall>st\<in>set (trip_stops_query tid d). ts_tripID st = tid"
    "snapshot_of d (trip_stops_query tid d)"
proof -
  have keys: "distinct (map tr_trip_id (trip d))" "distinct (map ve_vehicle_id (vehicle_registry d))"
    "distinct (map st_stop_id (route_stops d))" "distinct (map (\<lambda>p. (pr_trip_id p, pr_stop_id p)) (trip_stop_progress d))"
    using assms by (simp_all add: registry_wf_def)
  show "\<forall>st\<in>set (trip_stops_query tid d). ts_tripID st = tid"
    by (auto simp: trip_stops_query_def Let_def)
  show "distinct (map ts_stopID (trip_stops_query tid d))"
  proof (cases rule: filter_key_cases [OF keys(1), of tid])
    case (2 t)
    show ?thesis
    proof (cases rule: filter_key_cases [OF keys(2), of "tr_vehicle_id t"])
      case (2 v)
      have "distinct (map ts_stopID (sort_key ts_stopSequence xs)) = distinct (map ts_stopID xs)" for xs :: "tripStopRow list"
        by (simp add: distinct_map)
      moreover have "distinct (map st_stop_id (filter P (route_stops d)))" for P
        by (rule distinct_map_filter [OF keys(3)])
      ultimately show ?thesis
        using \<open>filter (\<lambda>y. tr_trip_id y = tid) (trip d) = [t]\<close> 2
        by (simp add: trip_stops_query_def Let_def comp_def)
    qed (use 2 in \<open>simp add: trip_stops_query_def\<close>)
  qed (simp add: trip_stops_query_def)
  show "snapshot_of d (trip_stops_query tid d)"
    unfolding snapshot_of_def
  proof (intro ballI impI)
    fix st p
    assume st: "st \<in> set (trip_stops_query tid d)" and p: "p \<in> set (trip_stop_progress d)"
      "pr_trip_id p = ts_tripID st \<and> pr_stop_id p = ts_stopID st"
    have "progress_of d (ts_tripID st) (ts_stopID st) = Some p"
    proof -
      have "\<exists>q. progress_of d (ts_tripID st) (ts_stopID st) = Some q"
        using p by (auto simp: progress_of_def find_None_iff not_None_eq [symmetric] simp del: not_None_eq)
      then obtain q where q: "progress_of d (ts_tripID st) (ts_stopID st) = Some q" ..
      then have "q \<in> set (trip_stop_progress d)" "pr_trip_id q = ts_tripID st \<and> pr_stop_id q = ts_stopID st"
        by (auto simp: progress_of_def find_Some_iff)
      then have "q = p" using key_inj [OF keys(4)] p by auto
      then show ?thesis using q by simp
    qed
    moreover have "ts_status st = stop_status d (ts_tripID st) (ts_stopID st)"
      using st by (auto simp: trip_stops_query_def Let_def)
    ultimately show "pr_status p = ts_status st" by (simp add: stop_status_def)
  qed
qed

lemma processTrip_effect:
  fixes w :: "'r world"
  assumes "registry_wf (pg_db (jw_pg w))" "tid \<in> tids"
  shows "advance (pg_now (jw_pg w)) tids (pg_db (jw_pg w)) (pg_db (jw_pg (processTrip rc parseF fmt now tid w))) \<and>
     pg_now (jw_pg (processTrip rc parseF fmt now tid w)) = pg_now (jw_pg w)"
proof -
  obtain res p1 where q: "loadTripStops tid (jw_pg w) = (res, p1)" by fastforce
  then have p1: "pg_db p1 = pg_db (jw_pg w)" "pg_now p1 = pg_now (jw_pg w)"
    unfolding loadTripStops_def using pg_query_db by blast+
  show ?thesis
  proof (cases "\<exists>st rest lat lng r1. res = Inr (st # rest) \<and>
      live_position rc parseF (ts_vehicleID st) (jw_redis w) = (Some (lat, lng), r1)")
    case True
    then obtain st rest lat lng r1 where res: "res = Inr (st # rest)"
      "live_position rc parseF (ts_vehicleID st) (jw_redis w) = (Some (lat, lng), r1)" by blast
    then have sts: "st # rest = trip_stops_query tid (pg_db (jw_pg w))"
      using pg_query_Inr q unfolding loadTripStops_def by fastforce
    note rows = trip_stops_query_rows [OF assms(1), of tid, folded sts]
    let ?w = "w\<lparr>jw_pg := p1, jw_redis := r1\<rparr>"
    have "processTrip rc parseF fmt now tid w =
        fold (process_stop fmt now (ts_vehicleID st) (ts_fleetID st) lat lng (maxArrivedSeq (st # rest))) (st # rest) ?w"
      using q res by (simp add: processTrip_def Let_def del: fold_simps)
    then show ?thesis
      using pass_effect [of "st # rest" tids ?w fmt now "ts_vehicleID st" "ts_fleetID st" lat lng "maxArrivedSeq (st # rest)"]
        rows assms(2) p1 by simp
  next
    case False
    then have "jw_pg (processTrip rc parseF fmt now tid w) = p1"
      using q by (auto simp: processTrip_def Let_def split: sum.splits list.splits prod.splits option.splits)
    then show ?thesis using p1 by simp
  qed
qed

lemma trips_effect:
  fixes w :: "'r world"
  assumes "registry_wf (pg_db (jw_pg w))" "set ts \<subseteq> tids"
  shows "advance (pg_now (jw_pg w)) tids (pg_db (jw_pg w))
      (pg_db (jw_pg (fold (\<lambda>tid. processTrip rc parseF fmt (now tid) tid) ts w)))"
  using assms
proof (induction ts arbitrary: w)
  case (Cons t ts)
  let ?w = "processTrip rc parseF fmt (now t) t w"
  have one: "advance (pg_now (jw_pg w)) tids (pg_db (jw_pg w)) (pg_db (jw_pg ?w))" "pg_now (jw_pg ?w) = pg_now (jw_pg w)"
    using processTrip_effect [OF Cons.prems(1), of t tids rc parseF fmt "now t"] Cons.prems(2) by simp_all
  have "advance (pg_now (jw_pg ?w)) tids (pg_db (jw_pg ?w))
      (pg_db (jw_pg (fold (\<lambda>tid. processTrip rc parseF fmt (now tid) tid) ts ?w)))"
    using Cons advance_wf [OF one(1)] by simp
  then show ?case using advance_trans [OF one(1)] one(2) by simp
qed simp

definition in_progress_ids :: "db \<Rightarrow> string set" where
  "in_progress_ids d = tr_trip_id ` {t \<in> set (trip d). tr_status t = TripInProgress}"

lemma stop_tick_advance:
  assumes "registry_wf (pg_db (jw_pg w))"
  shows "advance (pg_now (jw_pg w)) (in_progress_ids (pg_db (jw_pg w))) (pg_db (jw_pg w))
      (pg_db (jw_pg (stop_tick rc parseF fmt now w)))"
proof -
  obtain res p1 where q: "stop_loadActiveTrips (jw_pg w) = (res, p1)" by fastforce
  then have p1: "pg_db p1 = pg_db (jw_pg w)" "pg_now p1 = pg_now (jw_pg w)"
    unfolding stop_loadActiveTrips_def using pg_query_db by blast+
  show ?thesis
  proof (cases res)
    case (Inl e)
    then show ?thesis using q p1 by (simp add: stop_tick_def)
  next
    case (Inr ts)
    then have "ts = map tr_trip_id (filter (\<lambda>t. tr_status t = ''IN_PROGRESS'') (trip (pg_db (jw_pg w))))"
      using pg_query_Inr q unfolding stop_loadActiveTrips_def by fastforce
    then have "set ts \<subseteq> in_progress_ids (pg_db (jw_pg w))"
      by (auto simp: in_progress_ids_def TripInProgress_def)
    then show ?thesis
      using trips_effect [of "w\<lparr>jw_pg := p1\<rparr>" ts _ rc parseF fmt now] assms p1 q Inr by (simp add: stop_tick_def)
  qed
qed

section \<open>Properties\<close>

text \<open>C10. A tick of the stop detector only moves trips and stops forward, whatever fails: in each row of the
  progress table the status stays or goes from pending to arrived, departed or missed, or from arrived to
  departed; a row whose times fit its status still has them; rows of trips that are not in progress do not
  change; a trip changes only from in progress to completed, at the time of the tick; and the keys and
  constraints of the tables keep holding.\<close>

theorem stop_tick_forward:
  assumes "registry_wf (pg_db (jw_pg w))"
  shows "list_all2 (\<lambda>p q. pr_trip_id q = pr_trip_id p \<and> pr_stop_id q = pr_stop_id p \<and>
        stop_le (pr_status p) (pr_status q) \<and> (stop_stamped p \<longrightarrow> stop_stamped q) \<and>
        (pr_trip_id p \<notin> in_progress_ids (pg_db (jw_pg w)) \<longrightarrow> q = p))
      (trip_stop_progress (pg_db (jw_pg w))) (trip_stop_progress (pg_db (jw_pg (stop_tick rc parseF fmt now w)))) \<and>
    list_all2 (\<lambda>t u. u = t \<or> tr_status t = TripInProgress \<and>
        u = t\<lparr>tr_status := TripCompleted, tr_completed_at := Some (pg_now (jw_pg w))\<rparr>)
      (trip (pg_db (jw_pg w))) (trip (pg_db (jw_pg (stop_tick rc parseF fmt now w)))) \<and>
    registry_wf (pg_db (jw_pg (stop_tick rc parseF fmt now w)))"
proof -
  let ?d = "pg_db (jw_pg w)" and ?d' = "pg_db (jw_pg (stop_tick rc parseF fmt now w))"
  note adv = stop_tick_advance [OF assms, of rc parseF fmt now]
  then obtain ts ps where d': "?d' = ?d\<lparr>trip := ts, trip_stop_progress := ps\<rparr>"
    "list_all2 (trip_le (pg_now (jw_pg w)) (in_progress_ids ?d)) (trip ?d) ts"
    "list_all2 (row_le (in_progress_ids ?d)) (trip_stop_progress ?d) ps"
    by (auto simp: advance_def)
  have ids: "distinct (map tr_trip_id (trip ?d))" using assms by (simp add: registry_wf_def)
  have "tr_status t = TripInProgress" if "t \<in> set (trip ?d)" "tr_trip_id t \<in> in_progress_ids ?d" for t
    using that key_inj [OF ids] by (auto simp: in_progress_ids_def)
  then have "list_all2 (\<lambda>t u. u = t \<or> tr_status t = TripInProgress \<and>
      u = t\<lparr>tr_status := TripCompleted, tr_completed_at := Some (pg_now (jw_pg w))\<rparr>) (trip ?d) ts"
    using d'(2) by (auto simp: trip_le_def TripCompleted_def list_all2_conv_all_nth)
  moreover have "list_all2 (\<lambda>p q. pr_trip_id q = pr_trip_id p \<and> pr_stop_id q = pr_stop_id p \<and>
        stop_le (pr_status p) (pr_status q) \<and> (stop_stamped p \<longrightarrow> stop_stamped q) \<and>
        (pr_trip_id p \<notin> in_progress_ids ?d \<longrightarrow> q = p)) (trip_stop_progress ?d) ps"
    by (rule list_all2_mono [OF d'(3)]) (simp add: row_le_def)
  ultimately show ?thesis using advance_wf [OF adv assms] d'(1) by simp
qed

text \<open>A trip with two stops, of which the vehicle is at the last.\<close>

definition skip_db :: db where
  "skip_db = empty_db\<lparr>
     vehicle_registry := [\<lparr>ve_vehicle_id = ''V'', ve_fleet_id = ''F'', ve_display_name = ''V'',
       ve_registration_number = ''R'', ve_vehicle_type = ''truck'', ve_capacity_tonnes = None,
       ve_manufacture_year = None, ve_active = True\<rparr>],
     route_stops := [\<lparr>st_stop_id = ''S1'', st_route_id = ''R'', st_stop_sequence = 1, st_stop_name = ''first'',
         st_lat = Fin 0, st_lng = Fin 180, st_arrival_radius_km = Fin 1\<rparr>,
       \<lparr>st_stop_id = ''S2'', st_route_id = ''R'', st_stop_sequence = 2, st_stop_name = ''last'',
         st_lat = Fin 0, st_lng = Fin 0, st_arrival_radius_km = Fin 1\<rparr>],
     trip := [\<lparr>tr_trip_id = ''T'', tr_vehicle_id = ''V'', tr_driver_id = ''D'', tr_route_id = ''R'',
       tr_status = ''IN_PROGRESS'', tr_scheduled_departure = 0, tr_actual_departure = None,
       tr_completed_at = None, tr_created_at = 0\<rparr>],
     trip_stop_progress := [\<lparr>pr_trip_id = ''T'', pr_stop_id = ''S1'', pr_status = ''PENDING'',
         pr_arrived_at = None, pr_departed_at = None\<rparr>,
       \<lparr>pr_trip_id = ''T'', pr_stop_id = ''S2'', pr_status = ''PENDING'', pr_arrived_at = None, pr_departed_at = None\<rparr>]\<rparr>"

definition skip_world :: "mem_redis world" where
  "skip_world = \<lparr>jw_redis = (mem_empty 0 [])\<lparr>mr_keys := [''vehicle:V:state'' \<mapsto>
       (RHash [(''lat'', ''0''), (''lng'', ''0'')], None)]\<rparr>,
     jw_pg = \<lparr>pg_db = skip_db, pg_now = 7, pg_plan = []\<rparr>, jw_hub = NewHub\<rparr>"

abbreviation "skip_client \<equiv> mem_client (\<lambda>_. ''0'')"
abbreviation "skip_parse \<equiv> (\<lambda>_. Some (Fin 0)) :: string \<Rightarrow> float64 option"

theorem stop_tick_forward_witness:
  "registry_wf skip_db \<and>
   registry_wf (pg_db (jw_pg (stop_tick skip_client skip_parse (\<lambda>_. []) (\<lambda>_ _. 5) skip_world)))"
proof -
  have "registry_wf (pg_db (jw_pg skip_world))"
    by (simp add: skip_world_def skip_db_def registry_wf_def empty_db_def chk_trip_status_def chk_stop_status_def)
  then show ?thesis
    using stop_tick_forward [of skip_world skip_client skip_parse "\<lambda>_. []" "\<lambda>_ _. 5"] by (simp add: skip_world_def)
qed

text \<open>The far side of the globe is not within a kilometre.\<close>

lemma far_stop: "\<not> f64_le (haversineKm (Fin 0) (Fin 0) (Fin 0) (Fin 180)) (Fin 1)"
proof -
  have a: "haversine_a 0 0 0 180 = 1" by (simp add: haversine_a_def)
  have "1 < 6371 * pi" using pi_ge_two by linarith
  then show ?thesis by (simp add: a Atan2_def)
qed

text \<open>A stop that is skipped on the way to the last one is never marked as missed: the tick that finds the
  vehicle at the last stop completes the trip and leaves the earlier stop pending, and no later tick touches
  a completed trip.\<close>

theorem skipped_stop_stays_pending:
  "let w' = stop_tick skip_client skip_parse (\<lambda>_. []) (\<lambda>_ _. 5) skip_world in
   map tr_status (trip (pg_db (jw_pg w'))) = [TripCompleted] \<and>
   stop_status (pg_db (jw_pg w')) ''T'' ''S1'' = StopPending \<and>
   stop_status (pg_db (jw_pg w')) ''T'' ''S2'' = StopArrived \<and>
   stop_tick skip_client skip_parse (\<lambda>_. []) (\<lambda>_ _. 5) w' = w'"
proof -
  let ?d1 = "skip_db\<lparr>trip_stop_progress := [\<lparr>pr_trip_id = ''T'', pr_stop_id = ''S1'', pr_status = ''PENDING'',
         pr_arrived_at = None, pr_departed_at = None\<rparr>,
       \<lparr>pr_trip_id = ''T'', pr_stop_id = ''S2'', pr_status = ''ARRIVED'', pr_arrived_at = Some 5, pr_departed_at = None\<rparr>],
     trip := map (\<lambda>t. t\<lparr>tr_status := ''COMPLETED'', tr_completed_at := Some 7\<rparr>) (trip skip_db)\<rparr>"
  have w': "jw_pg (stop_tick skip_client skip_parse (\<lambda>_. []) (\<lambda>_ _. 5) skip_world) = \<lparr>pg_db = ?d1, pg_now = 7, pg_plan = []\<rparr>"
    using far_stop
    by (simp add: stop_tick_def stop_loadActiveTrips_def pg_query_up processTrip_def loadTripStops_def
        trip_stops_query_def live_position_def mem_HMGet_def mem_faulty_def mem_now_def mem_view_def mem_empty_def
        skip_world_def skip_db_def empty_db_def stop_status_def progress_of_def StopPending_def Let_def
        maxArrivedSeq_def process_stop_def markStop_def mark_stmt_def completeTrip_def complete_stmt_def pg_run_up
        coalesce_def chk_stop_status_def del: haversineKm.simps)
  have "stop_tick skip_client skip_parse (\<lambda>_. []) (\<lambda>_ _. 5) w = w"
    if "jw_pg w = \<lparr>pg_db = ?d1, pg_now = 7, pg_plan = []\<rparr>" for w
    using that by (simp add: stop_tick_def stop_loadActiveTrips_def pg_query_up skip_db_def empty_db_def)
  then show ?thesis
    using w' by (simp add: Let_def stop_status_def progress_of_def stop_names TripCompleted_def skip_db_def empty_db_def)
qed

lemma eta_speed_cases: "(\<exists>s. eta_speed parseF v = Fin s \<and> 5 < s) \<or> eta_speed parseF v = Inf True"
proof (cases "Option.bind v parseF")
  case (Some s)
  then show ?thesis by (cases s) (auto simp: eta_speed_def)
qed (simp add: eta_speed_def)

lemma f64_int_floor:
  assumes "0 \<le> x" "x \<le> 6371 * pi / 5 * 60"
  shows "f64_int conv (Fin x) = \<lfloor>x\<rfloor> \<and> 0 \<le> \<lfloor>x\<rfloor> \<and> of_int \<lfloor>x\<rfloor> \<le> 6371 * pi / 5 * 60 \<and> \<lfloor>x\<rfloor> \<le> 305808"
proof -
  have "x \<le> 305808" using assms(2) pi_less_4 by simp
  then have "\<lfloor>x\<rfloor> \<le> 305808" by linarith
  moreover have "0 \<le> \<lfloor>x\<rfloor>" using assms(1) by simp
  moreover have "of_int \<lfloor>x\<rfloor> \<le> 6371 * pi / 5 * 60" using assms(2) by linarith
  ultimately show ?thesis using assms(1) by (simp add: f64_int_def in_int64_def)
qed



end
