(* ===== verification/Serving_Vehicles.thy ===== *)
theory Serving_Vehicles
  imports Serving_Stops
begin

text \<open>
  The vehicle endpoints of the serving service (\<open>src/serving/internal/handler/vehicle.go\<close>): the
  drill-down panel, assembled from Redis and the database section by section, the active trip and the
  alert history of a vehicle. \<open>srv_env\<close> supplies the printer and parser of times and
  \<open>strconv.ParseFloat\<close>.
\<close>

record StopProgress =
  sg_StopID :: string
  sg_StopName :: string
  sg_Sequence :: int
  sg_Status :: string
  sg_ArrivedAt :: "string option"
  sg_DepartedAt :: "string option"

record LiveTelemetry =
  lt_SpeedKmh :: float64
  lt_FuelPct :: float64
  lt_EngineTempC :: float64
  lt_Battery :: float64
  lt_IsMoving :: bool
  lt_EngineOn :: bool
  lt_LastSeenAt :: "int option"
  lt_OnlineStatus :: string

record VehicleIdentity =
  vi_DisplayName :: string
  vi_RegistrationNumber :: string
  vi_VehicleType :: string
  vi_CapacityTonnes :: "float64 option"

record DriverInfo =
  di_DriverID :: string
  di_FullName :: string
  di_PhoneNumber :: string
  di_LicenseNumber :: string

record TripInfo =
  ti_TripID :: string
  ti_RouteName :: string
  ti_OriginName :: string
  ti_DestinationName :: string
  ti_Status :: string
  ti_StopsTotal :: int
  ti_StopsCompleted :: int
  ti_DeviationStatus :: string
  ti_ETA :: "string option"
  ti_Stops :: "StopProgress list"

record PanelResponse =
  pn_VehicleID :: string
  pn_LiveState :: LiveTelemetry
  pn_Identity :: "VehicleIdentity option"
  pn_Driver :: "DriverInfo option"
  pn_ActiveTrip :: "TripInfo option"
  pn_RecentAlerts :: "alert_view list"

section \<open>JSON\<close>

definition stop_progress_json :: "StopProgress \<Rightarrow> json" where
  "stop_progress_json s =
     JObj ([(''stop_id'', JStr (sg_StopID s)), (''stop_name'', JStr (sg_StopName s)),
            (''sequence'', JInt (sg_Sequence s)), (''status'', JStr (sg_Status s))] @
       opt_str ''arrived_at'' (sg_ArrivedAt s) @ opt_str ''departed_at'' (sg_DepartedAt s))"

definition live_json :: "LiveTelemetry \<Rightarrow> json" where
  "live_json l =
     JObj [(''speed_kmh'', JNum (lt_SpeedKmh l)), (''fuel_pct'', JNum (lt_FuelPct l)),
       (''engine_temp_celsius'', JNum (lt_EngineTempC l)), (''battery_voltage'', JNum (lt_Battery l)),
       (''is_moving'', JBool (lt_IsMoving l)), (''engine_on'', JBool (lt_EngineOn l)),
       (''last_seen_at'', case lt_LastSeenAt l of None \<Rightarrow> JNull | Some n \<Rightarrow> JInt n),
       (''online_status'', JStr (lt_OnlineStatus l))]"

definition identity_json :: "VehicleIdentity \<Rightarrow> json" where
  "identity_json i =
     JObj ([(''display_name'', JStr (vi_DisplayName i)), (''registration_number'', JStr (vi_RegistrationNumber i)),
            (''vehicle_type'', JStr (vi_VehicleType i))] @
       (case vi_CapacityTonnes i of None \<Rightarrow> [] | Some c \<Rightarrow> [(''capacity_tonnes'', JNum c)]))"

definition driver_json :: "DriverInfo \<Rightarrow> json" where
  "driver_json d =
     JObj [(''driver_id'', JStr (di_DriverID d)), (''full_name'', JStr (di_FullName d)),
       (''phone_number'', JStr (di_PhoneNumber d)), (''license_number'', JStr (di_LicenseNumber d))]"

definition trip_info_json :: "TripInfo \<Rightarrow> json" where
  "trip_info_json t =
     JObj ([(''trip_id'', JStr (ti_TripID t)), (''route_name'', JStr (ti_RouteName t)),
        (''origin_name'', JStr (ti_OriginName t)), (''destination_name'', JStr (ti_DestinationName t)),
        (''status'', JStr (ti_Status t)), (''stops_total'', JInt (ti_StopsTotal t)),
        (''stops_completed'', JInt (ti_StopsCompleted t)), (''deviation_status'', JStr (ti_DeviationStatus t))] @
       opt_str ''eta'' (ti_ETA t) @ [(''stops'', JArr (map stop_progress_json (ti_Stops t)))])"

text \<open>A pointer field with \<open>omitempty\<close>.\<close>

definition opt_field :: "string \<Rightarrow> ('a \<Rightarrow> json) \<Rightarrow> 'a option \<Rightarrow> (string \<times> json) list" where
  "opt_field key f v = (case v of None \<Rightarrow> [] | Some x \<Rightarrow> [(key, f x)])"

definition panel_json :: "srv_env \<Rightarrow> PanelResponse \<Rightarrow> json" where
  "panel_json env p =
     JObj ([(''vehicle_id'', JStr (pn_VehicleID p)), (''live_telemetry'', live_json (pn_LiveState p))] @
       opt_field ''identity'' identity_json (pn_Identity p) @ opt_field ''driver'' driver_json (pn_Driver p) @
       opt_field ''active_trip'' trip_info_json (pn_ActiveTrip p) @
       [(''recent_alerts'', JArr (map (\<lambda>v. JObj (alert_fields env False v)) (pn_RecentAlerts p)))])"

section \<open>Queries\<close>

text \<open>The stops of a route with the progress of a trip, by sequence.\<close>

definition stop_progress_query :: "srv_env \<Rightarrow> string \<Rightarrow> string \<Rightarrow> db \<Rightarrow> StopProgress list" where
  "stop_progress_query env tripID routeID d =
     map (\<lambda>s. let pr = progress_of d tripID (st_stop_id s) in
          \<lparr>sg_StopID = st_stop_id s, sg_StopName = st_stop_name s, sg_Sequence = st_stop_sequence s,
           sg_Status = (case pr of None \<Rightarrow> StopPending | Some p \<Rightarrow> pr_status p),
           sg_ArrivedAt = map_option (sv_fmtTime env) (Option.bind pr pr_arrived_at),
           sg_DepartedAt = map_option (sv_fmtTime env) (Option.bind pr pr_departed_at)\<rparr>)
       (sort_key st_stop_sequence (filter (\<lambda>s. st_route_id s = routeID) (route_stops d)))"

text \<open>The body of the loop over the rows: the stops so far, \<open>StopsTotal\<close> and \<open>StopsCompleted\<close>.\<close>

definition add_stop :: "StopProgress \<Rightarrow> StopProgress list \<times> int \<times> int \<Rightarrow> StopProgress list \<times> int \<times> int" where
  "add_stop sp acc = (case acc of (stops, tot, completed) \<Rightarrow>
     (stops @ [sp], tot + 1,
      if sg_Status sp = StopArrived \<or> sg_Status sp = StopDeparted then completed + 1 else completed))"

definition load_progress :: "srv_env \<Rightarrow> string \<Rightarrow> string \<Rightarrow> pg \<Rightarrow> (StopProgress list \<times> int \<times> int) \<times> pg" where
  "load_progress env tripID routeID p =
     (case pg_query (\<lambda>now d. stop_progress_query env tripID routeID d) p of
        (Inl e, p') \<Rightarrow> (([], 0, 0), p')
      | (Inr rows, p') \<Rightarrow> (fold add_stop rows ([], 0, 0), p'))"

text \<open>\<open>FROM trip t JOIN route_registry r ON r.route_id = t.route_id WHERE t.vehicle_id = $1 AND t.status = $2\<close>.\<close>

definition active_trip_rows :: "string \<Rightarrow> db \<Rightarrow> (trip_row \<times> route_row) list" where
  "active_trip_rows vid d =
     concat (map (\<lambda>t. map (Pair t) (filter (\<lambda>ro. ro_route_id ro = tr_route_id t) (route_registry d)))
       (filter (\<lambda>t. tr_vehicle_id t = vid \<and> tr_status t = TripInProgress) (trip d)))"

definition drivers_of_trip :: "string \<Rightarrow> db \<Rightarrow> driver_row list" where
  "drivers_of_trip tripID d =
     concat (map (\<lambda>dr. map (\<lambda>t. dr) (filter (\<lambda>t. tr_driver_id t = dr_driver_id dr \<and> tr_trip_id t = tripID) (trip d)))
       (driver_registry d))"

definition recent_where :: "string \<Rightarrow> alert_row \<Rightarrow> bool" where
  "recent_where vid a \<longleftrightarrow> al_vehicle_id a = vid \<and> al_acknowledged_at a = None \<and> al_resolved_at a = None"

text \<open>The handlers of this file select no \<open>fleet_id\<close>: the field keeps its zero value.\<close>

definition no_fleet :: "alert_view \<Rightarrow> alert_view" where
  "no_fleet v = v\<lparr>av_row := (av_row v)\<lparr>al_fleet_id := []\<rparr>\<rparr>"

section \<open>HandlePanel\<close>

definition zero_live :: LiveTelemetry where
  "zero_live = \<lparr>lt_SpeedKmh = Fin 0, lt_FuelPct = Fin 0, lt_EngineTempC = Fin 0, lt_Battery = Fin 0,
     lt_IsMoving = False, lt_EngineOn = False, lt_LastSeenAt = None, lt_OnlineStatus = []\<rparr>"

definition live_of_hash :: "srv_env \<Rightarrow> (string \<times> string) list \<Rightarrow> LiveTelemetry" where
  "live_of_hash env m =
     \<lparr>lt_SpeedKmh = parseMapFloat (sv_parseFloat env) m ''speed_kmh'',
      lt_FuelPct = parseMapFloat (sv_parseFloat env) m ''fuel_pct'',
      lt_EngineTempC = parseMapFloat (sv_parseFloat env) m ''engine_temp'',
      lt_Battery = parseMapFloat (sv_parseFloat env) m ''battery'',
      lt_IsMoving = parseMapBool m ''is_moving'', lt_EngineOn = parseMapBool m ''engine_on'',
      lt_LastSeenAt = Option.bind (map_of m ''received_at'') ParseInt, lt_OnlineStatus = []\<rparr>"

definition panel_live :: "'r redis_client \<Rightarrow> srv_env \<Rightarrow> string \<Rightarrow> 'r \<Rightarrow> LiveTelemetry \<times> 'r" where
  "panel_live rc env vid r =
     (case cmd_HGetAll rc (state_key vid) r of
        (res, r1) \<Rightarrow>
          (let live = (case res of
                         Inl e \<Rightarrow> zero_live
                       | Inr m \<Rightarrow> if m = [] then zero_live else live_of_hash env m);
               (st, r2) = get_or_empty rc (online_key vid) r1
           in (live\<lparr>lt_OnlineStatus := if st = [] then StatusOnline else st\<rparr>, r2)))"

definition panel_identity :: "string \<Rightarrow> pg \<Rightarrow> VehicleIdentity option \<times> pg" where
  "panel_identity vid p =
     (case pg_query_row (\<lambda>now d. filter (\<lambda>v. ve_vehicle_id v = vid) (vehicle_registry d)) p of
        (Inl e, p') \<Rightarrow> (None, p')
      | (Inr v, p') \<Rightarrow> (Some \<lparr>vi_DisplayName = ve_display_name v, vi_RegistrationNumber = ve_registration_number v,
                         vi_VehicleType = ve_vehicle_type v, vi_CapacityTonnes = ve_capacity_tonnes v\<rparr>, p'))"

definition deviation_text :: "string \<Rightarrow> string" where
  "deviation_text v = (if v = ''true'' then ''deviated'' else ''on_route'')"

definition get_opt :: "'r redis_client \<Rightarrow> string \<Rightarrow> 'r \<Rightarrow> string option \<times> 'r" where
  "get_opt rc key r = (case cmd_Get rc key r of (Inl e, r') \<Rightarrow> (None, r') | (Inr v, r') \<Rightarrow> (Some v, r'))"

definition panel_driver :: "string \<Rightarrow> pg \<Rightarrow> DriverInfo option \<times> pg" where
  "panel_driver tripID p =
     (case pg_query_row (\<lambda>now d. drivers_of_trip tripID d) p of
        (Inl e, p') \<Rightarrow> (None, p')
      | (Inr dr, p') \<Rightarrow> (Some \<lparr>di_DriverID = dr_driver_id dr, di_FullName = dr_full_name dr,
                          di_PhoneNumber = dr_phone_number dr, di_LicenseNumber = dr_license_number dr\<rparr>, p'))"

definition panel_trip ::
  "'r redis_client \<Rightarrow> srv_env \<Rightarrow> string \<Rightarrow> pg \<times> 'r \<Rightarrow> (TripInfo option \<times> DriverInfo option) \<times> pg \<times> 'r" where
  "panel_trip rc env vid w =
     (case pg_query_row (\<lambda>now d. active_trip_rows vid d) (fst w) of
        (Inl e, p1) \<Rightarrow> ((None, None), p1, snd w)
      | (Inr (t, ro), p1) \<Rightarrow>
          (let ((stops, tot, completed), p2) = load_progress env (tr_trip_id t) (tr_route_id t) p1;
               (dev, r1) = get_or_empty rc (deviation_key vid) (snd w);
               (eta, r2) = get_opt rc (eta_key (tr_trip_id t)) r1;
               (driver, p3) = panel_driver (tr_trip_id t) p2
           in ((Some \<lparr>ti_TripID = tr_trip_id t, ti_RouteName = ro_route_name ro, ti_OriginName = ro_origin_name ro,
                  ti_DestinationName = ro_destination_name ro, ti_Status = tr_status t, ti_StopsTotal = tot,
                  ti_StopsCompleted = completed, ti_DeviationStatus = deviation_text dev, ti_ETA = eta,
                  ti_Stops = stops\<rparr>, driver), p3, r2)))"

definition panel_alerts :: "string \<Rightarrow> pg \<Rightarrow> alert_view list \<times> pg" where
  "panel_alerts vid p =
     (case page_alerts attention_order (recent_where vid) 5 0 p of
        (Inl e, p') \<Rightarrow> ([], p')
      | (Inr views, p') \<Rightarrow> (map no_fleet views, p'))"

definition HandlePanel :: "'r redis_client \<Rightarrow> srv_env \<Rightarrow> (pg \<times> 'r) srv_handler" where
  "HandlePanel rc env ctx rq w =
     (let vehicleID = hr_path rq ''vehicle_id'' in
      if vehicleID = [] then (writeError StatusBadRequest ''vehicle_id path parameter is required'', w)
      else
        (let (live, r1) = panel_live rc env vehicleID (snd w);
             (identity, p1) = panel_identity vehicleID (fst w);
             ((trp, driver), p2, r2) = panel_trip rc env vehicleID (p1, r1);
             (alerts, p3) = panel_alerts vehicleID p2
         in (writeJSON StatusOK (panel_json env
               \<lparr>pn_VehicleID = vehicleID, pn_LiveState = live, pn_Identity = identity, pn_Driver = driver,
                pn_ActiveTrip = trp, pn_RecentAlerts = alerts\<rparr>), p3, r2)))"

section \<open>HandleActiveTrip\<close>

definition HandleActiveTrip :: "(pg \<times> 'r) srv_handler" where
  "HandleActiveTrip ctx rq w =
     (let vehicleID = hr_path rq ''vehicle_id'' in
      if vehicleID = [] then (writeError StatusBadRequest ''vehicle_id path parameter is required'', w)
      else case pg_query_row (\<lambda>now d. active_trip_rows vehicleID d) (fst w) of
             (Inl e, p1) \<Rightarrow>
               (writeJSON StatusOK (JObj [(''vehicle_id'', JStr vehicleID), (''active_trip'', JNull)]), p1, snd w)
           | (Inr (t, ro), p1) \<Rightarrow>
               (writeJSON StatusOK (JObj [(''vehicle_id'', JStr vehicleID),
                  (''active_trip'', JObj [(''trip_id'', JStr (tr_trip_id t)), (''route_name'', JStr (ro_route_name ro)),
                     (''origin_name'', JStr (ro_origin_name ro)), (''destination_name'', JStr (ro_destination_name ro)),
                     (''status'', JStr (tr_status t))])]), p1, snd w))"

section \<open>HandleVehicleAlerts\<close>

definition vehicle_where :: "srv_env \<Rightarrow> string \<Rightarrow> (string \<Rightarrow> string) \<Rightarrow> alert_row \<Rightarrow> bool" where
  "vehicle_where env vid q a \<longleftrightarrow>
     al_vehicle_id a = vid \<and>
     (case time_bound env (q ''from'') of None \<Rightarrow> True | Some t \<Rightarrow> t \<le> al_created_at a) \<and>
     (case time_bound env (q ''to'') of None \<Rightarrow> True | Some t \<Rightarrow> al_created_at a \<le> t) \<and>
     (q ''alert_type'' = [] \<or> al_alert_type a = q ''alert_type'') \<and>
     (q ''severity'' = [] \<or> al_severity a = q ''severity'')"

definition HandleVehicleAlerts :: "srv_env \<Rightarrow> (pg \<times> 'r) srv_handler" where
  "HandleVehicleAlerts env ctx rq w =
     (let vehicleID = hr_path rq ''vehicle_id''; q = hr_query rq in
      if vehicleID = [] then (writeError StatusBadRequest ''vehicle_id path parameter is required'', w)
      else
        (let P = vehicle_where env vehicleID q;
             (page, limit) = parsePagination (q ''page'') (q ''limit'');
             (tot, p1) = count_alerts P (fst w)
         in case page_alerts newest_first P limit (page_offset page limit) p1 of
              (Inl err, p2) \<Rightarrow> (writeError StatusInternalServerError ''failed to query alert history'', p2, snd w)
            | (Inr views, p2) \<Rightarrow>
                (writeJSON StatusOK
                   (JObj [(''vehicle_id'', JStr vehicleID),
                          (''alerts'', JArr (map (\<lambda>v. JObj (alert_fields env True (no_fleet v))) views)),
                          (''pagination'', pagination_json (NewPagination page limit tot))]), p2, snd w)))"

section \<open>Lemmas\<close>

definition stop_done :: "StopProgress \<Rightarrow> bool" where
  "stop_done sp \<longleftrightarrow> sg_Status sp = StopArrived \<or> sg_Status sp = StopDeparted"

lemma fold_add_stop:
  "fold add_stop rows (ss, n, c) = (ss @ rows, n + int (length rows), c + int (length (filter stop_done rows)))"
  by (induction rows arbitrary: ss n c) (auto simp: add_stop_def stop_done_def)

lemma load_progress_read:
  assumes "load_progress env tid rid p = ((ss, n, c), p')"
  shows "pg_db p' = pg_db p" "pg_plan p = [] \<Longrightarrow> pg_plan p' = []"
    and "n = int (length ss)" "c = int (length (filter stop_done ss))"
    and "ss = stop_progress_query env tid rid (pg_db p) \<or> ss = [] \<and> pg_plan p \<noteq> []"
  using assms pg_query_read [of "\<lambda>now d. stop_progress_query env tid rid d" p]
  by (auto simp: load_progress_def fold_add_stop split: prod.splits sum.splits)

lemma page_alerts_read:
  assumes "page_alerts order P limit 0 p = (res, p')"
  shows "pg_db p' = pg_db p" "pg_plan p = [] \<Longrightarrow> pg_plan p' = []"
    and "case res of Inl e \<Rightarrow> pg_plan p \<noteq> []
         | Inr vs \<Rightarrow> map av_row vs =
             takeWhile (\<lambda>a. al_triggered_value a \<noteq> None) (take (nat limit) (order (filter P (vehicle_alerts (pg_db p)))))"
  using assms
  by (auto simp: page_alerts_def pg_run_def sql_page_def Let_def scan_rows split: outcome.splits list.splits)

subsection \<open>What a panel may say\<close>

text \<open>The trip section against the tables \<open>d\<close> and the keys \<open>V\<close> of Redis; \<open>up\<close>: the database answers.\<close>

definition trip_info_true ::
  "bool \<Rightarrow> srv_env \<Rightarrow> (string \<Rightarrow> redis_val option) \<Rightarrow> db \<Rightarrow> string \<Rightarrow> TripInfo \<Rightarrow> DriverInfo option \<Rightarrow> bool" where
  "trip_info_true up env V d vid ti driver \<longleftrightarrow>
     (\<exists>t\<in>set (trip d). \<exists>ro\<in>set (route_registry d).
        tr_vehicle_id t = vid \<and> tr_status t = TripInProgress \<and> ro_route_id ro = tr_route_id t \<and>
        ti_TripID ti = tr_trip_id t \<and> ti_Status ti = tr_status t \<and> ti_RouteName ti = ro_route_name ro \<and>
        ti_OriginName ti = ro_origin_name ro \<and> ti_DestinationName ti = ro_destination_name ro \<and>
        (ti_Stops ti = stop_progress_query env (tr_trip_id t) (tr_route_id t) d \<or> ti_Stops ti = [] \<and> \<not> up)) \<and>
     ti_StopsTotal ti = int (length (ti_Stops ti)) \<and>
     ti_StopsCompleted ti = int (length (filter stop_done (ti_Stops ti))) \<and>
     (ti_DeviationStatus ti = ''on_route'' \<or>
        ti_DeviationStatus ti = ''deviated'' \<and> V (deviation_key vid) = Some (RStr ''true'')) \<and>
     (case ti_ETA ti of None \<Rightarrow> True | Some e \<Rightarrow> V (eta_key (ti_TripID ti)) = Some (RStr e)) \<and>
     (case driver of
        None \<Rightarrow> up \<longrightarrow> drivers_of_trip (ti_TripID ti) d = []
      | Some i \<Rightarrow> \<exists>dr\<in>set (drivers_of_trip (ti_TripID ti) d). di_DriverID i = dr_driver_id dr \<and>
          di_FullName i = dr_full_name dr \<and> di_PhoneNumber i = dr_phone_number dr \<and> di_LicenseNumber i = dr_license_number dr)"

definition panel_true ::
  "bool \<Rightarrow> srv_env \<Rightarrow> (string \<Rightarrow> redis_val option) \<Rightarrow> db \<Rightarrow> string \<Rightarrow> PanelResponse \<Rightarrow> bool" where
  "panel_true up env V d vid pn \<longleftrightarrow>
     pn_VehicleID pn = vid \<and>
     ((pn_LiveState pn)\<lparr>lt_OnlineStatus := []\<rparr> = zero_live \<or>
      (pn_LiveState pn)\<lparr>lt_OnlineStatus := []\<rparr> = live_of_hash env (hash_of (V (state_key vid)))) \<and>
     (lt_OnlineStatus (pn_LiveState pn) = StatusOnline \<or>
      V (online_key vid) = Some (RStr (lt_OnlineStatus (pn_LiveState pn)))) \<and>
     (case pn_Identity pn of
        None \<Rightarrow> up \<longrightarrow> vid \<notin> ve_vehicle_id ` set (vehicle_registry d)
      | Some i \<Rightarrow> \<exists>v\<in>set (vehicle_registry d). ve_vehicle_id v = vid \<and> vi_DisplayName i = ve_display_name v \<and>
          vi_RegistrationNumber i = ve_registration_number v \<and> vi_VehicleType i = ve_vehicle_type v \<and>
          vi_CapacityTonnes i = ve_capacity_tonnes v) \<and>
     (case pn_ActiveTrip pn of
        None \<Rightarrow> pn_Driver pn = None \<and> (up \<longrightarrow> active_trip_rows vid d = [])
      | Some ti \<Rightarrow> trip_info_true up env V d vid ti (pn_Driver pn)) \<and>
     (pn_RecentAlerts pn = [] \<and> \<not> up \<or>
      map av_row (pn_RecentAlerts pn) = map (\<lambda>a. a\<lparr>al_fleet_id := []\<rparr>)
        (takeWhile (\<lambda>a. al_triggered_value a \<noteq> None) (take 5 (attention_order (filter (recent_where vid) (vehicle_alerts d))))))"

lemma active_trip_rows_set:
  "(t, ro) \<in> set (active_trip_rows vid d) \<longleftrightarrow> t \<in> set (trip d) \<and> tr_vehicle_id t = vid \<and> tr_status t = TripInProgress \<and>
     ro \<in> set (route_registry d) \<and> ro_route_id ro = tr_route_id t"
  by (auto simp: active_trip_rows_def)

lemma panel_identity_read:
  assumes "panel_identity vid p = (i, p')"
  shows "pg_db p' = pg_db p" "pg_plan p = [] \<Longrightarrow> pg_plan p' = []"
    and "case i of
        None \<Rightarrow> pg_plan p = [] \<longrightarrow> vid \<notin> ve_vehicle_id ` set (vehicle_registry (pg_db p))
      | Some i \<Rightarrow> \<exists>v\<in>set (vehicle_registry (pg_db p)). ve_vehicle_id v = vid \<and> vi_DisplayName i = ve_display_name v \<and>
          vi_RegistrationNumber i = ve_registration_number v \<and> vi_VehicleType i = ve_vehicle_type v \<and>
          vi_CapacityTonnes i = ve_capacity_tonnes v"
proof -
  obtain res p1 where q: "pg_query_row (\<lambda>now d. filter (\<lambda>v. ve_vehicle_id v = vid) (vehicle_registry d)) p = (res, p1)"
    by fastforce
  note r = pg_query_row_read [OF q]
  have "p' = p1" using assms q by (auto simp: panel_identity_def split: sum.splits)
  then show "pg_db p' = pg_db p" "pg_plan p = [] \<Longrightarrow> pg_plan p' = []" using r by simp_all
  show "case i of
        None \<Rightarrow> pg_plan p = [] \<longrightarrow> vid \<notin> ve_vehicle_id ` set (vehicle_registry (pg_db p))
      | Some i \<Rightarrow> \<exists>v\<in>set (vehicle_registry (pg_db p)). ve_vehicle_id v = vid \<and> vi_DisplayName i = ve_display_name v \<and>
          vi_RegistrationNumber i = ve_registration_number v \<and> vi_VehicleType i = ve_vehicle_type v \<and>
          vi_CapacityTonnes i = ve_capacity_tonnes v"
    using assms q r(4) by (cases res) (auto simp: panel_identity_def filter_empty_conv filter_eq_Cons_iff)
qed

lemma panel_driver_read:
  assumes "panel_driver tid p = (i, p')"
  shows "pg_db p' = pg_db p" "pg_plan p = [] \<Longrightarrow> pg_plan p' = []"
    and "case i of
        None \<Rightarrow> pg_plan p = [] \<longrightarrow> drivers_of_trip tid (pg_db p) = []
      | Some i \<Rightarrow> \<exists>dr\<in>set (drivers_of_trip tid (pg_db p)). di_DriverID i = dr_driver_id dr \<and>
          di_FullName i = dr_full_name dr \<and> di_PhoneNumber i = dr_phone_number dr \<and> di_LicenseNumber i = dr_license_number dr"
  using assms pg_query_row_read [of "\<lambda>now d. drivers_of_trip tid d" p]
  by (auto simp: panel_driver_def split: prod.splits sum.splits)

lemma panel_alerts_read:
  assumes "panel_alerts vid p = (vs, p')"
  shows "pg_db p' = pg_db p"
    and "vs = [] \<and> pg_plan p \<noteq> [] \<or>
      map av_row vs = map (\<lambda>a. a\<lparr>al_fleet_id := []\<rparr>)
        (takeWhile (\<lambda>a. al_triggered_value a \<noteq> None) (take 5 (attention_order (filter (recent_where vid) (vehicle_alerts (pg_db p))))))"
proof -
  obtain res p1 where q: "page_alerts attention_order (recent_where vid) 5 0 p = (res, p1)" by fastforce
  note r = page_alerts_read [OF q]
  show "pg_db p' = pg_db p" using assms q r by (auto simp: panel_alerts_def split: sum.splits)
  have rows: "map av_row (map no_fleet ws) = map (\<lambda>a. a\<lparr>al_fleet_id := []\<rparr>) (map av_row ws)" for ws
    by (simp add: no_fleet_def)
  show "vs = [] \<and> pg_plan p \<noteq> [] \<or>
      map av_row vs = map (\<lambda>a. a\<lparr>al_fleet_id := []\<rparr>)
        (takeWhile (\<lambda>a. al_triggered_value a \<noteq> None) (take 5 (attention_order (filter (recent_where vid) (vehicle_alerts (pg_db p))))))"
  proof (cases res)
    case (Inr ws)
    then have "vs = map no_fleet ws" using assms q by (simp add: panel_alerts_def)
    then show ?thesis using r(3) Inr by (simp only: rows sum.case) simp
  qed (use assms q r(3) in \<open>simp add: panel_alerts_def\<close>)
qed

text \<open>Two hashes with the same entries show the same state.\<close>

lemma live_of_hash_cong: "map_of h = map_of h' \<Longrightarrow> live_of_hash env h = live_of_hash env h'"
  by (simp add: live_of_hash_def parseMapFloat_def parseMapBool_def map_get_def)

context redis_store
begin

lemma get_or_empty_read:
  assumes "get_or_empty rc key r = (v, r')"
  shows "clock r' = clock r" "\<forall>t\<ge>clock r. view r' t = view r t"
    and "v = [] \<or> view r (clock r) key = Some (RStr v)"
  using assms get_frame [of key r] get_value [of key r]
  by (auto simp: get_or_empty_def split: prod.splits sum.splits)

lemma get_opt_read:
  assumes "get_opt rc key r = (v, r')"
  shows "clock r' = clock r" "\<forall>t\<ge>clock r. view r' t = view r t"
    and "case v of None \<Rightarrow> True | Some s \<Rightarrow> view r (clock r) key = Some (RStr s)"
  using assms get_frame [of key r] get_value [of key r]
  by (auto simp: get_opt_def split: prod.splits sum.splits)

lemma panel_live_read:
  assumes "panel_live rc env vid r = (live, r')"
  shows "clock r' = clock r" "\<forall>t\<ge>clock r. view r' t = view r t"
    and "live\<lparr>lt_OnlineStatus := []\<rparr> = zero_live \<or>
         live\<lparr>lt_OnlineStatus := []\<rparr> = live_of_hash env (hash_of (view r (clock r) (state_key vid)))"
    and "lt_OnlineStatus live = StatusOnline \<or>
         view r (clock r) (online_key vid) = Some (RStr (lt_OnlineStatus live))"
proof -
  obtain res r1 where h: "cmd_HGetAll rc (state_key vid) r = (res, r1)" by fastforce
  obtain st where g: "get_or_empty rc (online_key vid) r1 = (st, r')"
    using assms h by (auto simp: panel_live_def Let_def split: prod.splits)
  define l where "l = (case res of Inl e \<Rightarrow> zero_live | Inr m \<Rightarrow> if m = [] then zero_live else live_of_hash env m)"
  have live: "live = l\<lparr>lt_OnlineStatus := if st = [] then StatusOnline else st\<rparr>"
    using assms h g by (simp add: panel_live_def l_def Let_def)
  have r1: "clock r1 = clock r" "\<forall>t\<ge>clock r. view r1 t = view r t" using hgetall_frame [OF h] by auto
  show "clock r' = clock r" "\<forall>t\<ge>clock r. view r' t = view r t"
    using get_or_empty_read [OF g] r1 by auto
  show "lt_OnlineStatus live = StatusOnline \<or> view r (clock r) (online_key vid) = Some (RStr (lt_OnlineStatus live))"
    using get_or_empty_read [OF g] r1 live by auto
  have "l = zero_live \<or> l = live_of_hash env (hash_of (view r (clock r) (state_key vid)))"
  proof (cases res)
    case (Inr m)
    then have "live_of_hash env m = live_of_hash env (hash_of (view r (clock r) (state_key vid)))"
      using hgetall_value [of "state_key vid" r m r1] h by (intro live_of_hash_cong) simp
    with Inr show ?thesis by (simp add: l_def)
  qed (simp add: l_def)
  moreover have "lt_OnlineStatus l = []" by (auto simp: l_def zero_live_def live_of_hash_def split: sum.splits)
  then have "live\<lparr>lt_OnlineStatus := []\<rparr> = l" unfolding live by (cases l) simp
  ultimately show "live\<lparr>lt_OnlineStatus := []\<rparr> = zero_live \<or>
      live\<lparr>lt_OnlineStatus := []\<rparr> = live_of_hash env (hash_of (view r (clock r) (state_key vid)))"
    by simp
qed

lemma panel_trip_read:
  assumes "panel_trip rc env vid (p, r) = ((ti, driver), p', r')"
  shows "clock r' = clock r" "\<forall>t\<ge>clock r. view r' t = view r t" "pg_db p' = pg_db p" "pg_plan p = [] \<Longrightarrow> pg_plan p' = []"
    and "case ti of
           None \<Rightarrow> driver = None \<and> (pg_plan p = [] \<longrightarrow> active_trip_rows vid (pg_db p) = [])
         | Some i \<Rightarrow> trip_info_true (pg_plan p = []) env (view r (clock r)) (pg_db p) vid i driver"
proof -
  obtain res p1 where q: "pg_query_row (\<lambda>now d. active_trip_rows vid d) p = (res, p1)" by fastforce
  note row = pg_query_row_read [OF q]
  have "(clock r' = clock r \<and> (\<forall>t\<ge>clock r. view r' t = view r t) \<and> pg_db p' = pg_db p \<and> (pg_plan p = [] \<longrightarrow> pg_plan p' = [])) \<and>
    (case ti of
       None \<Rightarrow> driver = None \<and> (pg_plan p = [] \<longrightarrow> active_trip_rows vid (pg_db p) = [])
     | Some i \<Rightarrow> trip_info_true (pg_plan p = []) env (view r (clock r)) (pg_db p) vid i driver)"
  proof (cases res)
    case (Inl e)
    then show ?thesis using assms q row by (simp add: panel_trip_def)
  next
    case (Inr x)
    obtain t ro where x: "x = (t, ro)" by (cases x)
    obtain ss n c p2 where l: "load_progress env (tr_trip_id t) (tr_route_id t) p1 = ((ss, n, c), p2)" by (metis surj_pair)
    obtain dev r1 where g: "get_or_empty rc (deviation_key vid) r = (dev, r1)" by fastforce
    obtain eta r2 where e: "get_opt rc (eta_key (tr_trip_id t)) r1 = (eta, r2)" by fastforce
    obtain dr p3 where d: "panel_driver (tr_trip_id t) p2 = (dr, p3)" by fastforce
    have out: "ti = Some \<lparr>ti_TripID = tr_trip_id t, ti_RouteName = ro_route_name ro, ti_OriginName = ro_origin_name ro,
        ti_DestinationName = ro_destination_name ro, ti_Status = tr_status t, ti_StopsTotal = n,
        ti_StopsCompleted = c, ti_DeviationStatus = deviation_text dev, ti_ETA = eta, ti_Stops = ss\<rparr>"
      "driver = dr" "p' = p3" "r' = r2"
      using assms q Inr x l g e d by (simp_all add: panel_trip_def)
    have mem: "(t, ro) \<in> set (active_trip_rows vid (pg_db p))" using row(4) Inr x by auto
    note reads = load_progress_read [OF l] get_or_empty_read [OF g] get_opt_read [OF e] panel_driver_read [OF d]
    have at: "\<exists>t'\<in>set (trip (pg_db p)). \<exists>ro'\<in>set (route_registry (pg_db p)).
        tr_vehicle_id t' = vid \<and> tr_status t' = TripInProgress \<and> ro_route_id ro' = tr_route_id t' \<and>
        tr_trip_id t = tr_trip_id t' \<and> tr_status t = tr_status t' \<and> ro_route_name ro = ro_route_name ro' \<and>
        ro_origin_name ro = ro_origin_name ro' \<and> ro_destination_name ro = ro_destination_name ro' \<and>
        (ss = stop_progress_query env (tr_trip_id t') (tr_route_id t') (pg_db p) \<or> ss = [] \<and> pg_plan p \<noteq> [])"
      using mem reads(5) row(1,3) unfolding active_trip_rows_set by (intro bexI [of _ t] bexI [of _ ro]) auto
    have drv: "case dr of None \<Rightarrow> pg_plan p = [] \<longrightarrow> drivers_of_trip (tr_trip_id t) (pg_db p) = []
      | Some i \<Rightarrow> \<exists>d\<in>set (drivers_of_trip (tr_trip_id t) (pg_db p)). di_DriverID i = dr_driver_id d \<and>
          di_FullName i = dr_full_name d \<and> di_PhoneNumber i = dr_phone_number d \<and> di_LicenseNumber i = dr_license_number d"
      using panel_driver_read(3) [OF d] reads(1,2) row(1,3) by (cases dr) auto
    have eta: "case eta of None \<Rightarrow> True | Some s \<Rightarrow> view r (clock r) (eta_key (tr_trip_id t)) = Some (RStr s)"
      using get_opt_read(3) [OF e] get_or_empty_read(1,2) [OF g] by (cases eta) auto
    have dv: "deviation_text dev = ''on_route'' \<or>
        deviation_text dev = ''deviated'' \<and> view r (clock r) (deviation_key vid) = Some (RStr ''true'')"
      using get_or_empty_read(3) [OF g] by (auto simp: deviation_text_def)
    have "trip_info_true (pg_plan p = []) env (view r (clock r)) (pg_db p) vid (the ti) dr"
      using at drv eta dv load_progress_read(3,4) [OF l] unfolding out trip_info_true_def option.sel TripInfo.simps by simp
    then show ?thesis using reads row(1,3) unfolding out by simp
  qed
  then show "clock r' = clock r" "\<forall>t\<ge>clock r. view r' t = view r t" "pg_db p' = pg_db p" "pg_plan p = [] \<Longrightarrow> pg_plan p' = []"
    and "case ti of
           None \<Rightarrow> driver = None \<and> (pg_plan p = [] \<longrightarrow> active_trip_rows vid (pg_db p) = [])
         | Some i \<Rightarrow> trip_info_true (pg_plan p = []) env (view r (clock r)) (pg_db p) vid i driver"
    by auto
qed

lemma HandlePanel_true:
  assumes "HandlePanel rc env ctx rq (p, r) = (resp, p', r')" "hr_path rq ''vehicle_id'' = vid" "vid \<noteq> []"
  shows "pg_db p' = pg_db p \<and> (\<forall>t\<ge>clock r. view r' t = view r t) \<and>
    (\<exists>panel. resp = writeJSON StatusOK (panel_json env panel) \<and>
       panel_true (pg_plan p = []) env (view r (clock r)) (pg_db p) vid panel)"
proof -
  obtain live r1 where l: "panel_live rc env vid r = (live, r1)" by fastforce
  obtain i p1 where i: "panel_identity vid p = (i, p1)" by fastforce
  obtain ti dr p2 r2 where t: "panel_trip rc env vid (p1, r1) = ((ti, dr), p2, r2)" by (metis surj_pair)
  obtain vs p3 where a: "panel_alerts vid p2 = (vs, p3)" by fastforce
  have out: "resp = writeJSON StatusOK (panel_json env \<lparr>pn_VehicleID = vid, pn_LiveState = live, pn_Identity = i,
      pn_Driver = dr, pn_ActiveTrip = ti, pn_RecentAlerts = vs\<rparr>)" "p' = p3" "r' = r2"
    using assms l i t a by (simp_all add: HandlePanel_def Let_def)
  note live = panel_live_read [OF l] and trp = panel_trip_read [OF t]
  note ident = panel_identity_read [OF i] and al = panel_alerts_read [OF a]
  have up: "pg_plan p2 \<noteq> [] \<Longrightarrow> pg_plan p \<noteq> []" using trp(4) ident(2) by blast
  have weaken: "trip_info_true (pg_plan p = []) env (view r (clock r)) (pg_db p) vid x d"
    if "trip_info_true (pg_plan p1 = []) env (view r (clock r)) (pg_db p) vid x d" for x d
    using that ident(2) by (fastforce simp: trip_info_true_def split: option.splits)
  have "panel_true (pg_plan p = []) env (view r (clock r)) (pg_db p) vid
      \<lparr>pn_VehicleID = vid, pn_LiveState = live, pn_Identity = i, pn_Driver = dr, pn_ActiveTrip = ti, pn_RecentAlerts = vs\<rparr>"
    using live ident trp(3,5) al up weaken unfolding panel_true_def by (auto split: option.splits)
  then show ?thesis using out live(1,2) trp(1,2,3) ident(1) al(1) by auto
qed

end

section \<open>Properties\<close>



end
