(* ===== verification/Serving_Trips.thy ===== *)
theory Serving_Trips
  imports Serving_Vehicles
begin

text \<open>
  The trip endpoints of the serving service (\<open>src/serving/internal/handler/trip.go\<close>): the filtered,
  paged list of trips and the detail of one trip with its stops, its estimate and its deviation.
\<close>

record tripListRow =
  tl_TripID :: string
  tl_VehicleID :: string
  tl_VehicleName :: string
  tl_DriverID :: string
  tl_DriverName :: string
  tl_RouteID :: string
  tl_RouteName :: string
  tl_FleetID :: string
  tl_Status :: string
  tl_ScheduledDeparture :: string
  tl_ActualDeparture :: "string option"
  tl_CompletedAt :: "string option"
  tl_CreatedAt :: string

record tripVehicle =
  tv_VehicleID :: string
  tv_DisplayName :: string
  tv_RegistrationNumber :: string
  tv_FleetID :: string

record tripDriver =
  td_DriverID :: string
  td_FullName :: string
  td_PhoneNumber :: string

record tripRoute =
  to_RouteID :: string
  to_RouteName :: string
  to_OriginName :: string
  to_DestinationName :: string
  to_TotalDistanceKm :: float64

record tripDetail =
  tdt_TripID :: string
  tdt_Status :: string
  tdt_ScheduledDeparture :: string
  tdt_ActualDeparture :: "string option"
  tdt_CompletedAt :: "string option"
  tdt_CreatedAt :: string
  tdt_Vehicle :: tripVehicle
  tdt_Driver :: tripDriver
  tdt_Route :: tripRoute
  tdt_Stops :: "StopProgress list"
  tdt_StopsTotal :: int
  tdt_StopsCompleted :: int
  tdt_ETA :: "string option"
  tdt_DeviationStatus :: string

section \<open>JSON\<close>

definition trip_row_json :: "tripListRow \<Rightarrow> json" where
  "trip_row_json t =
     JObj ([(''trip_id'', JStr (tl_TripID t)), (''vehicle_id'', JStr (tl_VehicleID t)),
        (''vehicle_name'', JStr (tl_VehicleName t)), (''driver_id'', JStr (tl_DriverID t)),
        (''driver_name'', JStr (tl_DriverName t)), (''route_id'', JStr (tl_RouteID t)),
        (''route_name'', JStr (tl_RouteName t)), (''fleet_id'', JStr (tl_FleetID t)), (''status'', JStr (tl_Status t)),
        (''scheduled_departure'', JStr (tl_ScheduledDeparture t))] @
       opt_str ''actual_departure'' (tl_ActualDeparture t) @ opt_str ''completed_at'' (tl_CompletedAt t) @
       [(''created_at'', JStr (tl_CreatedAt t))])"

definition trip_detail_json :: "tripDetail \<Rightarrow> json" where
  "trip_detail_json t =
     JObj ([(''trip_id'', JStr (tdt_TripID t)), (''status'', JStr (tdt_Status t)),
        (''scheduled_departure'', JStr (tdt_ScheduledDeparture t))] @
       opt_str ''actual_departure'' (tdt_ActualDeparture t) @ opt_str ''completed_at'' (tdt_CompletedAt t) @
       [(''created_at'', JStr (tdt_CreatedAt t)),
        (''vehicle'', JObj [(''vehicle_id'', JStr (tv_VehicleID (tdt_Vehicle t))),
           (''display_name'', JStr (tv_DisplayName (tdt_Vehicle t))),
           (''registration_number'', JStr (tv_RegistrationNumber (tdt_Vehicle t))),
           (''fleet_id'', JStr (tv_FleetID (tdt_Vehicle t)))]),
        (''driver'', JObj [(''driver_id'', JStr (td_DriverID (tdt_Driver t))),
           (''full_name'', JStr (td_FullName (tdt_Driver t))), (''phone_number'', JStr (td_PhoneNumber (tdt_Driver t)))]),
        (''route'', JObj [(''route_id'', JStr (to_RouteID (tdt_Route t))), (''route_name'', JStr (to_RouteName (tdt_Route t))),
           (''origin_name'', JStr (to_OriginName (tdt_Route t))),
           (''destination_name'', JStr (to_DestinationName (tdt_Route t))),
           (''total_distance_km'', JNum (to_TotalDistanceKm (tdt_Route t)))]),
        (''stops'', JArr (map stop_progress_json (tdt_Stops t))),
        (''stops_total'', JInt (tdt_StopsTotal t)), (''stops_completed'', JInt (tdt_StopsCompleted t))] @
       opt_str ''eta'' (tdt_ETA t) @ [(''deviation_status'', JStr (tdt_DeviationStatus t))])"

section \<open>HandleList\<close>

text \<open>The row of a trip joined with its vehicle, as the conditions see it.\<close>

definition trip_where :: "srv_env \<Rightarrow> (string \<Rightarrow> string) \<Rightarrow> trip_row \<times> vehicle_row \<Rightarrow> bool" where
  "trip_where env q tv \<longleftrightarrow>
     (q ''fleet_id'' = [] \<or> ve_fleet_id (snd tv) = q ''fleet_id'') \<and>
     (q ''status'' = [] \<or> tr_status (fst tv) = q ''status'') \<and>
     (case time_bound env (q ''from'') of None \<Rightarrow> True | Some t \<Rightarrow> t \<le> tr_scheduled_departure (fst tv)) \<and>
     (case time_bound env (q ''to'') of None \<Rightarrow> True | Some t \<Rightarrow> tr_scheduled_departure (fst tv) \<le> t)"

definition trips_with_vehicle :: "db \<Rightarrow> (trip_row \<times> vehicle_row) list" where
  "trips_with_vehicle d =
     concat (map (\<lambda>t. map (Pair t) (filter (\<lambda>v. ve_vehicle_id v = tr_vehicle_id t) (vehicle_registry d))) (trip d))"

text \<open>The two \<open>LEFT JOIN\<close>s are on primary keys; \<open>COALESCE\<close> falls back to the identifier.\<close>

definition driver_name_of :: "db \<Rightarrow> string \<Rightarrow> string" where
  "driver_name_of d did = (case find (\<lambda>dr. dr_driver_id dr = did) (driver_registry d) of
     None \<Rightarrow> did | Some dr \<Rightarrow> dr_full_name dr)"

definition route_name_of :: "db \<Rightarrow> string \<Rightarrow> string" where
  "route_name_of d rid = (case find (\<lambda>ro. ro_route_id ro = rid) (route_registry d) of
     None \<Rightarrow> rid | Some ro \<Rightarrow> ro_route_name ro)"

definition list_row :: "srv_env \<Rightarrow> db \<Rightarrow> trip_row \<times> vehicle_row \<Rightarrow> tripListRow" where
  "list_row env d tv = (case tv of (t, v) \<Rightarrow>
     \<lparr>tl_TripID = tr_trip_id t, tl_VehicleID = tr_vehicle_id t, tl_VehicleName = ve_display_name v,
      tl_DriverID = tr_driver_id t, tl_DriverName = driver_name_of d (tr_driver_id t), tl_RouteID = tr_route_id t,
      tl_RouteName = route_name_of d (tr_route_id t), tl_FleetID = ve_fleet_id v, tl_Status = tr_status t,
      tl_ScheduledDeparture = sv_fmtTime env (tr_scheduled_departure t),
      tl_ActualDeparture = map_option (sv_fmtTime env) (tr_actual_departure t),
      tl_CompletedAt = map_option (sv_fmtTime env) (tr_completed_at t), tl_CreatedAt = sv_fmtTime env (tr_created_at t)\<rparr>)"

text \<open>\<open>ORDER BY t.scheduled_departure DESC\<close>.\<close>

definition latest_departure_first :: "(trip_row \<times> vehicle_row) list \<Rightarrow> (trip_row \<times> vehicle_row) list" where
  "latest_departure_first = sort_key (\<lambda>tv. - tr_scheduled_departure (fst tv))"

definition HandleList :: "srv_env \<Rightarrow> (pg \<times> 'r) srv_handler" where
  "HandleList env ctx rq w =
     (let q = hr_query rq; P = trip_where env q;
          (page, limit) = parsePagination (q ''page'') (q ''limit'');
          (tot, p1) = (case pg_query (\<lambda>now d. int (length (filter P (trips_with_vehicle d)))) (fst w) of
                         (Inl e, p1) \<Rightarrow> (0, p1)
                       | (Inr n, p1) \<Rightarrow> (n, p1))
      in case pg_run False (\<lambda>now d. (case sql_page limit (page_offset page limit)
                                 (latest_departure_first (filter P (trips_with_vehicle d))) of
                               Inl e \<Rightarrow> Inl e
                             | Inr rows \<Rightarrow> Inr (map (list_row env d) rows), d)) p1 of
           (Inl err, p2) \<Rightarrow> (writeError StatusInternalServerError ''failed to query trips'', p2, snd w)
         | (Inr rows, p2) \<Rightarrow>
             (writeJSON StatusOK (JObj [(''trips'', JArr (map trip_row_json rows)),
                (''pagination'', pagination_json (NewPagination page limit tot))]), p2, snd w))"

section \<open>HandleDetail\<close>

definition detail_rows :: "string \<Rightarrow> db \<Rightarrow> (trip_row \<times> vehicle_row \<times> driver_row \<times> route_row) list" where
  "detail_rows tripID d =
     concat (map (\<lambda>t. concat (map (\<lambda>v. concat (map (\<lambda>dr. map (\<lambda>ro. (t, v, dr, ro))
            (filter (\<lambda>ro. ro_route_id ro = tr_route_id t) (route_registry d)))
          (filter (\<lambda>dr. dr_driver_id dr = tr_driver_id t) (driver_registry d))))
        (filter (\<lambda>v. ve_vehicle_id v = tr_vehicle_id t) (vehicle_registry d))))
       (filter (\<lambda>t. tr_trip_id t = tripID) (trip d)))"

definition trip_detail :: "'r redis_client \<Rightarrow> srv_env \<Rightarrow> string \<Rightarrow> pg \<times> 'r \<Rightarrow> tripDetail option \<times> pg \<times> 'r" where
  "trip_detail rc env tripID w =
     (case pg_query_row (\<lambda>now d. detail_rows tripID d) (fst w) of
        (Inl e, p1) \<Rightarrow> (None, p1, snd w)
      | (Inr (t, v, dr, ro), p1) \<Rightarrow>
          (let ((stops, tot, completed), p2) = load_progress env tripID (tr_route_id t) p1;
               (eta, r1) = get_opt rc (eta_key tripID) (snd w);
               (dev, r2) = get_or_empty rc (deviation_key (ve_vehicle_id v)) r1
           in (Some \<lparr>tdt_TripID = tr_trip_id t, tdt_Status = tr_status t,
                tdt_ScheduledDeparture = sv_fmtTime env (tr_scheduled_departure t),
                tdt_ActualDeparture = map_option (sv_fmtTime env) (tr_actual_departure t),
                tdt_CompletedAt = map_option (sv_fmtTime env) (tr_completed_at t),
                tdt_CreatedAt = sv_fmtTime env (tr_created_at t),
                tdt_Vehicle = \<lparr>tv_VehicleID = ve_vehicle_id v, tv_DisplayName = ve_display_name v,
                   tv_RegistrationNumber = ve_registration_number v, tv_FleetID = ve_fleet_id v\<rparr>,
                tdt_Driver = \<lparr>td_DriverID = dr_driver_id dr, td_FullName = dr_full_name dr,
                   td_PhoneNumber = dr_phone_number dr\<rparr>,
                tdt_Route = \<lparr>to_RouteID = ro_route_id ro, to_RouteName = ro_route_name ro,
                   to_OriginName = ro_origin_name ro, to_DestinationName = ro_destination_name ro,
                   to_TotalDistanceKm = (case ro_total_distance_km ro of None \<Rightarrow> Fin 0 | Some x \<Rightarrow> x)\<rparr>,
                tdt_Stops = stops, tdt_StopsTotal = tot, tdt_StopsCompleted = completed, tdt_ETA = eta,
                tdt_DeviationStatus = deviation_text dev\<rparr>, p2, r2)))"

definition HandleDetail :: "'r redis_client \<Rightarrow> srv_env \<Rightarrow> (pg \<times> 'r) srv_handler" where
  "HandleDetail rc env ctx rq w =
     (let tripID = hr_path rq ''trip_id'' in
      if tripID = [] then (writeError StatusBadRequest ''trip_id path parameter is required'', w)
      else case trip_detail rc env tripID w of
             (None, w') \<Rightarrow> (writeError StatusNotFound ''trip not found'', w')
           | (Some td, w') \<Rightarrow> (writeJSON StatusOK (trip_detail_json td), w'))"

section \<open>Lemmas\<close>

lemma trips_with_vehicle_set:
  "(t, v) \<in> set (trips_with_vehicle d) \<longleftrightarrow> t \<in> set (trip d) \<and> v \<in> set (vehicle_registry d) \<and> ve_vehicle_id v = tr_vehicle_id t"
  by (auto simp: trips_with_vehicle_def)

lemma detail_rows_set:
  "(t, v, dr, ro) \<in> set (detail_rows tid d) \<longleftrightarrow> t \<in> set (trip d) \<and> tr_trip_id t = tid \<and>
     v \<in> set (vehicle_registry d) \<and> ve_vehicle_id v = tr_vehicle_id t \<and> dr \<in> set (driver_registry d) \<and>
     dr_driver_id dr = tr_driver_id t \<and> ro \<in> set (route_registry d) \<and> ro_route_id ro = tr_route_id t"
  by (auto simp: detail_rows_def)

lemma latest_departure_first_sorted:
  "sorted_wrt (\<lambda>a b. tr_scheduled_departure (fst b) \<le> tr_scheduled_departure (fst a)) (latest_departure_first tvs)"
proof -
  have "sorted (map (\<lambda>tv. - tr_scheduled_departure (fst tv)) (latest_departure_first tvs))"
    by (simp add: latest_departure_first_def)
  then show ?thesis by (simp add: sorted_map)
qed

text \<open>The list on a database that answers: one page of the matching trips, latest departure first.\<close>

lemma HandleList_up:
  assumes "pg_plan p = []" "parsePagination (hr_query rq ''page'') (hr_query rq ''limit'') = (page, limit)"
    and "page \<le> 2 ^ 63 div 100"
  shows "HandleList env ctx rq (p, r) =
    (let tvs = latest_departure_first (filter (trip_where env (hr_query rq)) (trips_with_vehicle (pg_db p)))
     in (writeJSON StatusOK (JObj [(''trips'', JArr (map (\<lambda>tv. trip_row_json (list_row env (pg_db p) tv))
              (take (nat limit) (drop (nat ((page - 1) * limit)) tvs)))),
          (''pagination'', pagination_json (NewPagination page limit (int (length tvs))))]), p, r))"
proof -
  have b: "1 \<le> page" "1 \<le> limit" "limit \<le> 100" using parsePagination_bounds [OF assms(2)] by auto
  then have "page_offset page limit = (page - 1) * limit" using assms(3) by (intro page_offset_exact) auto
  moreover have "0 \<le> (page - 1) * limit" using b by simp
  ultimately show ?thesis
    using assms by (simp add: HandleList_def pg_query_up pg_run_up sql_page_def Let_def latest_departure_first_def comp_def)
qed

lemma trip_detail_read:
  assumes "trip_detail rc env tid (p, r) = (Some td, w)"
  obtains t v dr ro p1 p2 r1 dev where "(t, v, dr, ro) \<in> set (detail_rows tid (pg_db p))" "pg_db p1 = pg_db p"
    "pg_plan p = [] \<longrightarrow> pg_plan p1 = []"
    "load_progress env tid (tr_route_id t) p1 = ((tdt_Stops td, tdt_StopsTotal td, tdt_StopsCompleted td), p2)"
    "get_opt rc (eta_key tid) r = (tdt_ETA td, r1)"
    "fst (get_or_empty rc (deviation_key (ve_vehicle_id v)) r1) = dev"
    "tdt_DeviationStatus td = deviation_text dev"
    "tdt_TripID td = tr_trip_id t" "tdt_Status td = tr_status t" "tv_VehicleID (tdt_Vehicle td) = ve_vehicle_id v"
    "to_RouteName (tdt_Route td) = ro_route_name ro" "to_OriginName (tdt_Route td) = ro_origin_name ro"
    "to_DestinationName (tdt_Route td) = ro_destination_name ro"
proof -
  obtain res p1 where q: "pg_query_row (\<lambda>now d. detail_rows tid d) p = (res, p1)" by fastforce
  with assms obtain x where "res = Inr x" by (cases res) (simp_all add: trip_detail_def)
  then obtain t v dr ro where x: "res = Inr (t, v, dr, ro)" by (cases x) auto
  obtain ss n c p2 where l: "load_progress env tid (tr_route_id t) p1 = ((ss, n, c), p2)" by (metis surj_pair)
  obtain eta r1 where e: "get_opt rc (eta_key tid) r = (eta, r1)" by fastforce
  obtain dev r2 where g: "get_or_empty rc (deviation_key (ve_vehicle_id v)) r1 = (dev, r2)" by fastforce
  have "(t, v, dr, ro) \<in> set (detail_rows tid (pg_db p))" using pg_query_row_read(4) [OF q] x by auto
  then show thesis
    using pg_query_row_read(1,3) [OF q] assms q x l e g
    by (intro that [of t v dr ro p1 p2 r1 dev]) (auto simp: trip_detail_def)
qed

context redis_store
begin

lemma panel_detail_agree:
  assumes wf: "registry_wf (pg_db p)" and up: "pg_plan p = []"
    and pt: "panel_trip rc env vid (p, r) = ((Some ti, driver), p', r')"
    and td: "trip_detail rc env (ti_TripID ti) (p', r') = (Some td, w)"
  shows "tv_VehicleID (tdt_Vehicle td) = vid \<and> tdt_TripID td = ti_TripID ti \<and> tdt_Status td = ti_Status ti \<and>
    to_RouteName (tdt_Route td) = ti_RouteName ti \<and> to_OriginName (tdt_Route td) = ti_OriginName ti \<and>
    to_DestinationName (tdt_Route td) = ti_DestinationName ti \<and> tdt_Stops td = ti_Stops ti \<and>
    tdt_StopsTotal td = ti_StopsTotal ti \<and> tdt_StopsCompleted td = ti_StopsCompleted ti \<and>
    (tdt_ETA td = None \<or> ti_ETA ti = None \<or> tdt_ETA td = ti_ETA ti) \<and>
    (tdt_DeviationStatus td = ''deviated'' \<or> ti_DeviationStatus ti = ''deviated'' \<longrightarrow>
       view r (clock r) (deviation_key vid) = Some (RStr ''true''))"
proof -
  note pr = panel_trip_read [OF pt]
  have true: "trip_info_true True env (view r (clock r)) (pg_db p) vid ti driver" using pr(5) up by simp
  then obtain t ro where t: "t \<in> set (trip (pg_db p))" "ro \<in> set (route_registry (pg_db p))" "tr_vehicle_id t = vid"
      "ro_route_id ro = tr_route_id t" "ti_TripID ti = tr_trip_id t" "ti_Status ti = tr_status t"
      "ti_RouteName ti = ro_route_name ro" "ti_OriginName ti = ro_origin_name ro"
      "ti_DestinationName ti = ro_destination_name ro"
      "ti_Stops ti = stop_progress_query env (tr_trip_id t) (tr_route_id t) (pg_db p)"
    unfolding trip_info_true_def by blast
  have counts: "ti_StopsTotal ti = int (length (ti_Stops ti))"
      "ti_StopsCompleted ti = int (length (filter stop_done (ti_Stops ti)))"
      "ti_DeviationStatus ti = ''deviated'' \<longrightarrow> view r (clock r) (deviation_key vid) = Some (RStr ''true'')"
      "\<forall>e. ti_ETA ti = Some e \<longrightarrow> view r (clock r) (eta_key (ti_TripID ti)) = Some (RStr e)"
    using true by (auto simp: trip_info_true_def split: option.splits)
  from td obtain t' v dr ro' p1 p2 r1 dev where d:
      "(t', v, dr, ro') \<in> set (detail_rows (ti_TripID ti) (pg_db p'))" "pg_db p1 = pg_db p'"
      "pg_plan p' = [] \<longrightarrow> pg_plan p1 = []"
      "load_progress env (ti_TripID ti) (tr_route_id t') p1 = ((tdt_Stops td, tdt_StopsTotal td, tdt_StopsCompleted td), p2)"
      "get_opt rc (eta_key (ti_TripID ti)) r' = (tdt_ETA td, r1)"
      "fst (get_or_empty rc (deviation_key (ve_vehicle_id v)) r1) = dev" "tdt_DeviationStatus td = deviation_text dev"
      "tdt_TripID td = tr_trip_id t'" "tdt_Status td = tr_status t'" "tv_VehicleID (tdt_Vehicle td) = ve_vehicle_id v"
      "to_RouteName (tdt_Route td) = ro_route_name ro'" "to_OriginName (tdt_Route td) = ro_origin_name ro'"
      "to_DestinationName (tdt_Route td) = ro_destination_name ro'"
    by (rule trip_detail_read)
  have row: "t' \<in> set (trip (pg_db p))" "tr_trip_id t' = ti_TripID ti" "ve_vehicle_id v = tr_vehicle_id t'"
      "ro' \<in> set (route_registry (pg_db p))" "ro_route_id ro' = tr_route_id t'"
    using d(1) pr(3) unfolding detail_rows_set by auto
  have tt: "t' = t" using wf t(1,5) row(1,2) by (intro key_inj [of tr_trip_id "trip (pg_db p)"]) (auto simp: registry_wf_def)
  have rr: "ro' = ro" using wf t(2,4) row(4,5) tt
    by (intro key_inj [of ro_route_id "route_registry (pg_db p)"]) (auto simp: registry_wf_def)
  have vid: "ve_vehicle_id v = vid" using row(3) tt t(3) by simp
  have stops: "tdt_Stops td = ti_Stops ti" "tdt_StopsTotal td = ti_StopsTotal ti" "tdt_StopsCompleted td = ti_StopsCompleted ti"
    using load_progress_read(3-5) [OF d(4)] d(2,3) pr(3,4) up t(5,10) tt counts(1,2) by simp_all
  have r': "view r' (clock r') = view r (clock r)" "clock r' = clock r" using pr(1,2) by auto
  have eta: "tdt_ETA td = None \<or> ti_ETA ti = None \<or> tdt_ETA td = ti_ETA ti"
    using get_opt_read(3) [OF d(5)] counts(4) r' by (cases "ti_ETA ti"; cases "tdt_ETA td") auto
  have "view r1 (clock r1) = view r (clock r)" using get_opt_read(1,2) [OF d(5)] r' by auto
  then have dev: "deviation_text dev = ''deviated'' \<longrightarrow> view r (clock r) (deviation_key vid) = Some (RStr ''true'')"
    using get_or_empty_read(3) [OF prod.collapse [symmetric], of "deviation_key vid" r1] d(6) vid
    by (auto simp: deviation_text_def)
  show ?thesis using d(7-13) tt rr vid stops eta dev counts(3) t(5-9) by simp
qed

end

section \<open>Properties\<close>


definition touring_db :: db where
  "touring_db = deviated_db\<lparr>
     driver_registry := [\<lparr>dr_driver_id = ''D'', dr_full_name = ''Dana'', dr_phone_number = ''1'', dr_license_number = ''L'',
       dr_license_expiry = ''2030-01-01'', dr_active = True\<rparr>],
     route_registry := [\<lparr>ro_route_id = ''R'', ro_route_name = ''North'', ro_origin_name = ''A'', ro_origin_lat = Fin 0,
       ro_origin_lng = Fin 0, ro_destination_name = ''B'', ro_destination_lat = Fin 1, ro_destination_lng = Fin 1,
       ro_corridor_radius_km = Fin 25, ro_total_distance_km = None, ro_active = True\<rparr>],
     route_stops := [\<lparr>st_stop_id = ''S2'', st_route_id = ''R'', st_stop_sequence = 2, st_stop_name = ''B'', st_lat = Fin 1,
        st_lng = Fin 1, st_arrival_radius_km = Fin 1\<rparr>,
       \<lparr>st_stop_id = ''S1'', st_route_id = ''R'', st_stop_sequence = 1, st_stop_name = ''A'', st_lat = Fin 0,
        st_lng = Fin 0, st_arrival_radius_km = Fin 1\<rparr>],
     trip := [\<lparr>tr_trip_id = ''T'', tr_vehicle_id = ''V'', tr_driver_id = ''D'', tr_route_id = ''R'',
       tr_status = ''IN_PROGRESS'', tr_scheduled_departure = 0, tr_actual_departure = Some 1, tr_completed_at = None,
       tr_created_at = 0\<rparr>],
     trip_stop_progress := [\<lparr>pr_trip_id = ''T'', pr_stop_id = ''S1'', pr_status = ''ARRIVED'', pr_arrived_at = Some 2,
       pr_departed_at = None\<rparr>]\<rparr>"

definition touring_pg :: pg where
  "touring_pg = \<lparr>pg_db = touring_db, pg_now = 0, pg_plan = []\<rparr>"

lemma touring_trip:
  "\<exists>ti dr. panel_trip idle_client sample_env ''V'' (touring_pg, mem_empty 0 []) = ((Some ti, dr), touring_pg, mem_empty 0 []) \<and>
     ti_TripID ti = ''T'' \<and> ti_StopsCompleted ti = 1"
  by (simp add: panel_trip_def touring_pg_def touring_db_def deviated_db_def empty_db_def pg_query_row_def pg_query_up
      active_trip_rows_def TripInProgress_def load_progress_def stop_progress_query_def progress_of_def add_stop_def
      stop_names get_or_empty_def get_opt_def mem_cmd_defs mem_now_def mem_view_def mem_empty_def panel_driver_def
      drivers_of_trip_def)

lemma touring_detail:
  "\<exists>td. trip_detail idle_client sample_env ''T'' (touring_pg, mem_empty 0 []) = (Some td, touring_pg, mem_empty 0 [])"
  by (simp add: trip_detail_def touring_pg_def touring_db_def deviated_db_def empty_db_def pg_query_row_def pg_query_up
      detail_rows_def load_progress_def stop_progress_query_def progress_of_def add_stop_def
      stop_names get_or_empty_def get_opt_def mem_cmd_defs mem_now_def mem_view_def mem_empty_def)


end
