(* ===== verification/Serving_Analytics.thy ===== *)
theory Serving_Analytics
  imports Serving_Trips
begin

text \<open>
  The live summary of a fleet (\<open>src/serving/internal/handler/analytics.go\<close>). \<open>SCAN\<close> is a parameter: a
  function of the cursor, the pattern and the count that returns keys and the next cursor, 0 at the end.
  The loop over the cursors runs as long as Redis keeps returning other cursors, so it is a partial
  function; the locale \<open>redis_scan\<close> states the documented guarantee that a full iteration ends.
\<close>

type_synonym 'r scan_cmd = "nat \<Rightarrow> string \<Rightarrow> nat \<Rightarrow> 'r \<Rightarrow> (redis_err + string list \<times> nat) \<times> 'r"

record AnalyticsSummaryResponse =
  as_FleetID :: string
  as_TotalVehicles :: int
  as_LiveVehicles :: int
  as_ActiveMoving :: int
  as_Idle :: int
  as_Parked :: int
  as_Offline :: int
  as_OpenAlerts :: int
  as_TripsInProgress :: int

definition summary_json :: "AnalyticsSummaryResponse \<Rightarrow> json" where
  "summary_json s =
     JObj [(''fleet_id'', JStr (as_FleetID s)), (''total_vehicles'', JInt (as_TotalVehicles s)),
       (''live_vehicles'', JInt (as_LiveVehicles s)), (''active_moving'', JInt (as_ActiveMoving s)),
       (''idle'', JInt (as_Idle s)), (''parked'', JInt (as_Parked s)), (''offline'', JInt (as_Offline s)),
       (''open_alerts'', JInt (as_OpenAlerts s)), (''trips_in_progress'', JInt (as_TripsInProgress s))]"

section \<open>countLiveStates\<close>

record live_counts =
  lc_moving :: int
  lc_idle :: int
  lc_parked :: int
  lc_total :: int

definition no_counts :: live_counts where
  "no_counts = \<lparr>lc_moving = 0, lc_idle = 0, lc_parked = 0, lc_total = 0\<rparr>"

definition count_state :: "bool \<Rightarrow> bool \<Rightarrow> live_counts \<Rightarrow> live_counts" where
  "count_state isMoving engineOn c =
     (let c = c\<lparr>lc_total := lc_total c + 1\<rparr>
      in if isMoving then c\<lparr>lc_moving := lc_moving c + 1\<rparr>
         else if engineOn \<and> \<not> isMoving then c\<lparr>lc_idle := lc_idle c + 1\<rparr>
         else c\<lparr>lc_parked := lc_parked c + 1\<rparr>)"

text \<open>The body of the loop over the keys.\<close>

definition count_key :: "'r redis_client \<Rightarrow> string \<Rightarrow> string \<Rightarrow> live_counts \<times> 'r \<Rightarrow> live_counts \<times> 'r" where
  "count_key rc fleetID key s = (case s of (c, r) \<Rightarrow>
     (case cmd_HMGet rc key [''fleet_id'', ''is_moving'', ''engine_on''] r of
        (Inl hErr, r1) \<Rightarrow> (c, r1)
      | (Inr vals, r1) \<Rightarrow>
          if length vals < 3 \<or> vals ! 0 = None then (c, r1)
          else if vals ! 0 \<noteq> Some fleetID then (c, r1)
          else (count_state (parseBool (vals ! 1)) (parseBool (vals ! 2)) c, r1)))"

partial_function (option) scan_loop ::
  "'r redis_client \<Rightarrow> 'r scan_cmd \<Rightarrow> string \<Rightarrow> nat \<Rightarrow> live_counts \<Rightarrow> 'r \<Rightarrow> ((redis_err + live_counts) \<times> 'r) option" where
  "scan_loop rc scan fleetID cursor c r =
     (case scan cursor ''vehicle:*:state'' 100 r of
        (Inl err, r1) \<Rightarrow> Some (Inl err, r1)
      | (Inr (keys, cursor'), r1) \<Rightarrow>
          (case fold (count_key rc fleetID) keys (c, r1) of
             (c', r2) \<Rightarrow> if cursor' = 0 then Some (Inr c', r2) else scan_loop rc scan fleetID cursor' c' r2))"

definition countLiveStates ::
  "'r redis_client \<Rightarrow> 'r scan_cmd \<Rightarrow> string \<Rightarrow> 'r \<Rightarrow> ((redis_err + live_counts) \<times> 'r) option" where
  "countLiveStates rc scan fleetID r = scan_loop rc scan fleetID 0 no_counts r"

section \<open>HandleSummary\<close>

definition registered_count :: "string \<Rightarrow> db \<Rightarrow> int" where
  "registered_count fleetID d = int (length (filter (\<lambda>v. ve_fleet_id v = fleetID \<and> ve_active v) (vehicle_registry d)))"

definition open_alert_count :: "string \<Rightarrow> db \<Rightarrow> int" where
  "open_alert_count fleetID d =
     int (length (filter (\<lambda>a. al_fleet_id a = fleetID \<and> al_acknowledged_at a = None \<and> al_resolved_at a = None) (vehicle_alerts d)))"

definition trips_in_progress_count :: "string \<Rightarrow> db \<Rightarrow> int" where
  "trips_in_progress_count fleetID d =
     int (length (filter (\<lambda>tv. ve_fleet_id (snd tv) = fleetID \<and> tr_status (fst tv) = TripInProgress) (trips_with_vehicle d)))"

text \<open>The handler; \<open>None\<close> when the scan never ends.\<close>

definition HandleSummary ::
  "'r redis_client \<Rightarrow> 'r scan_cmd \<Rightarrow> auth_ctx \<Rightarrow> http_request \<Rightarrow> pg \<times> 'r \<Rightarrow> (response \<times> pg \<times> 'r) option" where
  "HandleSummary rc scan ctx rq w =
     (let fleetID = (if hr_path rq ''fleet_id'' = [] then hr_query rq ''fleet_id'' else hr_path rq ''fleet_id'') in
      if fleetID = [] then Some (writeError StatusBadRequest ''fleet_id path parameter is required'', w)
      else case pg_query (\<lambda>now d. registered_count fleetID d) (fst w) of
        (Inl e, p1) \<Rightarrow> Some (writeError StatusInternalServerError ''failed to count vehicles'', p1, snd w)
      | (Inr totalVehicles, p1) \<Rightarrow>
          (case countLiveStates rc scan fleetID (snd w) of
             None \<Rightarrow> None
           | Some (Inl e, r1) \<Rightarrow> Some (writeError StatusInternalServerError ''failed to read live vehicle states'', p1, r1)
           | Some (Inr c, r1) \<Rightarrow>
               (let offline = (if totalVehicles - lc_total c < 0 then 0 else totalVehicles - lc_total c) in
                case pg_query (\<lambda>now d. open_alert_count fleetID d) p1 of
                  (Inl e, p2) \<Rightarrow> Some (writeError StatusInternalServerError ''failed to count open alerts'', p2, r1)
                | (Inr openAlerts, p2) \<Rightarrow>
                    (case pg_query (\<lambda>now d. trips_in_progress_count fleetID d) p2 of
                       (Inl e, p3) \<Rightarrow> Some (writeError StatusInternalServerError ''failed to count in-progress trips'', p3, r1)
                     | (Inr trips, p3) \<Rightarrow>
                         Some (writeJSON StatusOK (summary_json
                           \<lparr>as_FleetID = fleetID, as_TotalVehicles = totalVehicles, as_LiveVehicles = lc_total c,
                            as_ActiveMoving = lc_moving c, as_Idle = lc_idle c, as_Parked = lc_parked c,
                            as_Offline = offline, as_OpenAlerts = openAlerts, as_TripsInProgress = trips\<rparr>), p3, r1)))))"

section \<open>Lemmas\<close>

text \<open>The counts of a list of keys, against the hashes they name.\<close>

definition key_field :: "(string \<Rightarrow> redis_val option) \<Rightarrow> string \<Rightarrow> string \<Rightarrow> string option" where
  "key_field V f k = map_of (hash_of (V k)) f"

definition counts_of :: "(string \<Rightarrow> redis_val option) \<Rightarrow> string list \<Rightarrow> live_counts" where
  "counts_of V ks =
     (let moving = (\<lambda>k. parseBool (key_field V ''is_moving'' k)); engine = (\<lambda>k. parseBool (key_field V ''engine_on'' k))
      in \<lparr>lc_moving = int (length (filter moving ks)), lc_idle = int (length (filter (\<lambda>k. \<not> moving k \<and> engine k) ks)),
          lc_parked = int (length (filter (\<lambda>k. \<not> moving k \<and> \<not> engine k) ks)), lc_total = int (length ks)\<rparr>)"

lemma counts_of_partition: "lc_moving (counts_of V ks) + lc_idle (counts_of V ks) + lc_parked (counts_of V ks) = lc_total (counts_of V ks)"
  by (induction ks) (auto simp: counts_of_def Let_def)

lemma counts_of_snoc:
  "counts_of V (ks @ [k]) =
     count_state (parseBool (key_field V ''is_moving'' k)) (parseBool (key_field V ''engine_on'' k)) (counts_of V ks)"
  by (auto simp: counts_of_def count_state_def Let_def)

lemma counts_of_Nil: "counts_of V [] = no_counts"
  by (simp add: counts_of_def no_counts_def Let_def)

definition summary_of :: "(string \<Rightarrow> redis_val option) \<Rightarrow> db \<Rightarrow> string \<Rightarrow> string list \<Rightarrow> AnalyticsSummaryResponse" where
  "summary_of V d fleetID ks =
     (let c = counts_of V ks; n = registered_count fleetID d in
      \<lparr>as_FleetID = fleetID, as_TotalVehicles = n, as_LiveVehicles = lc_total c, as_ActiveMoving = lc_moving c,
       as_Idle = lc_idle c, as_Parked = lc_parked c, as_Offline = max 0 (n - lc_total c),
       as_OpenAlerts = open_alert_count fleetID d, as_TripsInProgress = trips_in_progress_count fleetID d\<rparr>)"

text \<open>A key whose fields Redis may fail to return.\<close>

definition unreadable :: "'r redis_client \<Rightarrow> string \<Rightarrow> bool" where
  "unreadable rc key \<longleftrightarrow> (\<exists>r e r'. cmd_HMGet rc key [''fleet_id'', ''is_moving'', ''engine_on''] r = (Inl e, r'))"

text \<open>What the loop relies on of \<open>SCAN\<close>: it reads; the cursors of an iteration lead to 0; and a key of the keyspace that
  matches the pattern (\<open>known\<close>) and is there is returned by the iteration at least once (\<open>pending V c\<close>: the keys still
  to come at a cursor). A key may be returned more than once.\<close>

locale redis_scan = redis_store +
  fixes scan :: "'a scan_cmd" and remaining :: "nat \<Rightarrow> nat"
    and known :: "string \<Rightarrow> bool" and pending :: "(string \<Rightarrow> redis_val option) \<Rightarrow> nat \<Rightarrow> string set"
  assumes scan_frame: "scan c pat n r = (x10, r') \<Longrightarrow> clock r' = clock r \<and> (\<forall>t\<ge>clock r. view r' t = view r t)"
    and scan_ends: "scan c pat n r = (Inr (ks, c'), r') \<Longrightarrow> 0 < n \<Longrightarrow> c' \<noteq> 0 \<Longrightarrow> remaining c' < remaining c"
    and scan_all: "known k \<Longrightarrow> V k \<noteq> None \<Longrightarrow> k \<in> pending V 0"
    and scan_returns: "scan c pat n r = (Inr (ks, c'), r') \<Longrightarrow> 0 < n \<Longrightarrow> k \<in> pending (view r (clock r)) c \<Longrightarrow>
      k \<in> set ks \<or> c' \<noteq> 0 \<and> k \<in> pending (view r (clock r)) c'"
begin

text \<open>The counts so far are those of keys of the fleet, which include every key seen, unless a read of it failed.\<close>

definition counted :: "string \<Rightarrow> 'a \<Rightarrow> string set \<Rightarrow> live_counts \<Rightarrow> 'a \<Rightarrow> bool" where
  "counted fleetID r0 seen c r \<longleftrightarrow> clock r = clock r0 \<and> view r (clock r0) = view r0 (clock r0) \<and>
     (\<exists>ks. c = counts_of (view r0 (clock r0)) ks \<and>
        (\<forall>k\<in>set ks. key_field (view r0 (clock r0)) ''fleet_id'' k = Some fleetID) \<and>
        (\<forall>k\<in>seen. key_field (view r0 (clock r0)) ''fleet_id'' k = Some fleetID \<longrightarrow> k \<in> set ks \<or> unreadable rc k))"

lemma counted_start: "counted fleetID r {} no_counts r"
  unfolding counted_def by (metis counts_of_Nil empty_iff list.set(1))

lemma count_key_counted:
  assumes "counted fleetID r0 seen c r" "count_key rc fleetID key (c, r) = (c', r')"
  shows "counted fleetID r0 (insert key seen) c' r'"
proof -
  obtain res r1 where h: "cmd_HMGet rc key [''fleet_id'', ''is_moving'', ''engine_on''] r = (res, r1)" by fastforce
  have r': "r' = r1" using assms(2) h by (auto simp: count_key_def split: sum.splits if_splits)
  have fr: "clock r1 = clock r0" "view r1 (clock r0) = view r0 (clock r0)"
    using hmget_frame [OF h] assms(1) by (auto simp: counted_def)
  let ?mine = "\<lambda>k. key_field (view r0 (clock r0)) ''fleet_id'' k = Some fleetID"
  obtain ks where ks: "c = counts_of (view r0 (clock r0)) ks" "\<forall>k\<in>set ks. ?mine k"
      "\<forall>k\<in>seen. ?mine k \<longrightarrow> k \<in> set ks \<or> unreadable rc k"
    using assms(1) by (auto simp: counted_def)
  show ?thesis
  proof (cases res)
    case (Inl e)
    then have "unreadable rc key" "c' = c" using assms(2) h by (auto simp: count_key_def unreadable_def)
    then show ?thesis unfolding counted_def r' using fr ks by (intro conjI exI [of _ ks]) auto
  next
    case (Inr vals)
    have vals: "vals = map (\<lambda>f. key_field (view r0 (clock r0)) f key) [''fleet_id'', ''is_moving'', ''engine_on'']"
      using hmget_values [OF h [unfolded Inr]] assms(1) by (simp add: counted_def key_field_def)
    show ?thesis
    proof (cases "?mine key")
      case True
      then have "c' = counts_of (view r0 (clock r0)) (ks @ [key])"
        using assms(2) h Inr vals ks(1) by (simp add: count_key_def counts_of_snoc)
      then show ?thesis unfolding counted_def r' using fr ks(2,3) True by (intro conjI exI [of _ "ks @ [key]"]) auto
    next
      case False
      then have "c' = c" using assms(2) h Inr vals by (simp add: count_key_def split: if_splits)
      then show ?thesis unfolding counted_def r' using fr ks False by (intro conjI exI [of _ ks]) auto
    qed
  qed
qed

lemma fold_count_key_counted:
  "counted fleetID r0 seen c r \<Longrightarrow> fold (count_key rc fleetID) keys (c, r) = (c', r') \<Longrightarrow>
     counted fleetID r0 (seen \<union> set keys) c' r'"
proof (induction keys arbitrary: seen c r)
  case (Cons k keys)
  obtain c1 r1 where k: "count_key rc fleetID k (c, r) = (c1, r1)" by fastforce
  from count_key_counted [OF Cons.prems(1) k] show ?case using Cons.IH Cons.prems(2) k by fastforce
qed simp

lemma counted_mono: "counted fleetID r0 seen c r \<Longrightarrow> seen' \<subseteq> seen \<Longrightarrow> counted fleetID r0 seen' c r"
  unfolding counted_def by blast

lemma scan_loop_ends:
  "counted fleetID r0 seen c r \<Longrightarrow>
     \<exists>res r'. scan_loop rc scan fleetID cursor c r = Some (res, r') \<and>
       (case res of Inl e \<Rightarrow> True
        | Inr c' \<Rightarrow> counted fleetID r0 (seen \<union> pending (view r0 (clock r0)) cursor) c' r')"
proof (induction "remaining cursor" arbitrary: cursor seen c r rule: less_induct)
  case less
  let ?V = "view r0 (clock r0)"
  obtain x r1 where s: "scan cursor ''vehicle:*:state'' 100 r = (x, r1)" by fastforce
  show ?case
  proof (cases x)
    case (Inl e)
    then show ?thesis using s by (subst scan_loop.simps) simp
  next
    case (Inr kc)
    then obtain keys cursor' where kc: "x = Inr (keys, cursor')" by (cases kc) auto
    obtain c' r2 where f: "fold (count_key rc fleetID) keys (c, r1) = (c', r2)" by fastforce
    have "view r (clock r) = ?V" using less.prems by (auto simp: counted_def)
    then have ret: "pending ?V cursor \<subseteq> set keys \<union> (if cursor' = 0 then {} else pending ?V cursor')"
      using scan_returns [OF s [unfolded kc]] by auto
    have "counted fleetID r0 seen c r1" using less.prems scan_frame [OF s] by (auto simp: counted_def)
    then have c': "counted fleetID r0 (seen \<union> set keys) c' r2" using f by (rule fold_count_key_counted)
    show ?thesis
    proof (cases "cursor' = 0")
      case True
      then have "seen \<union> pending ?V cursor \<subseteq> seen \<union> set keys" using ret by auto
      with c' have "counted fleetID r0 (seen \<union> pending ?V cursor) c' r2" by (rule counted_mono)
      then show ?thesis using s kc f True by (subst scan_loop.simps) simp
    next
      case False
      have step: "scan_loop rc scan fleetID cursor c r = scan_loop rc scan fleetID cursor' c' r2"
        using s kc f False by (subst scan_loop.simps) simp
      have "remaining cursor' < remaining cursor" using scan_ends s [unfolded kc] False by simp
      from less.hyps [OF this c'] obtain res r' where
          go: "scan_loop rc scan fleetID cursor' c' r2 = Some (res, r')"
          "case res of Inl e \<Rightarrow> True | Inr c' \<Rightarrow> counted fleetID r0 (seen \<union> set keys \<union> pending ?V cursor') c' r'" by blast
      have sub: "seen \<union> pending ?V cursor \<subseteq> seen \<union> set keys \<union> pending ?V cursor'" using ret False by auto
      have "case res of Inl e \<Rightarrow> True | Inr c' \<Rightarrow> counted fleetID r0 (seen \<union> pending ?V cursor) c' r'"
      proof (cases res)
        case (Inr c'')
        then show ?thesis using go(2) counted_mono [OF _ sub] by simp
      qed simp
      with go(1) show ?thesis unfolding step by blast
    qed
  qed
qed

lemma HandleSummary_ends:
  assumes "fleetID = (if hr_path rq ''fleet_id'' = [] then hr_query rq ''fleet_id'' else hr_path rq ''fleet_id'')" "fleetID \<noteq> []"
  shows "\<exists>resp p' r'. HandleSummary rc scan ctx rq (p, r) = Some (resp, p', r') \<and> pg_db p' = pg_db p \<and>
    (resp_status resp = StatusInternalServerError \<or>
     (\<exists>ks. (\<forall>k\<in>set ks. key_field (view r (clock r)) ''fleet_id'' k = Some fleetID) \<and>
        (\<forall>k. known k \<and> key_field (view r (clock r)) ''fleet_id'' k = Some fleetID \<longrightarrow> k \<in> set ks \<or> unreadable rc k) \<and>
        resp = writeJSON StatusOK (summary_json (summary_of (view r (clock r)) (pg_db p) fleetID ks))))"
proof -
  obtain q1 p1 where 1: "pg_query (\<lambda>now d. registered_count fleetID d) p = (q1, p1)" by fastforce
  obtain q2 p2 where 2: "pg_query (\<lambda>now d. open_alert_count fleetID d) p1 = (q2, p2)" by fastforce
  obtain q3 p3 where 3: "pg_query (\<lambda>now d. trips_in_progress_count fleetID d) p2 = (q3, p3)" by fastforce
  obtain res r1 where s: "countLiveStates rc scan fleetID r = Some (res, r1)"
      "case res of Inl e \<Rightarrow> True | Inr c \<Rightarrow> counted fleetID r ({} \<union> pending (view r (clock r)) 0) c r1"
    unfolding countLiveStates_def using scan_loop_ends [OF counted_start] by blast
  note db = pg_query_read [OF 1] pg_query_read [OF 2] pg_query_read [OF 3]
  consider (early) "(\<exists>e. q1 = Inl e) \<or> (\<exists>e. res = Inl e) \<or> (\<exists>e. q2 = Inl e) \<or> (\<exists>e. q3 = Inl e)"
    | (ok) n c a t where "q1 = Inr n" "res = Inr c" "q2 = Inr a" "q3 = Inr t"
    by (metis sum.exhaust)
  then show ?thesis
  proof cases
    case early
    then have "\<exists>resp p' r'. HandleSummary rc scan ctx rq (p, r) = Some (resp, p', r') \<and> pg_db p' = pg_db p \<and>
        resp_status resp = StatusInternalServerError"
      using assms 1 2 3 s(1) db(1,5,9) by (cases q1; cases res; cases q2; cases q3) (simp_all add: HandleSummary_def)
    then show ?thesis by blast
  next
    case ok
    obtain ks where ks: "c = counts_of (view r (clock r)) ks"
        "\<forall>k\<in>set ks. key_field (view r (clock r)) ''fleet_id'' k = Some fleetID"
        "\<forall>k\<in>pending (view r (clock r)) 0. key_field (view r (clock r)) ''fleet_id'' k = Some fleetID \<longrightarrow> k \<in> set ks \<or> unreadable rc k"
      using s(2) ok by (auto simp: counted_def)
    have "\<forall>k. known k \<and> key_field (view r (clock r)) ''fleet_id'' k = Some fleetID \<longrightarrow> k \<in> set ks \<or> unreadable rc k"
      using ks(3) scan_all by (metis key_field_def hash_of.simps(3) map_of.simps(1) option.distinct(1))
    note all = this
    have "HandleSummary rc scan ctx rq (p, r) = Some (writeJSON StatusOK (summary_json
          \<lparr>as_FleetID = fleetID, as_TotalVehicles = n, as_LiveVehicles = lc_total c, as_ActiveMoving = lc_moving c,
            as_Idle = lc_idle c, as_Parked = lc_parked c, as_Offline = max 0 (n - lc_total c),
            as_OpenAlerts = a, as_TripsInProgress = t\<rparr>), p3, r1)"
      using assms 1 2 3 s(1) ok by (auto simp: HandleSummary_def max_def)
    then show ?thesis using ks(1,2) all db ok by (auto simp: summary_of_def Let_def)
  qed
qed

end

text \<open>A reference \<open>SCAN\<close> of the reference server: the cursor is a position in a list of keys, of which those present now
  are returned. The pattern of the sources selects the keys of vehicle states.\<close>

definition mem_scan :: "string list \<Rightarrow> mem_redis scan_cmd" where
  "mem_scan allKeys cursor pat n =
     mem_faulty (Inl conn_err)
       (\<lambda>r. (Inr (filter (\<lambda>k. mem_now r k \<noteq> None) (take n (drop cursor allKeys)),
                  if length allKeys \<le> cursor + n then 0 else cursor + n), r))"

interpretation mem_scan: redis_scan "mem_client ft" mem_view mr_now mr_pub "mem_scan ks"
    "\<lambda>c. if c = 0 then length ks + 1 else length ks - c" "\<lambda>k. k \<in> set ks" "\<lambda>V c. {k \<in> set (drop c ks). V k \<noteq> None}" for ft ks
proof (unfold_locales, goal_cases)
  case (1 c pat n r x r')
  then show ?case unfolding mem_scan_def by (cases rule: mem_faultyE) auto
next
  case (2 c pat n r keys c' r')
  then show ?case unfolding mem_scan_def by (cases rule: mem_faultyE) (auto split: if_splits)
next
  case (3 k V)
  then show ?case by simp
next
  case (4 c pat n r keys c' r' k)
  have "set (drop c ks) \<subseteq> set (take n (drop c ks)) \<union> set (drop (c + n) ks)"
    by (metis append_take_drop_id drop_drop add.commute set_append subset_refl)
  with 4(3) have k: "k \<in> set (take n (drop c ks)) \<or> k \<in> set (drop (c + n) ks)" "mem_view r (mr_now r) k \<noteq> None" by auto
  from 4(1) 4(2) k show ?case unfolding mem_scan_def by (cases rule: mem_faultyE) (auto simp: mem_now_def split: if_splits)
qed

section \<open>Properties\<close>


definition parked_redis :: mem_redis where
  "parked_redis = (mem_empty 0 [])\<lparr>mr_keys :=
     [''vehicle:V:state'' \<mapsto> (RHash [(''fleet_id'', ''F''), (''is_moving'', ''0''), (''engine_on'', ''0'')], None)]\<rparr>"


text \<open>A key that \<open>SCAN\<close> returns twice is counted twice: one parked vehicle, two reported.\<close>

lemma repeated_key_counted_twice:
  "countLiveStates idle_client (mem_scan [''vehicle:V:state'', ''vehicle:V:state'']) ''F'' parked_redis =
     Some (Inr \<lparr>lc_moving = 0, lc_idle = 0, lc_parked = 2, lc_total = 2\<rparr>, parked_redis)"
  unfolding countLiveStates_def
  by (subst scan_loop.simps)
     (simp add: mem_scan_def count_key_def count_state_def no_counts_def parked_redis_def mem_empty_def mem_faulty_def
      mem_now_def mem_view_def mem_HMGet_def parseBool_def)

end
