(* ===== verification/Serving_Main.thy ===== *)
theory Serving_Main
  imports Serving_Analytics Config
begin

text \<open>
  The serving process (\<open>src/serving/main.go\<close>): start-up from the configuration, the routes with their
  guards, the health report (\<open>internal/handler/health.go\<close>) and the two handlers of \<open>main.go\<close>. A request that
  reaches the mux is its method and the segments of its cleaned path; the patterns do not overlap, so the
  one that matches is the one \<open>net/http\<close> selects. A handler behind the mux runs with the authenticator, the
  database and Redis as its world.
\<close>

section \<open>Stores and start-up\<close>

definition srv_NewRedisStore :: "'r redis_client \<Rightarrow> 'r \<Rightarrow> (string + unit) \<times> 'r" where
  "srv_NewRedisStore rc r =
     (case cmd_Ping rc r of
        (Some e, r') \<Rightarrow> (Inl (''failed to connect to redis: '' @ err_text e), r')
      | (None, r') \<Rightarrow> (Inr (), r'))"

text \<open>\<open>pgxpool.New\<close> and \<open>Ping\<close> are parameters: the error of the first for a connection string, of the second for the server.\<close>

definition srv_NewTimescaleStore ::
  "(string \<Rightarrow> string option) \<Rightarrow> (pg \<Rightarrow> string option \<times> pg) \<Rightarrow> ServingConfig \<Rightarrow> pg \<Rightarrow> (string + unit) \<times> pg" where
  "srv_NewTimescaleStore newPool ping cfg p =
     (case newPool (connStr (sc_DBUser cfg) (sc_DBPassword cfg) (sc_DBHost cfg) (sc_DBPort cfg) (sc_DBName cfg) (sc_DBMaxConns cfg)) of
        Some e \<Rightarrow> (Inl (''failed to create db pool: '' @ e), p)
      | None \<Rightarrow>
          (case ping p of
             (Some e, p') \<Rightarrow> (Inl (''failed to ping db: '' @ e), p')
           | (None, p') \<Rightarrow> (Inr (), p')))"

text \<open>What the process runs with: the authenticator, the empty hub and the four jobs.\<close>

record serving_process =
  sp_authenticator :: Authenticator
  sp_hub :: hub
  sp_heartbeat :: HeartbeatMonitor
  sp_deviation :: DeviationDetector
  sp_stops :: StopDetector
  sp_eta :: ETAEstimator
  sp_addr :: string

definition serving_start ::
  "environment \<Rightarrow> (string \<Rightarrow> string option) \<Rightarrow> (pg \<Rightarrow> string option \<times> pg) \<Rightarrow> 'r redis_client \<Rightarrow> pg \<times> 'r \<Rightarrow>
   (string + serving_process) \<times> pg \<times> 'r" where
  "serving_start env newPool ping rc w =
     (let cfg = serving_Load env in
      case srv_NewTimescaleStore newPool ping cfg (fst w) of
        (Inl err, p1) \<Rightarrow> (Inl (''TimescaleDB: '' @ err), p1, snd w)
      | (Inr u, p1) \<Rightarrow>
          (case srv_NewRedisStore rc (snd w) of
             (Inl err, r1) \<Rightarrow> (Inl (''Redis: '' @ err), p1, r1)
           | (Inr u', r1) \<Rightarrow>
               (Inr \<lparr>sp_authenticator = srv_NewAuthenticator
                      \<lparr>sac_ValidAPIKeys = sc_ValidAPIKeys cfg, sac_CacheTTLSeconds = sc_AuthCacheTTLSeconds cfg\<rparr>,
                     sp_hub = NewHub,
                     sp_heartbeat = NewHeartbeatMonitor (sc_HeartbeatIntervalSeconds cfg) (sc_StalenessThresholdSeconds cfg),
                     sp_deviation = NewDeviationDetector (sc_DeviationDetectorIntervalSeconds cfg),
                     sp_stops = NewStopDetector (sc_StopDetectorIntervalSeconds cfg),
                     sp_eta = NewETAEstimator (sc_StopDetectorIntervalSeconds cfg),
                     sp_addr = '':'' @ sc_HTTPPort cfg\<rparr>, p1, r1)))"

section \<open>Handlers of main.go and health.go\<close>

definition srv_HealthHandle :: "(time \<Rightarrow> string) \<Rightarrow> time \<Rightarrow> string option \<Rightarrow> string option \<Rightarrow> response" where
  "srv_HealthHandle fmtTime now tsErr rdErr =
     (let dep = (\<lambda>e. case e of None \<Rightarrow> JStr ''healthy'' | Some msg \<Rightarrow> JStr (''unhealthy:'' @ msg));
          healthy = (tsErr = None \<and> rdErr = None)
      in json_response (if healthy then StatusOK else StatusServiceUnavailable)
           (JObj [(''status'', JStr (if healthy then ''healthy'' else ''degraded'')),
                  (''service'', JStr ''serving''), (''timestamp'', JStr (fmtTime now)),
                  (''dependencies'', JObj [(''timescaledb'', dep tsErr), (''redis'', dep rdErr)])]))"

definition whoamiHandler :: "'w srv_handler" where
  "whoamiHandler ctx rq w =
     (writeJSON StatusOK (JObj [(''api_key'', JStr (cx_APIKey ctx)), (''fleet_id'', JStr (cx_FleetID ctx)),
        (''key_source'', JStr (if cx_FleetID ctx = [] then ''static_config'' else ''redis'')),
        (''message'', JStr ''auth passed'')]), w)"

definition fleetPingHandler :: "'w srv_handler" where
  "fleetPingHandler ctx rq w =
     (writeJSON StatusOK (JObj [(''fleet_id'', JStr (hr_path rq ''fleet_id'')),
        (''message'', JStr ''fleet access authorised'')]), w)"

section \<open>Routes\<close>

datatype api_endpoint =
    Whoami | FleetPing | AnalyticsSummary
  | VehiclePanel | VehicleActiveTrip | VehicleAlerts
  | AttentionQueue | AlertDetail | AlertAcknowledge | AlertResolve | AlertUnacknowledge | FleetAlerts
  | TripList | TripDetail

datatype srv_route = HealthRoute | WsRoute | ApiRoute api_endpoint

datatype segment = Lit string | Wild string

definition serving_routes :: "(string \<times> segment list \<times> srv_route) list" where
  "serving_routes =
     [(''GET'', [Lit ''health''], HealthRoute),
      (''GET'', [Lit ''ws''], WsRoute),
      (''GET'', [Lit ''api'', Lit ''v1'', Lit ''whoami''], ApiRoute Whoami),
      (''GET'', [Lit ''api'', Lit ''v1'', Lit ''fleet'', Wild ''fleet_id'', Lit ''ping''], ApiRoute FleetPing),
      (''GET'', [Lit ''api'', Lit ''v1'', Lit ''analytics'', Lit ''summary''], ApiRoute AnalyticsSummary),
      (''GET'', [Lit ''api'', Lit ''v1'', Lit ''vehicles'', Wild ''vehicle_id'', Lit ''panel''], ApiRoute VehiclePanel),
      (''GET'', [Lit ''api'', Lit ''v1'', Lit ''vehicles'', Wild ''vehicle_id'', Lit ''active-trip''], ApiRoute VehicleActiveTrip),
      (''GET'', [Lit ''api'', Lit ''v1'', Lit ''vehicles'', Wild ''vehicle_id'', Lit ''alerts''], ApiRoute VehicleAlerts),
      (''GET'', [Lit ''api'', Lit ''v1'', Lit ''alerts''], ApiRoute AttentionQueue),
      (''GET'', [Lit ''api'', Lit ''v1'', Lit ''alerts'', Wild ''alert_id''], ApiRoute AlertDetail),
      (''POST'', [Lit ''api'', Lit ''v1'', Lit ''alerts'', Wild ''alert_id'', Lit ''acknowledge''], ApiRoute AlertAcknowledge),
      (''POST'', [Lit ''api'', Lit ''v1'', Lit ''alerts'', Wild ''alert_id'', Lit ''resolve''], ApiRoute AlertResolve),
      (''POST'', [Lit ''api'', Lit ''v1'', Lit ''alerts'', Wild ''alert_id'', Lit ''unacknowledge''], ApiRoute AlertUnacknowledge),
      (''GET'', [Lit ''api'', Lit ''v1'', Lit ''fleet'', Wild ''fleet_id'', Lit ''alerts''], ApiRoute FleetAlerts),
      (''GET'', [Lit ''api'', Lit ''v1'', Lit ''trips''], ApiRoute TripList),
      (''GET'', [Lit ''api'', Lit ''v1'', Lit ''trips'', Wild ''trip_id''], ApiRoute TripDetail)]"

text \<open>A wildcard matches one segment that is not empty; the result are the path values.\<close>

fun match_path :: "segment list \<Rightarrow> string list \<Rightarrow> (string \<times> string) list option" where
  "match_path [] [] = Some []"
| "match_path (Lit l # ps) (s # ss) = (if l = s then match_path ps ss else None)"
| "match_path (Wild x # ps) (s # ss) = (if s = [] then None else map_option (Cons (x, s)) (match_path ps ss))"
| "match_path _ _ = None"

text \<open>A \<open>GET\<close> pattern serves \<open>HEAD\<close> too.\<close>

definition method_ok :: "string \<Rightarrow> string \<Rightarrow> bool" where
  "method_ok pat meth \<longleftrightarrow> pat = meth \<or> pat = ''GET'' \<and> meth = ''HEAD''"

definition serving_mux :: "string \<Rightarrow> string list \<Rightarrow> nat + srv_route \<times> (string \<times> string) list" where
  "serving_mux meth path =
     (let hits = filter (\<lambda>(m, pat, route). match_path pat path \<noteq> None) serving_routes in
      case filter (\<lambda>(m, pat, route). method_ok m meth) hits of
        (m, pat, route) # rest \<Rightarrow> Inr (route, the (match_path pat path))
      | [] \<Rightarrow> Inl (if hits = [] then StatusNotFound else 405))"

text \<open>The guards and the handler of an endpoint.\<close>

definition api_handler ::
  "'r redis_client \<Rightarrow> 'r scan_cmd \<Rightarrow> srv_env \<Rightarrow> api_endpoint \<Rightarrow> (pg \<times> 'r) handler_func" where
  "api_handler rc scan env e =
     (case e of
        Whoami \<Rightarrow> returning whoamiHandler
      | FleetPing \<Rightarrow> FleetScoped ''fleet_id'' (returning fleetPingHandler)
      | AnalyticsSummary \<Rightarrow> FleetScoped ''fleet_id'' (HandleSummary rc scan)
      | VehiclePanel \<Rightarrow> returning (HandlePanel rc env)
      | VehicleActiveTrip \<Rightarrow> returning HandleActiveTrip
      | VehicleAlerts \<Rightarrow> returning (HandleVehicleAlerts env)
      | AttentionQueue \<Rightarrow> returning (HandleAttentionQueue rc env)
      | AlertDetail \<Rightarrow> returning (HandleAlertDetail rc env)
      | AlertAcknowledge \<Rightarrow> returning (HandleAcknowledge env)
      | AlertResolve \<Rightarrow> returning (HandleResolve env)
      | AlertUnacknowledge \<Rightarrow> returning HandleUnacknowledge
      | FleetAlerts \<Rightarrow> FleetScoped ''fleet_id'' (returning (HandleFleetAlertHistory env))
      | TripList \<Rightarrow> returning (HandleList env)
      | TripDetail \<Rightarrow> returning (HandleDetail rc env))"

definition fleet_of_key ::
  "'r redis_client \<Rightarrow> time \<Rightarrow> time \<Rightarrow> string \<Rightarrow> Authenticator \<times> pg \<times> 'r \<Rightarrow> (string \<times> bool) \<times> Authenticator \<times> pg \<times> 'r" where
  "fleet_of_key rc now now' k s = (case s of (a, p, r) \<Rightarrow>
     (case srv_FleetID rc now now' k (a, r) of (res, a', r') \<Rightarrow> (res, a', p, r')))"

definition on_stores :: "'w handler_func \<Rightarrow> ('a \<times> 'w) handler_func" where
  "on_stores h ctx rq s = (case s of (a, w) \<Rightarrow> map_option (\<lambda>(resp, w'). (resp, a, w')) (h ctx rq w))"

definition serve_api ::
  "'r redis_client \<Rightarrow> 'r scan_cmd \<Rightarrow> srv_env \<Rightarrow> time \<Rightarrow> time \<Rightarrow> api_endpoint \<Rightarrow> http_request \<Rightarrow>
   Authenticator \<times> pg \<times> 'r \<Rightarrow> (response \<times> Authenticator \<times> pg \<times> 'r) option" where
  "serve_api rc scan env now now' e rq s =
     Auth (fleet_of_key rc now now') (on_stores (api_handler rc scan env e)) rq s"

section \<open>Lemmas\<close>

lemma serve_api_refused:
  "srv_FleetID rc now now' (hr_apiKey rq) (a, r) = ((f, False), a', r') \<Longrightarrow> hr_apiKey rq \<noteq> [] \<Longrightarrow>
     serve_api rc scan env now now' e rq (a, p, r) = Some (writeError StatusUnauthorized ''invalid API key'', a', p, r')"
  by (simp add: serve_api_def Auth_def fleet_of_key_def)

lemma serve_api_accepted:
  "srv_FleetID rc now now' (hr_apiKey rq) (a, r) = ((f, True), a', r') \<Longrightarrow> hr_apiKey rq \<noteq> [] \<Longrightarrow>
     serve_api rc scan env now now' e rq (a, p, r) =
       map_option (\<lambda>(resp, w'). (resp, a', w'))
         (api_handler rc scan env e \<lparr>cx_APIKey = hr_apiKey rq, cx_FleetID = f\<rparr> rq (p, r'))"
  by (simp add: serve_api_def Auth_def fleet_of_key_def on_stores_def)

lemma serve_api_no_key:
  "hr_apiKey rq = [] \<Longrightarrow> serve_api rc scan env now now' e rq s =
     Some (writeError StatusUnauthorized ''missing X-API-Key header'', s)"
  by (simp add: serve_api_def Auth_def)

text \<open>Two patterns with different literals in one place, or of different lengths, match no common path.\<close>

fun disjoint_pats :: "segment list \<Rightarrow> segment list \<Rightarrow> bool" where
  "disjoint_pats [] [] = False"
| "disjoint_pats (Lit l # ps) (Lit k # qs) = (l \<noteq> k \<or> disjoint_pats ps qs)"
| "disjoint_pats (x # ps) (y # qs) = disjoint_pats ps qs"
| "disjoint_pats _ _ = True"

fun_cases match_path_ConsE: "match_path (p # ps) path = Some vs"
  and match_path_NilE: "match_path [] path = Some vs"

lemma disjoint_pats_match:
  "disjoint_pats ps qs \<Longrightarrow> match_path ps path = Some vs \<Longrightarrow> match_path qs path = Some us \<Longrightarrow> False"
  by (induction ps qs arbitrary: path vs us rule: disjoint_pats.induct)
    (auto elim!: match_path_ConsE match_path_NilE dest!: sym [of "Some y" for y] split: if_splits)

lemma sorted_wrt_filter_single:
  "sorted_wrt (\<lambda>x y. \<not> (P x \<and> P y)) xs \<Longrightarrow> length (filter P xs) \<le> 1"
  by (induction xs) (auto simp: filter_empty_conv)

text \<open>An accepted key is a static one, or one that the cache or Redis maps to the fleet.\<close>

definition key_maps_to :: "(string \<Rightarrow> redis_val option) \<Rightarrow> time \<Rightarrow> Authenticator \<Rightarrow> string \<Rightarrow> string \<Rightarrow> bool" where
  "key_maps_to V now a k f \<longleftrightarrow>
     (\<exists>e. au_localCache a k = Some e \<and> ce_fleetID e = f \<and> now < ce_expiresAt e) \<or> V (auth_key k) = Some (RStr f)"

context redis_server
begin

lemma srv_FleetID_accepted:
  assumes "srv_FleetID rc now now' k (a, r) = ((f, True), a', r')"
  shows "au_staticKeys a k \<or> key_maps_to (view r (clock r)) now a k f"
proof (cases "f = []")
  case True
  then show ?thesis
    using assms by (auto simp: srv_FleetID_def Let_def key_maps_to_def split: if_splits option.splits prod.splits sum.splits)
next
  case False
  from srv_authn.entitlement [OF assms this] show ?thesis by (simp add: key_maps_to_def)
qed

lemma srv_FleetID_named:
  assumes "srv_FleetID rc now now' k (a, r) = ((f, True), a', r')" "f \<noteq> []"
  shows "key_maps_to (view r (clock r)) now a k f"
  using srv_authn.entitlement [OF assms] by (simp add: key_maps_to_def)

end

text \<open>The handlers without a scope do not look at the key or at its fleet.\<close>

lemmas unscoped_handler_defs = HandlePanel_def HandleActiveTrip_def HandleVehicleAlerts_def HandleAttentionQueue_def
  HandleAlertDetail_def HandleAcknowledge_def HandleResolve_def HandleUnacknowledge_def HandleList_def HandleDetail_def

definition unscoped :: "api_endpoint \<Rightarrow> bool" where
  "unscoped e \<longleftrightarrow> e \<notin> {Whoami, FleetPing, AnalyticsSummary, FleetAlerts}"

lemma api_handler_unscoped:
  "unscoped e \<Longrightarrow> api_handler rc scan env e ctx (rq\<lparr>hr_apiKey := k\<rparr>) w = api_handler rc scan env e ctx' rq w"
  by (cases e) (simp_all add: unscoped_def api_handler_def unscoped_handler_defs cong: option.case_cong)

section \<open>Properties\<close>

text \<open>The routes are unambiguous: no path and method match two of the registered patterns, so the registration of the
  handlers does not panic and every request has at most one handler.\<close>

theorem routes_unambiguous:
  "length (filter (\<lambda>(m, pat, route). method_ok m meth \<and> match_path pat path \<noteq> None) serving_routes) \<le> 1"
proof -
  let ?P = "\<lambda>(m, pat, route). method_ok m meth \<and> match_path pat path \<noteq> None"
  have dis: "sorted_wrt (\<lambda>x y. disjoint_pats (fst (snd x)) (fst (snd y))) serving_routes"
    by (simp add: serving_routes_def)
  have "sorted_wrt (\<lambda>x y. \<not> (?P x \<and> ?P y)) serving_routes"
    using dis by (rule sorted_wrt_mono_rel [rotated]) (auto dest: disjoint_pats_match)
  from sorted_wrt_filter_single [OF this] show ?thesis .
qed

text \<open>C9. Who reaches an endpoint: for every Redis server, a request to an endpoint of the API is answered 401 and leaves the
  database as it is, or its key is a static one or is mapped to a fleet by the cache or by Redis. A fleet-scoped
  endpoint that answers anything but 400 or 403 to a request that names its fleet once is one whose key is
  mapped to that fleet.\<close>

theorem api_access:
  assumes "redis_server rc view clock published"
    and "serve_api rc scan env now now' e rq (a, p, r) = Some (resp, a', p', r')"
  shows "(resp_status resp = StatusUnauthorized \<and> p' = p) \<or>
    (hr_apiKey rq \<noteq> [] \<and>
     (au_staticKeys a (hr_apiKey rq) \<or> (\<exists>f. key_maps_to (view r (clock r)) now a (hr_apiKey rq) f)) \<and>
     (e \<in> {FleetPing, AnalyticsSummary, FleetAlerts} \<and> resp_status resp \<notin> {StatusBadRequest, StatusForbidden} \<and>
        (hr_query rq ''fleet_id'' = [] \<or> hr_path rq ''fleet_id'' = [] \<or> hr_query rq ''fleet_id'' = hr_path rq ''fleet_id'') \<longrightarrow>
        key_maps_to (view r (clock r)) now a (hr_apiKey rq)
          (if hr_path rq ''fleet_id'' = [] then hr_query rq ''fleet_id'' else hr_path rq ''fleet_id'')))"
proof (cases "hr_apiKey rq = []")
  case True
  then show ?thesis using assms(2) by (auto simp: serve_api_no_key)
next
  case key: False
  obtain f ok a1 r1 where F: "srv_FleetID rc now now' (hr_apiKey rq) (a, r) = ((f, ok), a1, r1)" by (metis surj_pair)
  show ?thesis
  proof (cases ok)
    case False
    then show ?thesis using assms(2) F key by (auto simp: serve_api_refused)
  next
    case True
    have acc: "srv_FleetID rc now now' (hr_apiKey rq) (a, r) = ((f, True), a1, r1)" using F True by simp
    note who = redis_server.srv_FleetID_accepted [OF assms(1) acc]
    let ?served = "if hr_path rq ''fleet_id'' = [] then hr_query rq ''fleet_id'' else hr_path rq ''fleet_id''"
    have scope: "f = requestedFleet ''fleet_id'' rq \<and> f \<noteq> []"
      if "e \<in> {FleetPing, AnalyticsSummary, FleetAlerts}" "resp_status resp \<notin> {StatusBadRequest, StatusForbidden}"
      using that assms(2) serve_api_accepted [OF acc key]
      by (auto simp: api_handler_def FleetScoped_def split: if_splits)
    have once: "requestedFleet ''fleet_id'' rq = ?served"
      if "hr_query rq ''fleet_id'' = [] \<or> hr_path rq ''fleet_id'' = [] \<or> hr_query rq ''fleet_id'' = hr_path rq ''fleet_id''"
      using that by (auto simp: requestedFleet_def)
    show ?thesis
    proof (rule disjI2, intro conjI impI)
      show "au_staticKeys a (hr_apiKey rq) \<or> (\<exists>f. key_maps_to (view r (clock r)) now a (hr_apiKey rq) f)" using who by blast
      assume "e \<in> {FleetPing, AnalyticsSummary, FleetAlerts} \<and> resp_status resp \<notin> {StatusBadRequest, StatusForbidden} \<and>
        (hr_query rq ''fleet_id'' = [] \<or> hr_path rq ''fleet_id'' = [] \<or> hr_query rq ''fleet_id'' = hr_path rq ''fleet_id'')"
      then have "f = ?served" "f \<noteq> []" using scope once by auto
      then show "key_maps_to (view r (clock r)) now a (hr_apiKey rq) ?served"
        using redis_server.srv_FleetID_named [OF assms(1) acc] by simp
    qed (rule key)
  qed
qed

definition keyed_redis :: mem_redis where
  "keyed_redis = (mem_empty 0 [])\<lparr>mr_keys := [auth_key ''ka'' \<mapsto> (RStr ''fleet-a'', None), auth_key ''kb'' \<mapsto> (RStr ''fleet-b'', None)]\<rparr>"

definition fresh_auth :: Authenticator where
  "fresh_auth = srv_NewAuthenticator \<lparr>sac_ValidAPIKeys = [], sac_CacheTTLSeconds = 300\<rparr>"

definition cached :: "string \<Rightarrow> string \<Rightarrow> Authenticator" where
  "cached k f = fresh_auth\<lparr>au_localCache := [k \<mapsto> \<lparr>ce_fleetID = f, ce_expiresAt = 300 * Second\<rparr>]\<rparr>"

definition keyed :: "string \<Rightarrow> http_request \<Rightarrow> http_request" where
  "keyed k rq = rq\<lparr>hr_apiKey := k\<rparr>"

lemma keyed_lookup:
  "srv_FleetID idle_client 0 0 ''ka'' (fresh_auth, keyed_redis) = ((''fleet-a'', True), cached ''ka'' ''fleet-a'', keyed_redis)"
  "srv_FleetID idle_client 0 0 ''kb'' (fresh_auth, keyed_redis) = ((''fleet-b'', True), cached ''kb'' ''fleet-b'', keyed_redis)"
  by (simp_all add: srv_FleetID_def fresh_auth_def cached_def srv_NewAuthenticator_def static_key_map_def lookupRedis_def
      mem_Get_def keyed_redis_def mem_empty_def mem_faulty_def mem_now_def mem_view_def auth_key_def duration_of_def
      wrap64_def Second_def)

theorem api_access_witness:
  "\<exists>resp s. serve_api idle_client (mem_scan []) sample_env 0 0 FleetPing
       (keyed ''ka'' (plain_request [] [(''fleet_id'', ''fleet-a'')] None)) (fresh_auth, touring_pg, keyed_redis) = Some (resp, s) \<and>
     resp_status resp = 200 \<and> key_maps_to (mem_view keyed_redis 0) 0 fresh_auth ''ka'' ''fleet-a''"
proof -
  let ?rq = "keyed ''ka'' (plain_request [] [(''fleet_id'', ''fleet-a'')] None)"
  have "\<exists>resp. serve_api idle_client (mem_scan []) sample_env 0 0 FleetPing ?rq (fresh_auth, touring_pg, keyed_redis) =
      Some (resp, cached ''ka'' ''fleet-a'', touring_pg, keyed_redis) \<and> resp_status resp = 200"
    using serve_api_accepted [of idle_client 0 0 ?rq fresh_auth keyed_redis "''fleet-a''" "cached ''ka'' ''fleet-a''" keyed_redis] keyed_lookup(1)
    by (simp add: keyed_def plain_request_def api_handler_def FleetScoped_def requestedFleet_def map_get_def fleetPingHandler_def)
  then obtain resp where r: "serve_api idle_client (mem_scan []) sample_env 0 0 FleetPing ?rq (fresh_auth, touring_pg, keyed_redis) =
      Some (resp, cached ''ka'' ''fleet-a'', touring_pg, keyed_redis)" "resp_status resp = 200" by blast
  from api_access [OF mem.redis_server_axioms r(1)] r show ?thesis
    by (simp add: keyed_def plain_request_def map_get_def keyed_redis_def mem_empty_def)
qed

text \<open>C36. The scope check can be satisfied with another fleet: the check takes the fleet from the query before the path and the
  alert history takes it from the path only, so a key of one fleet that names its own fleet in the query reads
  the alert history of any other fleet.\<close>

theorem history_scope_bypassed:
  assumes "srv_FleetID rc now now' (hr_apiKey rq) (a, r) = ((mine, True), a', r')" "hr_apiKey rq \<noteq> []" "mine \<noteq> []"
    and "hr_query rq ''fleet_id'' = mine" "hr_path rq ''fleet_id'' = other" "other \<noteq> []" "pg_plan p = []"
    and "parsePagination (hr_query rq ''page'') (hr_query rq ''limit'') = (page, limit)" "page \<le> 2 ^ 63 div 100"
  shows "\<exists>views. serve_api rc scan env now now' FleetAlerts rq (a, p, r) =
      Some (writeJSON StatusOK (JObj [(''fleet_id'', JStr other), (''alerts'', JArr (map (history_json env) views)),
              (''pagination'', pagination_json (NewPagination page limit
                 (int (length (filter (history_where env other (hr_query rq)) (vehicle_alerts (pg_db p)))))))]), a', p, r') \<and>
    map av_row views = takeWhile (\<lambda>x. al_triggered_value x \<noteq> None)
      (take (nat limit) (drop (nat ((page - 1) * limit))
         (newest_first (filter (history_where env other (hr_query rq)) (vehicle_alerts (pg_db p))))))"
proof -
  have b: "1 \<le> page" "1 \<le> limit" "limit \<le> 100" using parsePagination_bounds [OF assms(8)] by auto
  then have off: "page_offset page limit = (page - 1) * limit" using assms(9) by (intro page_offset_exact) auto
  have nn: "0 \<le> (page - 1) * limit" using b by simp
  show ?thesis
    using assms(3-8) off nn
    by (intro exI [of _ "scan_until (scan_alert (pg_db p)) (take (nat limit) (drop (nat ((page - 1) * limit))
         (newest_first (filter (history_where env other (hr_query rq)) (vehicle_alerts (pg_db p))))))"])
       (simp add: serve_api_accepted [OF assms(1,2)] api_handler_def FleetScoped_def requestedFleet_def
          HandleFleetAlertHistory_def count_alerts_up page_alerts_up scan_rows Let_def)
qed

theorem history_scope_bypassed_witness:
  "\<exists>views. serve_api idle_client (mem_scan []) sample_env 0 0 FleetAlerts
       (keyed ''kb'' (plain_request [(''fleet_id'', ''fleet-b'')] [(''fleet_id'', ''fleet-a'')] None))
       (fresh_auth, alerts_pg [sample_alert 1 ''WARNING'' 0], keyed_redis) =
     Some (writeJSON StatusOK (JObj [(''fleet_id'', JStr ''fleet-a''), (''alerts'', JArr (map (history_json sample_env) views)),
        (''pagination'', pagination_json (NewPagination 1 50 1))]),
       cached ''kb'' ''fleet-b'', alerts_pg [sample_alert 1 ''WARNING'' 0], keyed_redis) \<and>
     map av_row views = [sample_alert 1 ''WARNING'' 0]"
proof -
  let ?rq = "keyed ''kb'' (plain_request [(''fleet_id'', ''fleet-b'')] [(''fleet_id'', ''fleet-a'')] None)"
  have pg: "parsePagination (hr_query ?rq ''page'') (hr_query ?rq ''limit'') = (1, 50)"
    by (simp add: keyed_def plain_request_def map_get_def parsePagination_def Atoi_def ParseInt_def)
  have w: "filter (history_where sample_env ''fleet-a'' (hr_query ?rq)) [sample_alert 1 ''WARNING'' 0] = [sample_alert 1 ''WARNING'' 0]"
    by (simp add: keyed_def plain_request_def map_get_def history_where_def time_bound_def sample_alert_def new_alert_def)
  have "srv_FleetID idle_client 0 0 (hr_apiKey ?rq) (fresh_auth, keyed_redis) = ((''fleet-b'', True), cached ''kb'' ''fleet-b'', keyed_redis)"
    using keyed_lookup(2) by (simp add: keyed_def)
  from history_scope_bypassed [OF this, where other = "''fleet-a''" and p = "alerts_pg [sample_alert 1 ''WARNING'' 0]"
      and page = 1 and limit = 50 and scan = "mem_scan []" and env = sample_env] pg w
  show ?thesis
    by (simp add: keyed_def plain_request_def map_get_def alerts_pg_def newest_first_def sample_alert_def new_alert_def)
qed

text \<open>C37. Ten endpoints are open to every fleet: the panel, trips and alerts of a vehicle, the attention queue, an alert and its
  workflow, and the trips answer two accepted keys alike, whatever the fleets of the keys.\<close>

theorem unscoped_endpoints_ignore_fleet:
  assumes "unscoped e" "k1 \<noteq> []" "k2 \<noteq> []"
    and "srv_FleetID rc now now' k1 (a, r) = ((f1, True), a1, r')" "srv_FleetID rc now now' k2 (a, r) = ((f2, True), a2, r')"
  shows "map_option (\<lambda>(resp, a', w). (resp, w)) (serve_api rc scan env now now' e (rq\<lparr>hr_apiKey := k1\<rparr>) (a, p, r)) =
    map_option (\<lambda>(resp, a', w). (resp, w)) (serve_api rc scan env now now' e (rq\<lparr>hr_apiKey := k2\<rparr>) (a, p, r))"
proof -
  let ?c = "\<lambda>k f. \<lparr>cx_APIKey = k, cx_FleetID = f\<rparr>"
  have same: "api_handler rc scan env e (?c k1 f1) (rq\<lparr>hr_apiKey := k1\<rparr>) (p, r') =
      api_handler rc scan env e (?c k2 f2) (rq\<lparr>hr_apiKey := k2\<rparr>) (p, r')"
    unfolding api_handler_unscoped [OF assms(1), where ctx' = "?c k2 f2"] ..
  have "serve_api rc scan env now now' e (rq\<lparr>hr_apiKey := k1\<rparr>) (a, p, r) =
      map_option (\<lambda>(resp, w'). (resp, a1, w')) (api_handler rc scan env e (?c k1 f1) (rq\<lparr>hr_apiKey := k1\<rparr>) (p, r'))"
    using serve_api_accepted [of rc now now' "rq\<lparr>hr_apiKey := k1\<rparr>"] assms(2,4) by simp
  moreover have "serve_api rc scan env now now' e (rq\<lparr>hr_apiKey := k2\<rparr>) (a, p, r) =
      map_option (\<lambda>(resp, w'). (resp, a2, w')) (api_handler rc scan env e (?c k2 f2) (rq\<lparr>hr_apiKey := k2\<rparr>) (p, r'))"
    using serve_api_accepted [of rc now now' "rq\<lparr>hr_apiKey := k2\<rparr>"] assms(3,5) by simp
  ultimately show ?thesis using same by (simp add: option.map_comp comp_def case_prod_unfold)
qed

theorem unscoped_endpoints_ignore_fleet_witness:
  "map_option (\<lambda>(resp, a', w). (resp, w)) (serve_api idle_client (mem_scan []) sample_env 0 0 AlertAcknowledge
      ((plain_request [] [(''alert_id'', ''1'')] (Some (JObj [(''operator'', JStr ''eve'')])))\<lparr>hr_apiKey := ''ka''\<rparr>)
      (fresh_auth, alerts_pg [sample_alert 1 ''WARNING'' 0], keyed_redis)) =
   map_option (\<lambda>(resp, a', w). (resp, w)) (serve_api idle_client (mem_scan []) sample_env 0 0 AlertAcknowledge
      ((plain_request [] [(''alert_id'', ''1'')] (Some (JObj [(''operator'', JStr ''eve'')])))\<lparr>hr_apiKey := ''kb''\<rparr>)
      (fresh_auth, alerts_pg [sample_alert 1 ''WARNING'' 0], keyed_redis))"
  by (rule unscoped_endpoints_ignore_fleet [OF _ _ _ keyed_lookup]) (simp_all add: unscoped_def)

end
