(* ===== verification/Serving_Frame.thy ===== *)
theory Serving_Frame
  imports Serving_Main
begin

text \<open>
  What the services may do to the database, under any failures. The interface is the locale \<open>table_contract\<close>: a reflexive
  and transitive relation between the tables before and after, lifted to the server, on which statements may fail. It is
  interpreted by equality (for what only reads), by what both services keep, by what everything but the stop detector keeps, by
  what the requests of the API and the other jobs keep, by what the stop detector keeps, and by the telemetry table alone. Every
  request of the API is shown to keep its contract here; the jobs follow in \<open>Serving_Programs\<close>.
\<close>

section \<open>How the tables may change\<close>

text \<open>An alert keeps all but its four columns of the workflow.\<close>

definition same_alert :: "alert_row \<Rightarrow> alert_row \<Rightarrow> bool" where
  "same_alert a b \<longleftrightarrow>
     b = a\<lparr>al_acknowledged_at := al_acknowledged_at b, al_acknowledged_by := al_acknowledged_by b,
           al_resolved_at := al_resolved_at b, al_resolved_by := al_resolved_by b\<rparr>"

definition alerts_grow :: "alert_row list \<Rightarrow> alert_row list \<Rightarrow> bool" where
  "alerts_grow as bs \<longleftrightarrow> (\<exists>old new. bs = old @ new \<and> list_all2 same_alert as old)"

text \<open>The statement that completes a trip does not ask for its status: of two last stops, the second completes it again.\<close>

definition trip_forward :: "trip_row \<Rightarrow> trip_row \<Rightarrow> bool" where
  "trip_forward t u \<longleftrightarrow> u = t \<or> tr_status t \<in> {TripInProgress, TripCompleted} \<and>
     (\<exists>now. u = t\<lparr>tr_status := TripCompleted, tr_completed_at := Some now\<rparr>)"

definition stop_forward :: "progress_row \<Rightarrow> progress_row \<Rightarrow> bool" where
  "stop_forward p q \<longleftrightarrow> pr_trip_id q = pr_trip_id p \<and> pr_stop_id q = pr_stop_id p \<and>
     stop_le (pr_status p) (pr_status q) \<and> (stop_stamped p \<longrightarrow> stop_stamped q)"

definition db_evolves :: "db \<Rightarrow> db \<Rightarrow> bool" where
  "db_evolves d d' \<longleftrightarrow>
     (\<exists>rows. vehicle_telemetry d' = vehicle_telemetry d @ rows) \<and>
     alerts_grow (vehicle_alerts d) (vehicle_alerts d') \<and>
     list_all2 trip_forward (trip d) (trip d') \<and>
     list_all2 stop_forward (trip_stop_progress d) (trip_stop_progress d') \<and>
     vehicle_registry d' = vehicle_registry d \<and> driver_registry d' = driver_registry d \<and>
     route_registry d' = route_registry d \<and> route_stops d' = route_stops d \<and> fleet_config d' = fleet_config d"

text \<open>The constraints of all tables.\<close>

definition db_typed :: "db \<Rightarrow> bool" where
  "db_typed d \<longleftrightarrow> workflow_inv d \<and> registry_wf d"

definition db_guarantee :: "db \<Rightarrow> db \<Rightarrow> bool" where
  "db_guarantee d d' \<longleftrightarrow> (db_typed d \<longrightarrow> db_typed d' \<and> db_evolves d d')"

definition same_telemetry :: "db \<Rightarrow> db \<Rightarrow> bool" where
  "same_telemetry d d' \<longleftrightarrow> vehicle_telemetry d' = vehicle_telemetry d"

definition same_trips :: "db \<Rightarrow> db \<Rightarrow> bool" where
  "same_trips d d' \<longleftrightarrow> trip d' = trip d \<and> trip_stop_progress d' = trip_stop_progress d"

text \<open>The stop detector leaves the telemetry alone, everything else the trips, and the rest of the serving service both.\<close>

definition stops_guarantee :: "db \<Rightarrow> db \<Rightarrow> bool" where
  "stops_guarantee d d' \<longleftrightarrow> db_guarantee d d' \<and> same_telemetry d d'"

definition others_guarantee :: "db \<Rightarrow> db \<Rightarrow> bool" where
  "others_guarantee d d' \<longleftrightarrow> db_guarantee d d' \<and> same_trips d d'"

definition alerts_guarantee :: "db \<Rightarrow> db \<Rightarrow> bool" where
  "alerts_guarantee d d' \<longleftrightarrow> db_guarantee d d' \<and> same_telemetry d d' \<and> same_trips d d'"

lemma guarantees_imp:
  "alerts_guarantee d d' \<Longrightarrow> stops_guarantee d d'" "alerts_guarantee d d' \<Longrightarrow> others_guarantee d d'"
  "alerts_guarantee d d' \<Longrightarrow> same_telemetry d d'"
  "stops_guarantee d d' \<Longrightarrow> db_guarantee d d'" "others_guarantee d d' \<Longrightarrow> db_guarantee d d'"
  by (simp_all add: alerts_guarantee_def stops_guarantee_def others_guarantee_def)

lemma same_alert_refl [simp]: "same_alert a a"
  by (simp add: same_alert_def)

lemma same_alert_trans: "same_alert a b \<Longrightarrow> same_alert b c \<Longrightarrow> same_alert a c"
  by (cases a; cases b; cases c) (simp add: same_alert_def)

lemma alerts_grow_refl [simp]: "alerts_grow as as"
  unfolding alerts_grow_def by (intro exI [of _ as] exI [of _ "[]"]) (simp add: list_all2_same)

lemma alerts_grow_trans:
  assumes "alerts_grow as bs" "alerts_grow bs cs"
  shows "alerts_grow as cs"
proof -
  obtain old new where bs: "bs = old @ new" "list_all2 same_alert as old" using assms(1) by (auto simp: alerts_grow_def)
  obtain old' new' where cs: "cs = old' @ new'" "list_all2 same_alert (old @ new) old'"
    using assms(2) bs by (auto simp: alerts_grow_def)
  then obtain us vs where o: "old' = us @ vs" "list_all2 same_alert old us" by (auto simp: list_all2_append1)
  have "list_all2 same_alert as us" by (rule list_all2_trans [OF same_alert_trans bs(2) o(2)])
  then show ?thesis unfolding alerts_grow_def cs(1) o(1) by (metis append.assoc)
qed

lemma trip_forward_trans: "trip_forward t u \<Longrightarrow> trip_forward u v \<Longrightarrow> trip_forward t v"
  by (auto simp: trip_forward_def TripInProgress_def TripCompleted_def)

lemma stop_forward_trans: "stop_forward p q \<Longrightarrow> stop_forward q r \<Longrightarrow> stop_forward p r"
  by (auto simp: stop_forward_def intro: stop_le_trans)

lemma forward_refl [simp]: "trip_forward t t" "stop_forward p p"
  by (simp_all add: trip_forward_def stop_forward_def)

lemma db_evolves_refl [simp]: "db_evolves d d"
  by (simp add: db_evolves_def list_all2_same)

lemma db_evolves_trans:
  assumes "db_evolves d e" "db_evolves e f"
  shows "db_evolves d f"
proof -
  have l: "list_all2 trip_forward (trip d) (trip e)" "list_all2 trip_forward (trip e) (trip f)"
    "list_all2 stop_forward (trip_stop_progress d) (trip_stop_progress e)"
    "list_all2 stop_forward (trip_stop_progress e) (trip_stop_progress f)"
    using assms by (simp_all add: db_evolves_def)
  have "list_all2 trip_forward (trip d) (trip f)" by (rule list_all2_trans [OF trip_forward_trans l(1,2)])
  moreover have "list_all2 stop_forward (trip_stop_progress d) (trip_stop_progress f)"
    by (rule list_all2_trans [OF stop_forward_trans l(3,4)])
  moreover have "alerts_grow (vehicle_alerts d) (vehicle_alerts f)"
    using assms alerts_grow_trans unfolding db_evolves_def by blast
  ultimately show ?thesis using assms by (auto simp: db_evolves_def)
qed

section \<open>The contract\<close>

definition obeys :: "(db \<Rightarrow> db \<Rightarrow> bool) \<Rightarrow> pg \<Rightarrow> pg \<Rightarrow> bool" where
  "obeys G p p' \<longleftrightarrow> G (pg_db p) (pg_db p') \<and> set (pg_plan p') \<subseteq> set (pg_plan p)"

locale table_contract =
  fixes G :: "db \<Rightarrow> db \<Rightarrow> bool"
  assumes G_refl: "G d d"
    and G_trans: "G d e \<Longrightarrow> G e f \<Longrightarrow> G d f"
begin

lemma keeps_refl: "obeys G p p"
  by (simp add: obeys_def G_refl)

lemma keeps_trans: "obeys G p q \<Longrightarrow> obeys G q s \<Longrightarrow> obeys G p s"
  using G_trans by (auto simp: obeys_def)

lemma keeps_run:
  assumes "G (pg_db p) (snd (stmt (pg_now p) (pg_db p)))" "pg_run c stmt p = (x, p')"
  shows "obeys G p p'"
proof -
  have "set (pg_plan p') \<subseteq> set (pg_plan p)"
    using assms(2) by (cases "pg_plan p") (auto simp: pg_run_def Let_def split: if_splits outcome.splits prod.splits)
  then show ?thesis using pg_run_db [OF assms(2)] assms(1) G_refl by (auto simp: obeys_def)
qed

lemma keeps_fold:
  assumes "\<And>x w. obeys G (pg_of w) (pg_of (f x w))"
  shows "obeys G (pg_of w) (pg_of (fold f xs w))"
proof (induction xs arbitrary: w)
  case (Cons x xs)
  then show ?case using keeps_trans [OF assms Cons.IH] by simp
qed (simp add: keeps_refl)

end

interpretation rd: table_contract "(=)"
  by unfold_locales auto

interpretation both: table_contract db_guarantee
  by unfold_locales (auto simp: db_guarantee_def intro: db_evolves_trans)

interpretation tel: table_contract same_telemetry
  by unfold_locales (auto simp: same_telemetry_def)

interpretation tri: table_contract same_trips
  by unfold_locales (auto simp: same_trips_def)

interpretation stp: table_contract stops_guarantee
  using both.G_trans by unfold_locales (auto simp: stops_guarantee_def both.G_refl tel.G_refl intro: tel.G_trans)

interpretation oth: table_contract others_guarantee
  using both.G_trans by unfold_locales (auto simp: others_guarantee_def both.G_refl tri.G_refl intro: tri.G_trans)

interpretation srv: table_contract alerts_guarantee
  using both.G_trans
  by unfold_locales (auto simp: alerts_guarantee_def both.G_refl tel.G_refl tri.G_refl intro: tel.G_trans tri.G_trans)

lemma obeys_mono: "obeys G p p' \<Longrightarrow> (\<And>d d'. G d d' \<Longrightarrow> H d d') \<Longrightarrow> obeys H p p'"
  by (simp add: obeys_def)

abbreviation reads :: "pg \<Rightarrow> pg \<Rightarrow> bool" where
  "reads \<equiv> obeys (=)"

text \<open>What only reads keeps every contract.\<close>

context table_contract
begin

lemma reads_keeps: "reads p p' \<Longrightarrow> obeys G p p'"
  by (auto simp: obeys_def G_refl)

end

section \<open>What only reads\<close>

named_theorems reading

lemma pg_query_reads [reading]: "pg_query f p = (x, p') \<Longrightarrow> reads p p'"
  unfolding pg_query_def by (rule rd.keeps_run) simp_all

lemma pg_query_row_reads [reading]: "pg_query_row f p = (x, p') \<Longrightarrow> reads p p'"
  by (auto simp: pg_query_row_def dest: pg_query_reads split: prod.splits sum.splits list.splits)

lemma page_alerts_reads [reading]: "page_alerts order P limit offset p = (x, p') \<Longrightarrow> reads p p'"
  unfolding page_alerts_def by (rule rd.keeps_run) simp_all

lemma count_alerts_reads [reading]: "count_alerts P p = (x, p') \<Longrightarrow> reads p p'"
  by (auto simp: count_alerts_def dest: pg_query_reads split: prod.splits sum.splits)

lemma enrichWithTrip_reads [reading]: "enrichWithTrip vid p = (x, p') \<Longrightarrow> reads p p'"
  by (auto simp: enrichWithTrip_def dest: pg_query_row_reads split: prod.splits sum.splits)

lemma enrich_reads [reading]: "enrich rc env v (p, r) = (x, p', r') \<Longrightarrow> reads p p'"
  by (auto simp: enrich_def dest: enrichWithTrip_reads split: prod.splits)

lemma enrich_all_reads [reading]: "enrich_all rc env vs (p, r) = (x, p', r') \<Longrightarrow> reads p p'"
proof (induction vs arbitrary: p r x)
  case (Cons v vs)
  obtain ea p1 r1 where e: "enrich rc env v (p, r) = (ea, p1, r1)" by (metis prod_cases3)
  then obtain eas where "enrich_all rc env vs (p1, r1) = (eas, p', r')" using Cons.prems by (auto split: prod.splits)
  then show ?case using Cons.IH enrich_reads [OF e] rd.keeps_trans by blast
qed (simp add: rd.keeps_refl)

lemma load_progress_reads [reading]: "load_progress env tid rid p = (x, p') \<Longrightarrow> reads p p'"
  by (auto simp: load_progress_def dest: pg_query_reads split: prod.splits sum.splits)

lemma panel_parts_read [reading]:
  "panel_identity vid p = (i, p') \<Longrightarrow> reads p p'" "panel_driver tid p = (dr, p') \<Longrightarrow> reads p p'"
  "panel_alerts vid p = (vs, p') \<Longrightarrow> reads p p'"
  by (auto simp: panel_identity_def panel_driver_def panel_alerts_def dest: reading split: prod.splits sum.splits)

lemma panel_trip_reads [reading]: "panel_trip rc env vid (p, r) = (x, p', r') \<Longrightarrow> reads p p'"
  by (auto simp: panel_trip_def Let_def dest!: reading split: prod.splits sum.splits intro: rd.keeps_trans)

lemma trip_detail_reads [reading]: "trip_detail rc env tid (p, r) = (x, p', r') \<Longrightarrow> reads p p'"
  by (auto simp: trip_detail_def Let_def dest!: reading split: prod.splits sum.splits intro: rd.keeps_trans)

text \<open>The reading endpoints.\<close>

lemma HandleAttentionQueue_reads: "HandleAttentionQueue rc env ctx rq (p, r) = (resp, p', r') \<Longrightarrow> reads p p'"
  by (auto simp: HandleAttentionQueue_def Let_def rd.keeps_refl dest!: reading
      split: prod.splits sum.splits if_splits intro: rd.keeps_trans)

lemma HandleFleetAlertHistory_reads: "HandleFleetAlertHistory env ctx rq (p, r) = (resp, p', r') \<Longrightarrow> reads p p'"
  by (auto simp: HandleFleetAlertHistory_def Let_def rd.keeps_refl dest!: reading
      split: prod.splits sum.splits if_splits intro: rd.keeps_trans)

lemma HandleVehicleAlerts_reads: "HandleVehicleAlerts env ctx rq (p, r) = (resp, p', r') \<Longrightarrow> reads p p'"
  by (auto simp: HandleVehicleAlerts_def Let_def rd.keeps_refl dest!: reading
      split: prod.splits sum.splits if_splits intro: rd.keeps_trans)

lemma HandleActiveTrip_reads: "HandleActiveTrip ctx rq (p, r) = (resp, p', r') \<Longrightarrow> reads p p'"
  by (auto simp: HandleActiveTrip_def Let_def rd.keeps_refl dest!: reading split: prod.splits sum.splits if_splits)

lemma HandlePanel_reads: "HandlePanel rc env ctx rq (p, r) = (resp, p', r') \<Longrightarrow> reads p p'"
  by (auto simp: HandlePanel_def Let_def rd.keeps_refl dest!: reading split: prod.splits if_splits intro: rd.keeps_trans)

lemma HandleDetail_reads: "HandleDetail rc env ctx rq (p, r) = (resp, p', r') \<Longrightarrow> reads p p'"
  by (auto simp: HandleDetail_def Let_def rd.keeps_refl dest!: reading split: prod.splits option.splits if_splits)

lemma HandleList_reads:
  assumes "HandleList env ctx rq (p, r) = (resp, p', r')"
  shows "reads p p'"
proof -
  let ?P = "trip_where env (hr_query rq)"
  obtain page limit where pl: "parsePagination (hr_query rq ''page'') (hr_query rq ''limit'') = (page, limit)" by fastforce
  obtain res p1 where q: "pg_query (\<lambda>now d. int (length (filter ?P (trips_with_vehicle d)))) p = (res, p1)" by fastforce
  obtain res' p2 where m: "pg_run False (\<lambda>now d. (case sql_page limit (page_offset page limit)
        (latest_departure_first (filter ?P (trips_with_vehicle d))) of
          Inl e \<Rightarrow> Inl e | Inr rows \<Rightarrow> Inr (map (list_row env d) rows), d)) p1 = (res', p2)" by fastforce
  have "reads p1 p2" by (rule rd.keeps_run [OF _ m]) simp
  moreover have "p' = p2" using assms pl q m by (cases res; cases res') (simp_all add: HandleList_def)
  ultimately show ?thesis using pg_query_reads [OF q] rd.keeps_trans by blast
qed

lemma HandleSummary_reads: "HandleSummary rc scan ctx rq (p, r) = Some (resp, p', r') \<Longrightarrow> reads p p'"
  by (auto simp: HandleSummary_def Let_def rd.keeps_refl dest!: reading
      split: prod.splits sum.splits option.splits if_splits intro: rd.keeps_trans)

lemma HandleAlertDetail_reads:
  assumes "HandleAlertDetail rc env ctx rq (p, r) = (resp, p', r')"
  shows "reads p p'"
  using assms
  by (auto simp: HandleAlertDetail_def Let_def rd.keeps_refl dest!: reading
      split: prod.splits sum.splits option.splits if_splits intro: rd.keeps_trans)

section \<open>Statements that write\<close>

text \<open>A database that evolves keeps the keys and the constraints of the registry tables.\<close>

lemma db_evolves_registry:
  assumes "db_evolves d d'" "registry_wf d"
  shows "registry_wf d'"
proof -
  have l: "list_all2 trip_forward (trip d) (trip d')" "list_all2 stop_forward (trip_stop_progress d) (trip_stop_progress d')"
    using assms(1) by (simp_all add: db_evolves_def)
  have "map tr_trip_id (trip d') = map tr_trip_id (trip d)"
    by (rule list_all2_map_eq [OF l(1)]) (auto simp: trip_forward_def)
  moreover have "map (\<lambda>p. (pr_trip_id p, pr_stop_id p)) (trip_stop_progress d') =
      map (\<lambda>p. (pr_trip_id p, pr_stop_id p)) (trip_stop_progress d)"
    by (rule list_all2_map_eq [OF l(2)]) (auto simp: stop_forward_def)
  moreover have "list_all (\<lambda>t. chk_trip_status (tr_status t)) (trip d')"
    by (rule list_all2_list_all [OF l(1), where P = "\<lambda>t. chk_trip_status (tr_status t)"])
      (use assms(2) in \<open>auto simp: registry_wf_def trip_forward_def chk_trip_status_def TripCompleted_def\<close>)
  moreover have "list_all (\<lambda>p. chk_stop_status (pr_status p)) (trip_stop_progress d')"
    by (rule list_all2_list_all [OF l(2), where P = "\<lambda>p. chk_stop_status (pr_status p)"])
      (use assms(2) in \<open>auto simp: registry_wf_def stop_forward_def stop_le_def chk_stop_status_def stop_names\<close>)
  ultimately show ?thesis using assms by (simp add: registry_wf_def db_evolves_def)
qed

lemma db_guaranteeI:
  "(db_typed d \<Longrightarrow> db_evolves d d') \<Longrightarrow> (db_typed d \<Longrightarrow> workflow_inv d') \<Longrightarrow> db_guarantee d d'"
  using db_evolves_registry unfolding db_guarantee_def db_typed_def by blast

lemma alerts_guaranteeI:
  assumes "d' = d\<lparr>vehicle_alerts := as, vehicle_alerts_id_seq := n\<rparr>" "db_evolves d d'" "db_typed d \<Longrightarrow> workflow_inv d'"
  shows "alerts_guarantee d d'"
  using db_guaranteeI [OF assms(2,3)] assms(1) by (simp add: alerts_guarantee_def same_telemetry_def same_trips_def)

text \<open>Statements on the alert table.\<close>

lemma alerts_only_evolves:
  "d' = d\<lparr>vehicle_alerts := as, vehicle_alerts_id_seq := n\<rparr> \<Longrightarrow> alerts_grow (vehicle_alerts d) as \<Longrightarrow> db_evolves d d'"
  by (simp add: db_evolves_def list_all2_same)

lemma update_alerts_evolves:
  assumes "\<And>a. same_alert a (f now a)"
  shows "db_evolves d (snd (update_alerts P f now d))"
proof (rule alerts_only_evolves)
  let ?as = "map (\<lambda>a. if P a then f now a else a) (vehicle_alerts d)"
  show "snd (update_alerts P f now d) = d\<lparr>vehicle_alerts := ?as, vehicle_alerts_id_seq := vehicle_alerts_id_seq d\<rparr>"
    by (simp add: update_alerts_def)
  have "list_all2 same_alert (vehicle_alerts d) ?as" using assms by (intro list_all2_map_left) auto
  then show "alerts_grow (vehicle_alerts d) ?as" unfolding alerts_grow_def by (metis append_Nil2)
qed

lemma insert_alert_evolves: "db_evolves d (snd (insert_alert_row dn vid fid ty sev v now d))"
proof -
  have "alerts_grow as (as @ new)" for as new
    unfolding alerts_grow_def by (intro exI [of _ as] exI [of _ new]) (simp add: list_all2_same)
  then show ?thesis
    by (simp add: insert_alert_row_def Let_def db_evolves_def list_all2_same)
qed

lemma insert_alert_workflow:
  "workflow_inv d \<Longrightarrow> insert_alert_row dn vid fid ty sev v now d = (x, d') \<Longrightarrow> workflow_inv d'"
  using insert_alert_row_wf [of d dn vid fid ty sev v now x d']
  by (auto simp: workflow_inv_def insert_alert_row_def Let_def list_all_iff stamps_ok_def new_alert_def split: if_splits)

lemma same_alert_stamps:
  "same_alert a (a\<lparr>al_acknowledged_at := x, al_acknowledged_by := y\<rparr>)" "same_alert a (a\<lparr>al_resolved_at := x, al_resolved_by := y\<rparr>)"
  by (simp_all add: same_alert_def)

text \<open>The statements that update alerts and the one that inserts the alert of a deviation.\<close>

lemma update_alerts_guarantee:
  assumes "\<And>a. same_alert a (f now a)" "workflow_inv d \<Longrightarrow> workflow_inv (snd (update_alerts P f now d))"
  shows "alerts_guarantee d (snd (update_alerts P f now d))"
proof (rule alerts_guaranteeI)
  show "snd (update_alerts P f now d) = d\<lparr>vehicle_alerts := map (\<lambda>a. if P a then f now a else a) (vehicle_alerts d),
      vehicle_alerts_id_seq := vehicle_alerts_id_seq d\<rparr>" by (simp add: update_alerts_def)
  show "db_evolves d (snd (update_alerts P f now d))" by (rule update_alerts_evolves) (rule assms(1))
qed (use assms(2) in \<open>simp add: db_typed_def\<close>)

lemma insert_alert_guarantee: "alerts_guarantee d (snd (insert_alert_row dn vid fid ty sev v now d))"
proof -
  obtain as n where "snd (insert_alert_row dn vid fid ty sev v now d) = d\<lparr>vehicle_alerts := as, vehicle_alerts_id_seq := n\<rparr>"
  proof (rule that)
    show "snd (insert_alert_row dn vid fid ty sev v now d) =
        d\<lparr>vehicle_alerts := vehicle_alerts (snd (insert_alert_row dn vid fid ty sev v now d)),
          vehicle_alerts_id_seq := vehicle_alerts_id_seq (snd (insert_alert_row dn vid fid ty sev v now d))\<rparr>"
      by (simp add: insert_alert_row_def Let_def)
  qed
  then show ?thesis
    by (rule alerts_guaranteeI)
      (use insert_alert_evolves insert_alert_workflow [OF _ prod.collapse [symmetric]] in \<open>auto simp: db_typed_def\<close>)
qed

lemma workflow_stmts_guarantee:
  "alerts_guarantee d (snd (acknowledge_stmt op i now d))" "alerts_guarantee d (snd (resolve_stmt op i now d))"
  "alerts_guarantee d (snd (unacknowledge_stmt i now d))" "alerts_guarantee d (snd (auto_resolve_stmt vid now d))"
  "alerts_guarantee d (snd (deviation_insert vid sev km now d))"
proof -
  note defs = acknowledge_stmt_def resolve_stmt_def unacknowledge_stmt_def auto_resolve_stmt_def
  note inv = workflow_stmts_inv [OF _ prod.collapse [symmetric], unfolded defs]
    auto_resolve_inv [OF _ prod.collapse [symmetric], unfolded defs]
  show "alerts_guarantee d (snd (acknowledge_stmt op i now d))" "alerts_guarantee d (snd (resolve_stmt op i now d))"
    "alerts_guarantee d (snd (unacknowledge_stmt i now d))" "alerts_guarantee d (snd (auto_resolve_stmt vid now d))"
    unfolding defs by (rule update_alerts_guarantee, rule same_alert_stamps, erule inv)+
  show "alerts_guarantee d (snd (deviation_insert vid sev km now d))"
    by (simp add: deviation_insert_def insert_alert_guarantee srv.G_refl split: option.splits)
qed

section \<open>Requests\<close>

abbreviation srv_keeps :: "pg \<Rightarrow> pg \<Rightarrow> bool" where
  "srv_keeps \<equiv> obeys alerts_guarantee"

lemma workflow_runs:
  "pg_run c (acknowledge_stmt op i) p = (x, p') \<Longrightarrow> srv_keeps p p'" "pg_run c (resolve_stmt op i) p = (x, p') \<Longrightarrow> srv_keeps p p'"
  "pg_run c (unacknowledge_stmt i) p = (x, p') \<Longrightarrow> srv_keeps p p'" "pg_run c (auto_resolve_stmt vid) p = (x, p') \<Longrightarrow> srv_keeps p p'"
  "pg_run c (deviation_insert vid sev km) p = (x, p') \<Longrightarrow> srv_keeps p p'"
  by (erule srv.keeps_run [rotated], rule workflow_stmts_guarantee)+

lemma workflow_requests_keep:
  "HandleAcknowledge env ctx rq (p, r) = (resp, p', r') \<Longrightarrow> srv_keeps p p'"
  "HandleResolve env ctx rq (p, r) = (resp, p', r') \<Longrightarrow> srv_keeps p p'"
  "HandleUnacknowledge ctx rq (p, r) = (resp, p', r') \<Longrightarrow> srv_keeps p p'"
  by (auto simp: HandleAcknowledge_def HandleResolve_def HandleUnacknowledge_def srv.keeps_refl dest: workflow_runs
      split: option.splits prod.splits sum.splits if_splits)

lemmas reading_endpoints = HandleAttentionQueue_reads HandleFleetAlertHistory_reads HandleVehicleAlerts_reads
  HandleActiveTrip_reads HandlePanel_reads HandleDetail_reads HandleList_reads HandleAlertDetail_reads

text \<open>Every endpoint of the API.\<close>

lemma api_handler_keeps:
  assumes "api_handler rc scan env e ctx rq (p, r) = Some (resp, p', r')"
  shows "srv_keeps p p'"
  using assms
  by (cases e)
    (auto simp: api_handler_def FleetScoped_def whoamiHandler_def fleetPingHandler_def Let_def srv.keeps_refl
      dest: reading_endpoints [THEN srv.reads_keeps] HandleSummary_reads [THEN srv.reads_keeps] workflow_requests_keep
      split: if_splits)

lemma serve_api_keeps:
  assumes "serve_api rc scan env now now' e rq (a, p, r) = Some (resp, a', p', r')"
  shows "srv_keeps p p'"
proof (cases "hr_apiKey rq = []")
  case True
  then show ?thesis using assms by (simp add: serve_api_no_key srv.keeps_refl)
next
  case False
  obtain f ok a1 r1 where k: "srv_FleetID rc now now' (hr_apiKey rq) (a, r) = ((f, ok), a1, r1)" by (metis prod.collapse)
  show ?thesis
  proof (cases ok)
    case True
    then show ?thesis
      using assms False k serve_api_accepted [of rc now now' rq a r f a1 r1 scan env e p] api_handler_keeps by fastforce
  next
    case No: False
    then show ?thesis
      using assms False k serve_api_refused [of rc now now' rq a r f a1 r1 scan env e p] by (simp add: srv.keeps_refl)
  qed
qed

end
