(* ===== verification/Store_Programs.thy ===== *)
theory Store_Programs
  imports Go_Prelude
begin

text \<open>
  Programs that work on a shared state one call at a time: what a goroutine does between two calls is its own, and between two
  calls others may act. A program is finished, or it makes a call, which changes the shared state and determines the rest. Run
  without interruption it is a function of the state; run among others it is judged by a rely and a guarantee: \<open>safe\<close>
  says that from a state on, if the others respect the rely \<open>R\<close>, every call of the program respects the guarantee \<open>G\<close> and
  the program ends in a state in \<open>Q\<close>. The rules of \<open>safe\<close> are proved in the locale \<open>interference\<close>, over a reflexive and
  transitive rely; \<open>always\<close> is the case of an arbitrary environment.
\<close>

section \<open>Programs\<close>

datatype (dead 'w) prog = Done | Call "'w \<Rightarrow> 'w \<times> 'w prog"

text \<open>A call with a result, a program after another, and a loop over a list.\<close>

definition call :: "('w \<Rightarrow> 'a \<times> 'w) \<Rightarrow> ('a \<Rightarrow> 'w prog) \<Rightarrow> 'w prog" where
  "call op k = Call (\<lambda>w. case op w of (x, w') \<Rightarrow> (w', k x))"

primrec seq :: "'w prog \<Rightarrow> 'w prog \<Rightarrow> 'w prog" where
  "seq Done q = q"
| "seq (Call f) q = Call (\<lambda>w. map_prod id (\<lambda>k. seq k q) (f w))"

fun each :: "('a \<Rightarrow> 'w prog) \<Rightarrow> 'a list \<Rightarrow> 'w prog" where
  "each body [] = Done"
| "each body (x # xs) = seq (body x) (each body xs)"

text \<open>The uninterrupted run.\<close>

primrec run :: "'w prog \<Rightarrow> 'w \<Rightarrow> 'w" where
  "run Done w = w"
| "run (Call f) w = (case map_prod id run (f w) of (w', g) \<Rightarrow> g w')"

lemma run_call [simp]: "run (call op k) w = (case op w of (x, w') \<Rightarrow> run (k x) w')"
  by (simp add: call_def split: prod.splits)

lemma run_seq [simp]: "run (seq k q) w = run q (run k w)"
proof (induction k arbitrary: w)
  case (Call f)
  obtain w' k where f: "f w = (w', k)" by fastforce
  have "run (seq k q) w' = run q (run k w')" by (rule Call.IH [OF rangeI, of _ w]) (simp add: f snds.simps)
  then show ?case using f by simp
qed simp

lemma run_each: "run (each body xs) w = fold (\<lambda>x. run (body x)) xs w"
  by (induction xs arbitrary: w) simp_all

section \<open>Rely and guarantee\<close>

inductive safe :: "('w \<Rightarrow> 'w \<Rightarrow> bool) \<Rightarrow> ('w \<Rightarrow> 'w \<Rightarrow> bool) \<Rightarrow> ('w \<Rightarrow> bool) \<Rightarrow> 'w \<Rightarrow> 'w prog \<Rightarrow> bool" for R G Q where
  safe_Done: "(\<And>v. R w v \<Longrightarrow> Q v) \<Longrightarrow> safe R G Q w Done"
| safe_Call: "(\<And>v. R w v \<Longrightarrow> G v (fst (f v)) \<and> safe R G Q (fst (f v)) (snd (f v))) \<Longrightarrow> safe R G Q w (Call f)"

inductive_cases safe_DoneE: "safe R G Q w Done"
inductive_cases safe_CallE: "safe R G Q w (Call f)"

text \<open>The rule for one call with a result.\<close>

lemma safe_call:
  assumes "\<And>v x v'. R w v \<Longrightarrow> op v = (x, v') \<Longrightarrow> G v v' \<and> safe R G Q v' (k x)"
  shows "safe R G Q w (call op k)"
  unfolding call_def
proof (rule safe_Call)
  fix v
  assume "R w v"
  moreover obtain x v' where "op v = (x, v')" by fastforce
  ultimately show "G v (fst (case op v of (x, w') \<Rightarrow> (w', k x))) \<and>
      safe R G Q (fst (case op v of (x, w') \<Rightarrow> (w', k x))) (snd (case op v of (x, w') \<Rightarrow> (w', k x)))"
    using assms by simp
qed

lemma safe_mono:
  assumes "safe R G Q w k" "\<And>v v'. G v v' \<Longrightarrow> H v v'" "\<And>v. Q v \<Longrightarrow> P v"
  shows "safe R H P w k"
  using assms(1) by (induction rule: safe.induct) (auto intro!: safe.intros assms(2,3))

locale interference =
  fixes R :: "'w \<Rightarrow> 'w \<Rightarrow> bool"
  assumes R_refl: "R w w"
    and R_trans: "R u v \<Longrightarrow> R v w \<Longrightarrow> R u w"
begin

text \<open>The others may act before the program does.\<close>

lemma safe_env:
  assumes "safe R G Q w k" "R w v"
  shows "safe R G Q v k"
  using assms(1)
proof cases
  case safe_Done
  then show ?thesis using assms(2) R_trans by (auto intro!: safe.intros)
next
  case (safe_Call f)
  then show ?thesis using assms(2) R_trans by (auto intro!: safe.intros)
qed

lemma safe_step:
  assumes "safe R G Q w (Call f)" "f w = (w', k)"
  shows "G w w' \<and> safe R G Q w' k"
  using assms R_refl by (auto elim!: safe_CallE dest!: spec [of _ w])

lemma safe_DoneI: "Q w \<Longrightarrow> (\<And>v v'. R v v' \<Longrightarrow> Q v \<Longrightarrow> Q v') \<Longrightarrow> safe R G Q w Done"
  by (auto intro: safe_Done)

lemma safe_seq:
  assumes "safe R G P w k" "\<And>v. P v \<Longrightarrow> safe R G Q v q"
  shows "safe R G Q w (seq k q)"
  using assms(1)
proof (induction rule: safe.induct)
  case (safe_Done w)
  then show ?case using assms(2) R_refl by simp
next
  case (safe_Call w f)
  then show ?case by (auto intro!: safe.safe_Call)
qed

text \<open>A loop with an invariant that speaks of the elements to come and that the others respect.\<close>

lemma safe_each:
  assumes "\<And>x xs v. I (x # xs) v \<Longrightarrow> safe R G (I xs) v (body x)"
    and "\<And>v v'. R v v' \<Longrightarrow> I [] v \<Longrightarrow> I [] v'"
    and "I xs w"
  shows "safe R G (I []) w (each body xs)"
  using assms(3)
proof (induction xs arbitrary: w)
  case Nil
  then show ?case using assms(2) by (auto intro: safe_DoneI)
next
  case (Cons x xs)
  then show ?case using safe_seq [OF assms(1)] by simp
qed

text \<open>Uninterrupted, the program keeps a transitive guarantee and reaches its goal.\<close>

lemma safe_run:
  assumes "safe R G Q w k" "\<And>v. G v v" "\<And>u v x. G u v \<Longrightarrow> G v x \<Longrightarrow> G u x"
  shows "G w (run k w) \<and> Q (run k w)"
  using assms(1)
proof (induction rule: safe.induct)
  case (safe_Done w)
  then show ?case using R_refl assms(2) by simp
next
  case (safe_Call w f)
  from safe_Call [OF R_refl] show ?case using assms(3) by (cases "f w") auto
qed

end

text \<open>Under an arbitrary environment.\<close>

interpretation anyone: interference "\<lambda>v w. True"
  by unfold_locales simp_all

definition always :: "('w \<Rightarrow> 'w \<Rightarrow> bool) \<Rightarrow> 'w prog \<Rightarrow> bool" where
  "always G k \<longleftrightarrow> (\<forall>w. safe (\<lambda>v w. True) G (\<lambda>v. True) w k)"

lemma always_Done [simp]: "always G Done"
  by (simp add: always_def safe_Done)

lemma always_call:
  assumes "\<And>v x v'. op v = (x, v') \<Longrightarrow> G v v'" "\<And>x. always G (k x)"
  shows "always G (call op k)"
  using assms unfolding always_def by (blast intro: safe_call)

lemma always_seq: "always G k \<Longrightarrow> always G q \<Longrightarrow> always G (seq k q)"
  unfolding always_def by (blast intro: anyone.safe_seq)

lemma always_each: "(\<And>x. always G (body x)) \<Longrightarrow> always G (each body xs)"
  by (induction xs) (simp_all add: always_seq)

lemma always_step: "always G (Call f) \<Longrightarrow> f w = (w', k) \<Longrightarrow> G w w' \<and> always G k"
  unfolding always_def by (metis anyone.safe_env anyone.safe_step)

lemma always_mono: "always G k \<Longrightarrow> (\<And>v v'. G v v' \<Longrightarrow> H v v') \<Longrightarrow> always H k"
  using safe_mono [where G = G and H = H and Q = "\<lambda>v. True" and P = "\<lambda>v. True"] unfolding always_def by simp

lemma always_run: "always G k \<Longrightarrow> (\<And>v. G v v) \<Longrightarrow> (\<And>u v x. G u v \<Longrightarrow> G v x \<Longrightarrow> G u x) \<Longrightarrow> G w (run k w)"
  unfolding always_def using anyone.safe_run [where G = G and Q = "\<lambda>v. True" and k = k and w = w] by simp

end
