(* ===== verification/Serving_Programs.thy ===== *)
theory Serving_Programs
  imports Serving_Frame Store_Programs
begin

text \<open>
  The four jobs of the serving service as programs of single calls (\<open>src/serving/internal/jobs\<close>): each statement, each Redis
  command and each broadcast is one call, between which the requests, the other jobs and the ingestion service act. Run without
  interruption, a program is the tick of \<open>Serving_Jobs\<close> or \<open>Serving_Stops\<close>. Interleaved, every call of the heartbeat monitor, of
  the deviation detector and of the estimator keeps the contract of the requests whatever the others do; the stop detector acts
  on a snapshot of its rows, so its calls keep their contract as long as nothing else writes trips and their progress.
\<close>

section \<open>The programs\<close>

definition on_redis :: "('r \<Rightarrow> 'a \<times> 'r) \<Rightarrow> 'r world \<Rightarrow> 'a \<times> 'r world" where
  "on_redis op w = (case op (jw_redis w) of (x, r) \<Rightarrow> (x, w\<lparr>jw_redis := r\<rparr>))"

definition on_pg :: "(pg \<Rightarrow> 'a \<times> pg) \<Rightarrow> 'r world \<Rightarrow> 'a \<times> 'r world" where
  "on_pg op w = (case op (jw_pg w) of (x, p) \<Rightarrow> (x, w\<lparr>jw_pg := p\<rparr>))"

definition on_hub :: "(hub \<Rightarrow> hub) \<Rightarrow> 'r world \<Rightarrow> unit \<times> 'r world" where
  "on_hub f w = ((), w\<lparr>jw_hub := f (jw_hub w)\<rparr>)"

text \<open>\<open>heartbeat_monitor.go\<close>.\<close>

definition setOffline_prog ::
  "'r redis_client \<Rightarrow> (time \<Rightarrow> string) \<Rightarrow> string \<Rightarrow> string \<Rightarrow> time \<Rightarrow> 'r world prog" where
  "setOffline_prog rc fmt vid fid lastSeen =
     call (on_redis (get_or_empty rc (online_key vid))) (\<lambda>current.
       if current = ''offline'' then Done
       else call (on_redis (cmd_Set rc (online_key vid) ''offline'' 0)) (\<lambda>e.
         call (on_hub (BroadcastOffline fmt fid \<lparr>vo_VehicleID = vid, vo_LastSeenAt = lastSeen\<rparr>)) (\<lambda>u. Done)))"

definition check_prog ::
  "'r redis_client \<Rightarrow> (time \<Rightarrow> string) \<Rightarrow> time \<Rightarrow> string \<Rightarrow> string \<Rightarrow> duration \<Rightarrow> 'r world prog" where
  "check_prog rc fmt now vid fid threshold =
     call (on_redis (cmd_HGet rc (''vehicle:'' @ vid @ '':state'') ''received_at'')) (\<lambda>x.
       case x of
         Inl RedisNil \<Rightarrow> setOffline_prog rc fmt vid fid zero_time
       | Inl (RedisErr e) \<Rightarrow> Done
       | Inr recvStr \<Rightarrow>
           (case ParseInt recvStr of
              None \<Rightarrow> Done
            | Some recvUnix \<Rightarrow>
                call (on_redis (get_or_empty rc (online_key vid))) (\<lambda>current.
                  if threshold < Sub now (time_Unix recvUnix)
                  then setOffline_prog rc fmt vid fid (time_Unix recvUnix)
                  else if current \<noteq> ''online''
                  then call (on_redis (cmd_Set rc (online_key vid) ''online'' 0)) (\<lambda>e.
                    call (on_hub (BroadcastOnline fid \<lparr>vn_VehicleID = vid\<rparr>)) (\<lambda>u. Done))
                  else Done)))"

definition heartbeat_prog ::
  "'r redis_client \<Rightarrow> (time \<Rightarrow> string) \<Rightarrow> (string \<Rightarrow> time) \<Rightarrow> HeartbeatMonitor \<Rightarrow> 'r world prog" where
  "heartbeat_prog rc fmt now h =
     call (on_pg loadFleetThresholds) (\<lambda>thresholds.
       call (on_pg (pg_query (\<lambda>t d. active_vehicles d))) (\<lambda>res.
         case res of
           Inl err \<Rightarrow> Done
         | Inr vs \<Rightarrow> each (\<lambda>(vid, fid). check_prog rc fmt (now vid) vid fid
             (case thresholds fid of None \<Rightarrow> hm_defaultThreshold h | Some t \<Rightarrow> t)) vs))"

text \<open>\<open>deviation_detector.go\<close>: the stops of the active trips are loaded one trip after another.\<close>

fun load_stops_prog ::
  "(string \<times> string \<times> string \<times> float64) list \<Rightarrow> activeTrip list \<Rightarrow> (activeTrip list \<Rightarrow> 'r world prog) \<Rightarrow> 'r world prog" where
  "load_stops_prog [] trips k = k trips"
| "load_stops_prog ((tid, vid, fid, radius) # rows) trips k =
     call (on_pg (loadRouteStops tid)) (\<lambda>res.
       case res of
         Inl err \<Rightarrow> load_stops_prog rows trips k
       | Inr stops \<Rightarrow> load_stops_prog rows (trips @ [\<lparr>at_tripID = tid, at_vehicleID = vid, at_fleetID = fid,
           at_corridorRadiusKm = radius, at_stops = stops\<rparr>]) k)"

definition fireAlert_prog :: "'r redis_client \<Rightarrow> activeTrip \<Rightarrow> float64 \<Rightarrow> 'r world prog" where
  "fireAlert_prog rc t deviationKm =
     call (on_redis (cmd_SetNX rc (deviation_dedup_key (at_vehicleID t) (at_tripID t)) ''1'' (10 * Minute))) (\<lambda>x.
       case x of
         Inr True \<Rightarrow>
           call (on_pg (pg_run False (deviation_insert (at_vehicleID t)
             (if f64_less (f64_twice (at_corridorRadiusKm t)) deviationKm then ''CRITICAL'' else ''WARNING'') deviationKm))) (\<lambda>res. Done)
       | _ \<Rightarrow> Done)"

definition autoResolve_prog :: "'r redis_client \<Rightarrow> string \<Rightarrow> string \<Rightarrow> 'r world prog" where
  "autoResolve_prog rc vid tid =
     call (on_pg (pg_run False (auto_resolve_stmt vid))) (\<lambda>res.
       case res of
         Inl err \<Rightarrow> Done
       | Inr n \<Rightarrow> call (on_redis (cmd_Del rc (deviation_dedup_key vid tid))) (\<lambda>e. Done))"

definition checkTrip_prog :: "'r redis_client \<Rightarrow> (string \<Rightarrow> float64 option) \<Rightarrow> activeTrip \<Rightarrow> 'r world prog" where
  "checkTrip_prog rc parseF t =
     call (on_redis (live_position rc parseF (at_vehicleID t))) (\<lambda>pos.
       case pos of
         None \<Rightarrow> Done
       | Some (lat, lng) \<Rightarrow>
           (let minDist = minDistanceToRoute lat lng (at_stops t)
            in if f64_less (at_corridorRadiusKm t) minDist
               then call (on_redis (cmd_Set rc (deviation_key (at_vehicleID t)) ''true'' 0)) (\<lambda>e.
                 seq (fireAlert_prog rc t minDist)
                   (call (on_hub (BroadcastDeviation (at_fleetID t) \<lparr>vd_VehicleID = at_vehicleID t, vd_TripID = at_tripID t,
                      vd_DeviationKm = minDist\<rparr>)) (\<lambda>u. Done)))
               else call (on_redis (cmd_Set rc (deviation_key (at_vehicleID t)) ''false'' 0)) (\<lambda>e.
                 autoResolve_prog rc (at_vehicleID t) (at_tripID t))))"

definition deviation_prog :: "'r redis_client \<Rightarrow> (string \<Rightarrow> float64 option) \<Rightarrow> 'r world prog" where
  "deviation_prog rc parseF =
     call (on_pg (pg_query (\<lambda>now d. in_progress_routes d))) (\<lambda>res.
       case res of
         Inl err \<Rightarrow> Done
       | Inr rows \<Rightarrow> load_stops_prog rows [] (each (checkTrip_prog rc parseF)))"

text \<open>\<open>stop_detector.go\<close>.\<close>

definition markStop_prog :: "string \<Rightarrow> string \<Rightarrow> string \<Rightarrow> time option \<Rightarrow> time option \<Rightarrow> 'r world prog \<Rightarrow> 'r world prog" where
  "markStop_prog tid sid status arrivedAt departedAt k = call (\<lambda>w. ((), markStop tid sid status arrivedAt departedAt w)) (\<lambda>u. k)"

definition completeTrip_prog :: "string \<Rightarrow> 'r world prog" where
  "completeTrip_prog tid = call (\<lambda>w. ((), completeTrip tid w)) (\<lambda>u. Done)"

definition process_stop_prog ::
  "(time \<Rightarrow> string) \<Rightarrow> (string \<Rightarrow> time) \<Rightarrow> string \<Rightarrow> string \<Rightarrow> float64 \<Rightarrow> float64 \<Rightarrow> int \<Rightarrow> tripStopRow \<Rightarrow> 'r world prog" where
  "process_stop_prog fmt now vid fid lat lng maxSeq st =
     (let dist = haversineKm lat lng (ts_stopLat st) (ts_stopLng st); t = now (ts_stopID st) in
      if ts_status st = ''PENDING''
      then (if ts_stopSequence st < maxSeq
            then markStop_prog (ts_tripID st) (ts_stopID st) ''MISSED'' None None Done
            else if f64_le dist (ts_arrivalRadiusKm st)
            then markStop_prog (ts_tripID st) (ts_stopID st) ''ARRIVED'' (Some t) None
              (call (on_hub (BroadcastStopArrived fmt fid \<lparr>sa_VehicleID = vid, sa_TripID = ts_tripID st, sa_StopID = ts_stopID st,
                  sa_StopName = ts_stopName st, sa_ArrivedAt = t\<rparr>))
                (\<lambda>u. if ts_isFinalStop st then completeTrip_prog (ts_tripID st) else Done))
            else Done)
      else if ts_status st = ''ARRIVED''
      then (if f64_less (ts_arrivalRadiusKm st) dist
            then markStop_prog (ts_tripID st) (ts_stopID st) ''DEPARTED'' None (Some t) Done
            else Done)
      else Done)"

definition processTrip_prog ::
  "'r redis_client \<Rightarrow> (string \<Rightarrow> float64 option) \<Rightarrow> (time \<Rightarrow> string) \<Rightarrow> (string \<Rightarrow> time) \<Rightarrow> string \<Rightarrow> 'r world prog" where
  "processTrip_prog rc parseF fmt now tripID =
     call (on_pg (loadTripStops tripID)) (\<lambda>res.
       case res of
         Inl err \<Rightarrow> Done
       | Inr [] \<Rightarrow> Done
       | Inr (st0 # rest) \<Rightarrow>
           call (on_redis (live_position rc parseF (ts_vehicleID st0))) (\<lambda>pos.
             case pos of
               None \<Rightarrow> Done
             | Some (lat, lng) \<Rightarrow>
                 each (process_stop_prog fmt now (ts_vehicleID st0) (ts_fleetID st0) lat lng (maxArrivedSeq (st0 # rest))) (st0 # rest)))"

definition stop_prog ::
  "'r redis_client \<Rightarrow> (string \<Rightarrow> float64 option) \<Rightarrow> (time \<Rightarrow> string) \<Rightarrow> (string \<Rightarrow> string \<Rightarrow> time) \<Rightarrow> 'r world prog" where
  "stop_prog rc parseF fmt now =
     call (on_pg stop_loadActiveTrips) (\<lambda>res.
       case res of
         Inl err \<Rightarrow> Done
       | Inr tids \<Rightarrow> each (\<lambda>tid. processTrip_prog rc parseF fmt (now tid) tid) tids)"

text \<open>\<open>eta_estimator.go\<close>.\<close>

definition computeAndStore_prog ::
  "'r redis_client \<Rightarrow> (string \<Rightarrow> float64 option) \<Rightarrow> (time \<Rightarrow> string) \<Rightarrow> (float64 \<Rightarrow> int) \<Rightarrow> time \<Rightarrow> string \<Rightarrow> nextStop \<Rightarrow> 'r world prog" where
  "computeAndStore_prog rc parseF fmt conv now tripID ns =
     call (on_redis (cmd_HMGet rc (''vehicle:'' @ ns_vehicleID ns @ '':state'') [''lat'', ''lng'', ''speed_kmh''])) (\<lambda>x.
       case x of
         Inr (Some la # Some lo # sp # rest) \<Rightarrow>
           (case (parseF la, parseF lo) of
              (Some vLat, Some vLng) \<Rightarrow>
                (let distKm = haversineKm vLat vLng (ns_lat ns) (ns_lng ns);
                     etaMinutes = eta_minutes distKm (eta_speed parseF sp);
                     eta = now + duration_of (f64_int conv etaMinutes) Minute
                 in call (on_redis (cmd_Set rc (eta_key tripID) (fmt eta) (10 * Minute))) (\<lambda>e. Done))
            | _ \<Rightarrow> Done)
       | _ \<Rightarrow> Done)"

definition eta_prog ::
  "'r redis_client \<Rightarrow> (string \<Rightarrow> float64 option) \<Rightarrow> (time \<Rightarrow> string) \<Rightarrow> (float64 \<Rightarrow> int) \<Rightarrow> (string \<Rightarrow> time) \<Rightarrow> 'r world prog" where
  "eta_prog rc parseF fmt conv now =
     call (on_pg (pg_query (\<lambda>t d. pending_stops d))) (\<lambda>res.
       case res of
         Inl err \<Rightarrow> Done
       | Inr rows \<Rightarrow> each (\<lambda>(tid, ns). computeAndStore_prog rc parseF fmt conv (now tid) tid ns) (first_per_trip rows))"

section \<open>Uninterrupted runs\<close>

lemma run_Call_simps [simp]:
  "run (markStop_prog tid sid status a l k) w = run k (markStop tid sid status a l w)"
  "run (completeTrip_prog tid) w = completeTrip tid w"
  by (simp_all add: markStop_prog_def completeTrip_prog_def)

lemmas calls_defs = on_redis_def on_pg_def on_hub_def

lemma run_setOffline: "run (setOffline_prog rc fmt vid fid seen) w = setOffline rc fmt vid fid seen w"
  by (simp add: setOffline_prog_def setOffline_def calls_defs split: prod.splits)

lemma run_check: "run (check_prog rc fmt now vid fid threshold) w = check rc fmt now vid fid threshold w"
  by (simp add: check_prog_def check_def run_setOffline calls_defs split: prod.splits sum.splits redis_err.splits option.splits)

lemma run_check_all:
  "run (each (\<lambda>(vid, fid). check_prog rc fmt (now vid) vid fid (case thresholds fid of None \<Rightarrow> dflt | Some t \<Rightarrow> t)) vs) w =
     check_all rc fmt now thresholds dflt vs w"
  by (induction rc fmt now thresholds dflt vs w rule: check_all.induct) (simp_all add: run_check Let_def)

lemma run_load_stops:
  "run (load_stops_prog rows trips k) w =
     (case load_stops rows (jw_pg w) of (ts, p) \<Rightarrow> run (k (trips @ ts)) (w\<lparr>jw_pg := p\<rparr>))"
  by (induction rows trips k arbitrary: w rule: load_stops_prog.induct) (simp_all add: calls_defs split: prod.splits sum.splits)

lemma run_fireAlert: "run (fireAlert_prog rc t km) w = fireAlert rc t km w"
  by (auto simp: fireAlert_prog_def fireAlert_def calls_defs Let_def split: prod.splits sum.splits bool.splits)

lemma run_autoResolve: "run (autoResolve_prog rc vid tid) w = autoResolve rc vid tid w"
  by (simp add: autoResolve_prog_def autoResolve_def calls_defs split: prod.splits sum.splits)

lemma run_checkTrip: "run (checkTrip_prog rc parseF t) = checkTrip rc parseF t"
  by (rule ext) (simp add: checkTrip_prog_def checkTrip_def run_fireAlert run_autoResolve calls_defs Let_def split: prod.splits option.splits)

lemma run_process_stop: "run (process_stop_prog fmt now vid fid lat lng m st) = process_stop fmt now vid fid lat lng m st"
  by (rule ext) (simp add: process_stop_prog_def process_stop_def calls_defs Let_def)

lemma run_processTrip: "run (processTrip_prog rc parseF fmt now tid) = processTrip rc parseF fmt now tid"
  by (rule ext) (simp add: processTrip_prog_def processTrip_def run_each run_process_stop calls_defs Let_def del: fold_simps each.simps
      split: prod.splits sum.splits list.splits option.splits)

lemma run_computeAndStore:
  "run (computeAndStore_prog rc parseF fmt conv now tid ns) w =
     w\<lparr>jw_redis := computeAndStore rc parseF fmt conv now tid ns (jw_redis w)\<rparr>"
  by (auto simp: computeAndStore_prog_def computeAndStore_def calls_defs Let_def split: prod.splits sum.splits list.splits option.splits)

lemma run_estimates:
  "run (each (\<lambda>(tid, ns). computeAndStore_prog rc parseF fmt conv (now tid) tid ns) xs) w =
     w\<lparr>jw_redis := fold (\<lambda>(tid, ns). computeAndStore rc parseF fmt conv (now tid) tid ns) xs (jw_redis w)\<rparr>"
  by (induction xs arbitrary: w) (auto simp: run_computeAndStore)

lemma run_heartbeat: "run (heartbeat_prog rc fmt now h) w = heartbeat_tick rc fmt now h w"
  by (simp add: heartbeat_prog_def heartbeat_tick_def run_check_all calls_defs split: prod.splits sum.splits)

lemma run_deviation: "run (deviation_prog rc parseF) w = deviation_tick rc parseF w"
  by (simp add: deviation_prog_def deviation_tick_def deviation_loadActiveTrips_def run_load_stops run_each run_checkTrip
      calls_defs split: prod.splits sum.splits)

lemma run_stops: "run (stop_prog rc parseF fmt now) w = stop_tick rc parseF fmt now w"
  by (simp add: stop_prog_def stop_tick_def run_each run_processTrip calls_defs split: prod.splits sum.splits)

lemma run_eta: "run (eta_prog rc parseF fmt conv now) w = eta_tick rc parseF fmt conv now w"
  by (simp add: eta_prog_def eta_tick_def run_estimates calls_defs split: prod.splits sum.splits)

section \<open>What a call may do\<close>

text \<open>A call keeps a contract on the tables and reaches the hub through its broadcast methods only.\<close>

definition call_keeps :: "(db \<Rightarrow> db \<Rightarrow> bool) \<Rightarrow> 'r world \<Rightarrow> 'r world \<Rightarrow> bool" where
  "call_keeps G w w' \<longleftrightarrow> obeys G (jw_pg w) (jw_pg w') \<and> env_case\<^sup>*\<^sup>* (jw_hub w) (jw_hub w')"

lemma call_keeps_mono: "call_keeps G w w' \<Longrightarrow> (\<And>d d'. G d d' \<Longrightarrow> H d d') \<Longrightarrow> call_keeps H w w'"
  by (auto simp: call_keeps_def intro: obeys_mono)

context table_contract
begin

lemma call_keeps_redis: "on_redis op w = (x, w') \<Longrightarrow> call_keeps G w w'"
  by (auto simp: on_redis_def call_keeps_def keeps_refl split: prod.splits)

lemma call_keeps_pg: "on_pg op w = (x, w') \<Longrightarrow> (\<And>p x p'. op p = (x, p') \<Longrightarrow> obeys G p p') \<Longrightarrow> call_keeps G w w'"
  by (auto simp: on_pg_def call_keeps_def split: prod.splits)

lemma call_keeps_reads: "on_pg op w = (x, w') \<Longrightarrow> (\<And>p x p'. op p = (x, p') \<Longrightarrow> reads p p') \<Longrightarrow> call_keeps G w w'"
  by (rule call_keeps_pg) (blast intro: reads_keeps)+

lemma call_keeps_announce: "on_hub f w = (x, w') \<Longrightarrow> (\<And>h. env_case\<^sup>*\<^sup>* h (f h)) \<Longrightarrow> call_keeps G w w'"
  by (auto simp: on_hub_def call_keeps_def keeps_refl)

text \<open>Programs whose calls keep the contract in every state.\<close>

lemma always_redis: "(\<And>x. always (call_keeps G) (k x)) \<Longrightarrow> always (call_keeps G) (call (on_redis op) k)"
  using call_keeps_redis by (rule always_call)

lemma always_pg:
  "(\<And>p x p'. op p = (x, p') \<Longrightarrow> obeys G p p') \<Longrightarrow> (\<And>x. always (call_keeps G) (k x)) \<Longrightarrow> always (call_keeps G) (call (on_pg op) k)"
  using call_keeps_pg by (rule always_call)

lemma always_reads:
  "(\<And>p x p'. op p = (x, p') \<Longrightarrow> reads p p') \<Longrightarrow> (\<And>x. always (call_keeps G) (k x)) \<Longrightarrow> always (call_keeps G) (call (on_pg op) k)"
  using call_keeps_reads by (rule always_call)

lemma always_announce:
  "(\<And>h. env_case\<^sup>*\<^sup>* h (f h)) \<Longrightarrow> (\<And>x. always (call_keeps G) (k x)) \<Longrightarrow> always (call_keeps G) (call (on_hub f) k)"
  using call_keeps_announce by (rule always_call)

lemmas always_calls = always_redis always_reads always_announce always_seq always_each

end

lemma announce [simp]: "env_case\<^sup>*\<^sup>* h (broadcastEvent f evt h)"
  using env_case.send_event by blast

lemma loadFleetThresholds_reads [reading]: "loadFleetThresholds p = (x, p') \<Longrightarrow> reads p p'"
  by (auto simp: loadFleetThresholds_def dest: pg_query_reads split: prod.splits sum.splits)

lemma loads_read [reading]:
  "loadRouteStops tid p = (y, p') \<Longrightarrow> reads p p'" "loadTripStops tid p = (z, p') \<Longrightarrow> reads p p'"
  "stop_loadActiveTrips p = (u, p') \<Longrightarrow> reads p p'"
  unfolding loadRouteStops_def loadTripStops_def stop_loadActiveTrips_def by (rule pg_query_reads, assumption)+

text \<open>The heartbeat monitor and the estimator write to Redis only.\<close>

lemma heartbeat_always: "always (call_keeps alerts_guarantee) (heartbeat_prog rc fmt now h)"
proof -
  have off: "always (call_keeps alerts_guarantee) (setOffline_prog rc fmt vid fid seen)" for vid fid seen
    by (auto simp: setOffline_prog_def intro!: srv.always_calls)
  have "always (call_keeps alerts_guarantee) (check_prog rc fmt n vid fid threshold)" for n vid fid threshold
    unfolding check_prog_def
    by (auto simp: off intro!: srv.always_calls split: sum.splits redis_err.splits option.splits)
  then show ?thesis
    by (auto simp: heartbeat_prog_def intro!: srv.always_calls dest: reading split: sum.splits)
qed

lemma eta_always: "always (call_keeps alerts_guarantee) (eta_prog rc parseF fmt conv now)"
proof -
  have "always (call_keeps alerts_guarantee) (computeAndStore_prog rc parseF fmt conv n tid ns)" for n tid ns
    unfolding computeAndStore_prog_def Let_def
    by (auto intro!: srv.always_calls split: sum.splits list.splits option.splits)
  then show ?thesis
    by (auto simp: eta_prog_def intro!: srv.always_calls dest: reading split: sum.splits)
qed

text \<open>The deviation detector writes alerts.\<close>

lemma load_stops_always:
  "(\<And>ts. always (call_keeps alerts_guarantee) (k ts)) \<Longrightarrow> always (call_keeps alerts_guarantee) (load_stops_prog rows trips k)"
  by (induction rows trips k rule: load_stops_prog.induct) (auto intro!: srv.always_calls dest: reading split: sum.splits)

lemma deviation_always: "always (call_keeps alerts_guarantee) (deviation_prog rc parseF)"
proof -
  have fire: "always (call_keeps alerts_guarantee) (fireAlert_prog rc t km)" for t km
    unfolding fireAlert_prog_def
    by (auto intro!: srv.always_redis srv.always_pg dest: workflow_runs split: sum.splits bool.splits)
  have res: "always (call_keeps alerts_guarantee) (autoResolve_prog rc vid tid)" for vid tid
    unfolding autoResolve_prog_def by (auto intro!: srv.always_redis srv.always_pg dest: workflow_runs split: sum.splits)
  have "always (call_keeps alerts_guarantee) (checkTrip_prog rc parseF t)" for t
    unfolding checkTrip_prog_def Let_def by (auto simp: fire res intro!: srv.always_calls split: option.splits)
  then show ?thesis
    by (auto simp: deviation_prog_def intro!: srv.always_calls load_stops_always dest: reading split: sum.splits)
qed

text \<open>The stop detector leaves the telemetry alone.\<close>

lemma stop_statements_telemetry:
  "call_keeps same_telemetry w (markStop tid sid status a l w)" "call_keeps same_telemetry w (completeTrip tid w)"
proof -
  have "obeys same_telemetry p (snd (pg_run False (mark_stmt tid sid status a l) p))" for p
    by (rule tel.keeps_run [OF _ prod.collapse [symmetric]]) (simp add: mark_stmt_def same_telemetry_def Let_def)
  then show "call_keeps same_telemetry w (markStop tid sid status a l w)" by (simp add: call_keeps_def markStop_def)
  have "obeys same_telemetry p (snd (pg_run False (complete_stmt tid) p))" for p
    by (rule tel.keeps_run [OF _ prod.collapse [symmetric]]) (simp add: complete_stmt_def same_telemetry_def)
  then show "call_keeps same_telemetry w (completeTrip tid w)" by (simp add: call_keeps_def completeTrip_def)
qed

lemma stop_always:
  fixes rc :: "'r redis_client"
  shows "always (call_keeps same_telemetry) (stop_prog rc parseF fmt now)"
proof -
  have mark: "always (call_keeps same_telemetry) (markStop_prog tid sid status a l k)"
    if "always (call_keeps same_telemetry) k" for tid sid status a l and k :: "'r world prog"
    unfolding markStop_prog_def by (rule always_call) (use that stop_statements_telemetry in auto)
  have complete: "always (call_keeps same_telemetry) (completeTrip_prog tid :: 'r world prog)" for tid
    unfolding completeTrip_prog_def by (rule always_call) (use stop_statements_telemetry in auto)
  have "always (call_keeps same_telemetry) (process_stop_prog fmt n vid fid lat lng m st :: 'r world prog)" for n vid fid lat lng m st
    unfolding process_stop_prog_def Let_def by (auto simp: complete intro!: tel.always_calls mark)
  then have "always (call_keeps same_telemetry) (processTrip_prog rc parseF fmt n tid)" for n tid
    unfolding processTrip_prog_def
    by (auto intro!: tel.always_calls dest: reading simp del: each.simps split: sum.splits list.splits option.splits)
  then show ?thesis by (auto simp: stop_prog_def intro!: tel.always_calls dest: reading split: sum.splits)
qed

section \<open>The stop detector among the others\<close>

abbreviation jw_db :: "'r world \<Rightarrow> db" where
  "jw_db w \<equiv> pg_db (jw_pg w)"

text \<open>What the stop detector relies on.\<close>

definition trips_rely :: "'r world \<Rightarrow> 'r world \<Rightarrow> bool" where
  "trips_rely w w' \<longleftrightarrow> obeys others_guarantee (jw_pg w) (jw_pg w')"

interpretation among: interference trips_rely
  by unfold_locales (auto simp: trips_rely_def oth.keeps_refl intro: oth.keeps_trans)

text \<open>The trips of a tick are in progress, or the tick has completed them; the statuses of the stops to come are those of the
  snapshot.\<close>

definition tracking :: "string set \<Rightarrow> tripStopRow list \<Rightarrow> db \<Rightarrow> bool" where
  "tracking tids sts d \<longleftrightarrow> db_typed d \<and> snapshot_of d sts \<and>
     (\<forall>t\<in>set (trip d). tr_trip_id t \<in> tids \<longrightarrow> tr_status t \<in> {TripInProgress, TripCompleted})"

lemma tracking_rely: "tracking tids sts (jw_db w) \<Longrightarrow> trips_rely w v \<Longrightarrow> tracking tids sts (jw_db v)"
  by (auto simp: tracking_def trips_rely_def obeys_def others_guarantee_def db_guarantee_def same_trips_def snapshot_of_def)

lemma tracking_typed: "tracking tids sts d \<Longrightarrow> db_typed d"
  by (simp add: tracking_def)

lemma advance_tracking:
  assumes "advance now tids d d'" "tracking tids sts d" "snapshot_of d' sts'"
  shows "stops_guarantee d d' \<and> tracking tids sts' d'"
proof -
  obtain ts ps where d': "d' = d\<lparr>trip := ts, trip_stop_progress := ps\<rparr>"
    "list_all2 (trip_le now tids) (trip d) ts" "list_all2 (row_le tids) (trip_stop_progress d) ps"
    using assms(1) by (auto simp: advance_def)
  have "list_all2 trip_forward (trip d) ts"
    by (rule list.rel_mono_strong [OF d'(2)]) (use assms(2) in \<open>auto simp: trip_le_def trip_forward_def TripCompleted_def tracking_def\<close>)
  moreover have "list_all2 stop_forward (trip_stop_progress d) ps"
    by (rule list_all2_mono [OF d'(3)]) (simp add: row_le_def stop_forward_def)
  ultimately have ev: "db_evolves d d'" by (simp add: d'(1) db_evolves_def)
  have "workflow_inv d'" using assms(2) by (simp add: d'(1) tracking_def db_typed_def workflow_inv_def alerts_wf_def)
  then have "stops_guarantee d d'"
    using db_guaranteeI [OF ev] by (simp add: stops_guarantee_def same_telemetry_def d'(1))
  moreover from this have "db_typed d'"
    using assms(2) by (simp add: stops_guarantee_def db_guarantee_def tracking_def)
  moreover have "list_all (\<lambda>t. tr_trip_id t \<in> tids \<longrightarrow> tr_status t \<in> {TripInProgress, TripCompleted}) ts"
    by (rule list_all2_list_all [OF d'(2), where P = "\<lambda>t. tr_trip_id t \<in> tids \<longrightarrow> tr_status t \<in> {TripInProgress, TripCompleted}"])
      (use assms(2) in \<open>auto simp: tracking_def list_all_iff trip_le_def TripCompleted_def\<close>)
  ultimately show ?thesis using assms(3) by (simp add: tracking_def d'(1) list_all_iff)
qed

text \<open>The two statements.\<close>

lemma markStop_tracking:
  fixes w :: "'r world"
  assumes "tracking tids (st # sts) (jw_db w)" "ts_tripID st \<in> tids" "ts_stopID st \<notin> ts_stopID ` set sts"
    and "stop_le (ts_status st) status" "status \<in> {StopArrived, StopDeparted, StopMissed}"
    and "status = StopArrived \<longrightarrow> a \<noteq> None" "status = StopDeparted \<longrightarrow> l \<noteq> None \<and> ts_status st = StopArrived"
  defines "w' \<equiv> markStop (ts_tripID st) (ts_stopID st) status a l w"
  shows "call_keeps stops_guarantee w w' \<and> tracking tids sts (jw_db w')"
proof -
  have snap: "snapshot_of (jw_db w) (st # sts)" using assms(1) by (simp add: tracking_def)
  note eff = markStop_effect [OF assms(2) snap assms(3-7), folded w'_def]
  show ?thesis
    using advance_tracking [OF eff(1) assms(1) eff(3)] stop_statements_telemetry(1) [of w "ts_tripID st" "ts_stopID st" status a l]
    by (simp add: call_keeps_def obeys_def w'_def)
qed

lemma completeTrip_tracking:
  assumes "tracking tids sts (jw_db w)" "tid \<in> tids"
  shows "call_keeps stops_guarantee w (completeTrip tid w) \<and> tracking tids sts (jw_db (completeTrip tid w))"
proof -
  note eff = completeTrip_effect [OF assms(2), where w = w]
  have "snapshot_of (jw_db (completeTrip tid w)) sts" by (rule eff(3)) (use assms(1) in \<open>simp add: tracking_def\<close>)
  from advance_tracking [OF eff(1) assms(1) this] show ?thesis
    using stop_statements_telemetry(2) [of w tid] by (simp add: call_keeps_def obeys_def)
qed

abbreviation stops_safe :: "string set \<Rightarrow> tripStopRow list \<Rightarrow> 'r world \<Rightarrow> 'r world prog \<Rightarrow> bool" where
  "stops_safe tids sts \<equiv> safe trips_rely (call_keeps stops_guarantee) (\<lambda>v. tracking tids sts (jw_db v))"

lemma stops_safe_Done: "tracking tids sts (jw_db w) \<Longrightarrow> stops_safe tids sts w Done"
  by (rule safe_Done) (rule tracking_rely)

lemma stops_safe_pure:
  assumes "tracking tids sts (jw_db w)" "\<And>v x v'. op v = (x, v') \<Longrightarrow> call_keeps stops_guarantee v v' \<and> jw_db v' = jw_db v"
    and "\<And>v x. tracking tids sts (jw_db v) \<Longrightarrow> safe trips_rely (call_keeps stops_guarantee) Q v (k x)"
  shows "safe trips_rely (call_keeps stops_guarantee) Q w (call op k)"
proof (rule safe_call)
  fix v x v'
  assume v: "trips_rely w v" "op v = (x, v')"
  then have "tracking tids sts (jw_db v')" using tracking_rely [OF assms(1)] assms(2) by simp
  then show "call_keeps stops_guarantee v v' \<and> safe trips_rely (call_keeps stops_guarantee) Q v' (k x)"
    using assms(2,3) v by blast
qed

lemma stops_safe_mark:
  assumes "tracking tids (st # sts) (jw_db w)" "ts_tripID st \<in> tids" "ts_stopID st \<notin> ts_stopID ` set sts"
    and "stop_le (ts_status st) status" "status \<in> {StopArrived, StopDeparted, StopMissed}"
    and "status = StopArrived \<longrightarrow> a \<noteq> None" "status = StopDeparted \<longrightarrow> l \<noteq> None \<and> ts_status st = StopArrived"
    and "\<And>v. tracking tids sts (jw_db v) \<Longrightarrow> stops_safe tids sts v k"
  shows "stops_safe tids sts w (markStop_prog (ts_tripID st) (ts_stopID st) status a l k)"
  unfolding markStop_prog_def
proof (rule safe_call)
  fix v u and v' :: "'a world"
  assume v: "trips_rely w v" "((), markStop (ts_tripID st) (ts_stopID st) status a l v) = (u, v')"
  from markStop_tracking [OF tracking_rely [OF assms(1) v(1)] assms(2-7)] assms(8) v(2)
  show "call_keeps stops_guarantee v v' \<and> stops_safe tids sts v' k" by simp
qed

lemma stops_safe_complete:
  assumes "tracking tids sts (jw_db w)" "tid \<in> tids"
  shows "stops_safe tids sts w (completeTrip_prog tid)"
  unfolding completeTrip_prog_def
proof (rule safe_call)
  fix v u and v' :: "'a world"
  assume v: "trips_rely w v" "((), completeTrip tid v) = (u, v')"
  from completeTrip_tracking [OF tracking_rely [OF assms(1) v(1)] assms(2)] v(2)
  show "call_keeps stops_guarantee v v' \<and> stops_safe tids sts v' Done" by (simp add: stops_safe_Done)
qed

lemma process_stop_safe:
  assumes "tracking tids (st # sts) (jw_db w)" "ts_tripID st \<in> tids" "ts_stopID st \<notin> ts_stopID ` set sts"
  shows "stops_safe tids sts w (process_stop_prog fmt now vid fid lat lng m st)"
proof -
  have rest: "tracking tids sts (jw_db w)" using assms(1) by (simp add: tracking_def snapshot_of_def)
  note mark = stops_safe_mark [OF assms, unfolded stop_names]
  have announce: "stops_safe tids sts v (call (on_hub (BroadcastStopArrived fmt fid e)) (\<lambda>u. k))"
    if "tracking tids sts (jw_db v)" "\<And>v. tracking tids sts (jw_db v) \<Longrightarrow> stops_safe tids sts v k" for v k e
    by (rule stops_safe_pure [OF that(1)]) (auto simp: on_hub_def call_keeps_def stp.keeps_refl intro: that(2))
  show ?thesis
    unfolding process_stop_prog_def Let_def
    by (auto simp: stops_safe_Done [OF rest] stop_le_def stop_names intro!: mark stops_safe_Done announce
        stops_safe_complete assms(2))
qed

lemma stops_safe_redis:
  "tracking tids sts (jw_db w) \<Longrightarrow>
   (\<And>v x. tracking tids sts (jw_db v) \<Longrightarrow> safe trips_rely (call_keeps stops_guarantee) Q v (k x)) \<Longrightarrow>
   safe trips_rely (call_keeps stops_guarantee) Q w (call (on_redis op) k)"
  by (rule stops_safe_pure) (auto simp: on_redis_def call_keeps_def stp.keeps_refl split: prod.splits)

text \<open>A pass over the stops of a trip, on the snapshot it has read.\<close>

lemma pass_safe:
  assumes "tracking tids sts (jw_db w)" "distinct (map ts_stopID sts)" "\<forall>st\<in>set sts. ts_tripID st \<in> tids"
  shows "stops_safe tids [] w (each (process_stop_prog fmt now vid fid lat lng m) sts)"
proof -
  let ?I = "\<lambda>sts v. tracking tids sts (jw_db v) \<and> distinct (map ts_stopID sts) \<and> (\<forall>st\<in>set sts. ts_tripID st \<in> tids)"
  have "safe trips_rely (call_keeps stops_guarantee) (?I []) w (each (process_stop_prog fmt now vid fid lat lng m) sts)"
  proof (rule among.safe_each [where I = ?I])
    fix st sts and v :: "'a world"
    assume I: "?I (st # sts) v"
    then have "stops_safe tids sts v (process_stop_prog fmt now vid fid lat lng m st)"
      by (intro process_stop_safe) auto
    then show "safe trips_rely (call_keeps stops_guarantee) (?I sts) v (process_stop_prog fmt now vid fid lat lng m st)"
      by (rule safe_mono) (use I in auto)
  qed (use assms tracking_rely in auto)
  then show ?thesis by (rule safe_mono) auto
qed

lemma processTrip_safe:
  assumes "tracking tids [] (jw_db w)" "tid \<in> tids"
  shows "stops_safe tids [] w (processTrip_prog rc parseF fmt now tid)"
  unfolding processTrip_prog_def
proof (rule safe_call)
  fix v res v'
  assume v: "trips_rely w v" "on_pg (loadTripStops tid) v = (res, v')"
  obtain p' where q: "loadTripStops tid (jw_pg v) = (res, p')" "v' = v\<lparr>jw_pg := p'\<rparr>"
    using v(2) by (auto simp: on_pg_def split: prod.splits)
  have same: "jw_db v' = jw_db v" using q by (auto simp: loadTripStops_def dest: pg_query_db)
  have tr: "tracking tids [] (jw_db v')" using tracking_rely [OF assms(1) v(1)] same by simp
  have "stops_safe tids [] v' (case res of Inl err \<Rightarrow> Done | Inr [] \<Rightarrow> Done
      | Inr (st0 # rest) \<Rightarrow> call (on_redis (live_position rc parseF (ts_vehicleID st0))) (\<lambda>pos. case pos of None \<Rightarrow> Done
          | Some (lat, lng) \<Rightarrow> each (process_stop_prog fmt now (ts_vehicleID st0) (ts_fleetID st0) lat lng
              (maxArrivedSeq (st0 # rest))) (st0 # rest)))"
  proof (cases "\<exists>st rest. res = Inr (st # rest)")
    case True
    then obtain st rest where res: "res = Inr (st # rest)" by blast
    then have sts: "st # rest = trip_stops_query tid (jw_db v')"
      using q same unfolding loadTripStops_def by (metis pg_query_Inr)
    have "registry_wf (jw_db v')" using tr by (simp add: tracking_def db_typed_def)
    note rows = trip_stops_query_rows [OF this, of tid, folded sts]
    have snap: "tracking tids (st # rest) (jw_db v')" using tr rows(3) by (simp add: tracking_def)
    have "stops_safe tids [] u (each (process_stop_prog fmt now (ts_vehicleID st) (ts_fleetID st) lat lng
        (maxArrivedSeq (st # rest))) (st # rest))" if "tracking tids (st # rest) (jw_db u)" for u lat lng
      by (rule pass_safe [OF that rows(1)]) (use rows(2) assms(2) in simp)
    moreover have "tracking tids [] d" if "tracking tids (st # rest) d" for d
      using that by (simp add: tracking_def snapshot_of_def)
    ultimately show ?thesis
      unfolding res by (auto simp: stops_safe_Done simp del: each.simps intro!: stops_safe_redis [OF snap] split: option.splits)
  qed (use tr in \<open>auto simp: stops_safe_Done split: sum.splits list.splits\<close>)
  moreover have "call_keeps stops_guarantee v v'"
    using v(2) by (rule stp.call_keeps_reads) (rule reading)
  ultimately show "call_keeps stops_guarantee v v' \<and> stops_safe tids [] v' (case res of Inl err \<Rightarrow> Done | Inr [] \<Rightarrow> Done
      | Inr (st0 # rest) \<Rightarrow> call (on_redis (live_position rc parseF (ts_vehicleID st0))) (\<lambda>pos. case pos of None \<Rightarrow> Done
          | Some (lat, lng) \<Rightarrow> each (process_stop_prog fmt now (ts_vehicleID st0) (ts_fleetID st0) lat lng
              (maxArrivedSeq (st0 # rest))) (st0 # rest)))" by blast
qed

lemma stop_safe:
  assumes "db_typed (jw_db w)"
  shows "safe trips_rely (call_keeps stops_guarantee) (\<lambda>v. True) w (stop_prog rc parseF fmt now)"
  unfolding stop_prog_def
proof (rule safe_call)
  fix v res v'
  assume v: "trips_rely w v" "on_pg stop_loadActiveTrips v = (res, v')"
  obtain p' where q: "stop_loadActiveTrips (jw_pg v) = (res, p')" "v' = v\<lparr>jw_pg := p'\<rparr>"
    using v(2) by (auto simp: on_pg_def split: prod.splits)
  have same: "jw_db v' = jw_db v" using q by (auto simp: stop_loadActiveTrips_def dest: pg_query_db)
  have ty: "db_typed (jw_db v')"
    using assms v(1) same by (auto simp: trips_rely_def obeys_def others_guarantee_def db_guarantee_def)
  then have keys: "distinct (map tr_trip_id (trip (jw_db v')))" by (simp add: db_typed_def registry_wf_def)
  have "safe trips_rely (call_keeps stops_guarantee) (\<lambda>v. True) v' (each (\<lambda>tid. processTrip_prog rc parseF fmt (now tid) tid) tids)"
    if res: "res = Inr tids" for tids
  proof -
    have "tids = map tr_trip_id (filter (\<lambda>t. tr_status t = ''IN_PROGRESS'') (trip (jw_db v')))"
      using q res same pg_query_Inr unfolding stop_loadActiveTrips_def by fastforce
    then have "tracking (set tids) [] (jw_db v')"
      using ty key_inj [OF keys] by (auto simp: tracking_def snapshot_of_def TripInProgress_def)
    then have "safe trips_rely (call_keeps stops_guarantee) (\<lambda>u. tracking (set tids) [] (jw_db u) \<and> set [] \<subseteq> set tids) v'
        (each (\<lambda>tid. processTrip_prog rc parseF fmt (now tid) tid) tids)"
      by (intro among.safe_each [where I = "\<lambda>ts u. tracking (set tids) [] (jw_db u) \<and> set ts \<subseteq> set tids"])
        (auto intro: tracking_rely safe_mono [OF processTrip_safe])
    then show ?thesis by (rule safe_mono) auto
  qed
  then show "call_keeps stops_guarantee v v' \<and> safe trips_rely (call_keeps stops_guarantee) (\<lambda>v. True) v'
      (case res of Inl err \<Rightarrow> Done | Inr tids \<Rightarrow> each (\<lambda>tid. processTrip_prog rc parseF fmt (now tid) tid) tids)"
    using stp.call_keeps_reads [OF v(2) loads_read(3)] by (auto intro: safe_Done split: sum.splits)
qed

section \<open>Properties\<close>


text \<open>The arrival at a last stop completes the trip at the time of the statement, also when the trip is completed already: a
  route may have two stops with the greatest sequence number.\<close>

theorem last_stop_completes:
  assumes "ts_status st = StopPending" "m \<le> ts_stopSequence st" "ts_isFinalStop st" "pg_plan (jw_pg w) = []"
    and "f64_le (haversineKm lat lng (ts_stopLat st) (ts_stopLng st)) (ts_arrivalRadiusKm st)"
  shows "trip (jw_db (process_stop fmt now vid fid lat lng m st w)) =
     map (\<lambda>t. if tr_trip_id t = ts_tripID st then t\<lparr>tr_status := TripCompleted, tr_completed_at := Some (pg_now (jw_pg w))\<rparr> else t)
       (trip (jw_db w))"
  using assms
  by (simp add: process_stop_def Let_def stop_names TripCompleted_def markStop_def completeTrip_def pg_run_up mark_stmt_def
      complete_stmt_def chk_stop_status_def)

end
