(* ===== verification/Fleet_System.thy ===== *)
theory Fleet_System
  imports Ingest_Progress Serving_Programs
begin

text \<open>
  The two services over their shared stores. The serving process (\<open>src/serving/main.go\<close>) is a transition system like the
  ingestion process: requests that arrive, go through the mux and are answered, the WebSocket hub with its clients, the four
  jobs, the signal and the shutdown. A job is a goroutine that makes one call at a time: between two calls of a tick anything
  else may happen. A request is one step; it makes at most one statement that writes. After the cancellation of the context no
  tick has an effect, since its first query fails; what is left of a running tick may still be made, with calls that fail.

  \<open>fleet_step\<close> interleaves the two processes; time passes, and other clients of Redis change its keys.
\<close>

section \<open>The serving process\<close>

record srv_request =
  sq_method :: string
  sq_path :: "string list"
  sq_req :: http_request

datatype serving_pc = ServingWaiting | ServingShutdown | ServingExited

text \<open>The jobs that \<open>main\<close> starts. A job that waits for its ticker has nothing left to do.\<close>

datatype job = Heartbeat | Deviation | Stops | Eta

record 'r serving_sys =
  ss_proc :: serving_process
  ss_auth :: Authenticator
  ss_hub :: hub
  ss_listening :: bool
  ss_inflight :: "srv_request list"
  ss_jobs :: "job \<Rightarrow> 'r world prog"
  ss_done :: bool
  ss_main :: serving_pc

definition serving_boot :: "(string \<Rightarrow> string option) \<Rightarrow> serving_process \<Rightarrow> 'r serving_sys" where
  "serving_boot bind sp =
     \<lparr>ss_proc = sp, ss_auth = sp_authenticator sp, ss_hub = sp_hub sp, ss_listening = (bind (sp_addr sp) = None),
      ss_inflight = [], ss_jobs = (\<lambda>j. Done), ss_done = False, ss_main = ServingWaiting\<rparr>"

text \<open>The world of a job, the start of a tick, and the system after a call, with the rest of the tick.\<close>

definition job_world :: "'r serving_sys \<Rightarrow> pg \<Rightarrow> 'r \<Rightarrow> 'r world" where
  "job_world s p r = \<lparr>jw_redis = r, jw_pg = p, jw_hub = ss_hub s\<rparr>"

definition start_tick :: "job \<Rightarrow> 'r world prog \<Rightarrow> 'r serving_sys \<Rightarrow> 'r serving_sys" where
  "start_tick j k s = s\<lparr>ss_jobs := (ss_jobs s)(j := k)\<rparr>"

definition after_call :: "job \<Rightarrow> 'r world \<Rightarrow> 'r world prog \<Rightarrow> 'r serving_sys \<Rightarrow> 'r serving_sys \<times> pg \<times> 'r" where
  "after_call j w k s = (s\<lparr>ss_jobs := (ss_jobs s)(j := k), ss_hub := jw_hub w\<rparr>, jw_pg w, jw_redis w)"

definition finished_request :: "srv_request \<Rightarrow> 'r serving_sys \<Rightarrow> 'r serving_sys" where
  "finished_request q s = s\<lparr>ss_inflight := remove1 q (ss_inflight s)\<rparr>"

text \<open>The request with the values of the path.\<close>

definition routed :: "srv_request \<Rightarrow> (string \<times> string) list \<Rightarrow> http_request" where
  "routed q vals = (sq_req q)\<lparr>hr_path := map_get vals\<rparr>"

inductive serving_step ::
  "'r redis_client \<Rightarrow> 'r scan_cmd \<Rightarrow> srv_env \<Rightarrow> (time \<Rightarrow> string) \<Rightarrow> (string \<Rightarrow> float64 option) \<Rightarrow> (float64 \<Rightarrow> int) \<Rightarrow>
   'r serving_sys \<times> pg \<times> 'r \<Rightarrow> 'r serving_sys \<times> pg \<times> 'r \<Rightarrow> bool" for rc scan env fmt parseF conv where
  srv_arrive: "ss_main s \<noteq> ServingExited \<Longrightarrow> ss_listening s \<Longrightarrow>
    serving_step rc scan env fmt parseF conv (s, p, r) (s\<lparr>ss_inflight := ss_inflight s @ [q]\<rparr>, p, r)"
| srv_api: "ss_main s \<noteq> ServingExited \<Longrightarrow> q \<in> set (ss_inflight s) \<Longrightarrow>
    serving_mux (sq_method q) (sq_path q) = Inr (ApiRoute e, vals) \<Longrightarrow>
    serve_api rc scan (env\<lparr>sv_now := t\<rparr>) now now' e (routed q vals) (ss_auth s, p, r) = Some (resp, a, p', r') \<Longrightarrow>
    serving_step rc scan env fmt parseF conv (s, p, r) ((finished_request q s)\<lparr>ss_auth := a\<rparr>, p', r')"
| srv_ws_refused: "ss_main s \<noteq> ServingExited \<Longrightarrow> q \<in> set (ss_inflight s) \<Longrightarrow>
    serving_mux (sq_method q) (sq_path q) = Inr (WsRoute, vals) \<Longrightarrow>
    ServeWS (srv_FleetID rc now now') (routed q vals) (ss_auth s, r) = (Some resp, a, r') \<Longrightarrow>
    serving_step rc scan env fmt parseF conv (s, p, r) ((finished_request q s)\<lparr>ss_auth := a\<rparr>, p, r')"
| srv_ws_opened: "ss_main s \<noteq> ServingExited \<Longrightarrow> q \<in> set (ss_inflight s) \<Longrightarrow>
    serving_mux (sq_method q) (sq_path q) = Inr (WsRoute, vals) \<Longrightarrow>
    ServeWS (srv_FleetID rc now now') (routed q vals) (ss_auth s, r) = (None, a, r') \<Longrightarrow>
    hub_heap (ss_hub s) c = None \<Longrightarrow> ch_send c (hub_register (ss_hub s)) = Sent ch \<Longrightarrow>
    serving_step rc scan env fmt parseF conv (s, p, r) ((finished_request q s)\<lparr>ss_auth := a, ss_hub := (ss_hub s)
      \<lparr>hub_heap := (hub_heap (ss_hub s))(c \<mapsto> newClient (hr_query (sq_req q) ''fleet_id'')), hub_register := ch\<rparr>\<rparr>, p, r')"
| srv_ws_upgrade_failed: "ss_main s \<noteq> ServingExited \<Longrightarrow> q \<in> set (ss_inflight s) \<Longrightarrow>
    serving_mux (sq_method q) (sq_path q) = Inr (WsRoute, vals) \<Longrightarrow>
    ServeWS (srv_FleetID rc now now') (routed q vals) (ss_auth s, r) = (None, a, r') \<Longrightarrow>
    serving_step rc scan env fmt parseF conv (s, p, r) ((finished_request q s)\<lparr>ss_auth := a\<rparr>, p, r')"
| srv_other: "ss_main s \<noteq> ServingExited \<Longrightarrow> q \<in> set (ss_inflight s) \<Longrightarrow>
    serving_mux (sq_method q) (sq_path q) = Inr (HealthRoute, vals) \<or> serving_mux (sq_method q) (sq_path q) = Inl code \<Longrightarrow>
    serving_step rc scan env fmt parseF conv (s, p, r) (finished_request q s, p, r)"
| srv_heartbeat: "ss_main s \<noteq> ServingExited \<Longrightarrow> \<not> ss_done s \<Longrightarrow> ss_jobs s Heartbeat = Done \<Longrightarrow>
    serving_step rc scan env fmt parseF conv (s, p, r) (start_tick Heartbeat (heartbeat_prog rc fmt clock (sp_heartbeat (ss_proc s))) s, p, r)"
| srv_deviation: "ss_main s \<noteq> ServingExited \<Longrightarrow> \<not> ss_done s \<Longrightarrow> ss_jobs s Deviation = Done \<Longrightarrow>
    serving_step rc scan env fmt parseF conv (s, p, r) (start_tick Deviation (deviation_prog rc parseF) s, p, r)"
| srv_stops: "ss_main s \<noteq> ServingExited \<Longrightarrow> \<not> ss_done s \<Longrightarrow> ss_jobs s Stops = Done \<Longrightarrow>
    serving_step rc scan env fmt parseF conv (s, p, r) (start_tick Stops (stop_prog rc parseF fmt stop_clock) s, p, r)"
| srv_eta: "ss_main s \<noteq> ServingExited \<Longrightarrow> \<not> ss_done s \<Longrightarrow> ss_jobs s Eta = Done \<Longrightarrow>
    serving_step rc scan env fmt parseF conv (s, p, r) (start_tick Eta (eta_prog rc parseF fmt conv clock) s, p, r)"
| srv_call: "ss_main s \<noteq> ServingExited \<Longrightarrow> ss_jobs s j = Call f \<Longrightarrow> f (job_world s p r) = (w, k) \<Longrightarrow>
    serving_step rc scan env fmt parseF conv (s, p, r) (after_call j w k s)"
| srv_hub: "ss_main s \<noteq> ServingExited \<Longrightarrow> run_case (ss_hub s) (Some h) \<Longrightarrow> \<not> hub_running h \<longrightarrow> ss_done s \<Longrightarrow>
    serving_step rc scan env fmt parseF conv (s, p, r) (s\<lparr>ss_hub := h\<rparr>, p, r)"
| srv_client: "ss_main s \<noteq> ServingExited \<Longrightarrow> env_case (ss_hub s) h \<Longrightarrow> dom (hub_heap h) = dom (hub_heap (ss_hub s)) \<Longrightarrow>
    serving_step rc scan env fmt parseF conv (s, p, r) (s\<lparr>ss_hub := h\<rparr>, p, r)"
| srv_signal: "serving_step rc scan env fmt parseF conv (s, p, r) (s\<lparr>ss_done := True\<rparr>, p, r)"
| srv_shutdown: "ss_main s = ServingWaiting \<Longrightarrow> ss_done s \<Longrightarrow>
    serving_step rc scan env fmt parseF conv (s, p, r) (s\<lparr>ss_main := ServingShutdown, ss_listening := False\<rparr>, p, r)"
| srv_exit: "ss_main s = ServingShutdown \<Longrightarrow>
    serving_step rc scan env fmt parseF conv (s, p, r) (s\<lparr>ss_main := ServingExited\<rparr>, p, r)"

section \<open>Both services\<close>

record 'r fleet =
  fl_ingest :: "'r ingest_sys"
  fl_serving :: "'r serving_sys"

definition fleet_start ::
  "environment \<Rightarrow> environment \<Rightarrow> (string \<Rightarrow> string option) \<Rightarrow> (pg \<Rightarrow> string option \<times> pg) \<Rightarrow> (string \<Rightarrow> string option) \<Rightarrow>
   'r redis_client \<Rightarrow> pg \<times> 'r \<Rightarrow> string + 'r fleet" where
  "fleet_start ienv senv newPool ping bind rc st =
     (case ingest_start ienv newPool ping bind rc st of
        Inl err \<Rightarrow> Inl err
      | Inr s \<Rightarrow>
          (case serving_start senv newPool ping rc (sy_pg s, sy_redis s) of
             (Inl err, w) \<Rightarrow> Inl err
           | (Inr sp, p, r) \<Rightarrow>
               Inr \<lparr>fl_ingest = s\<lparr>sy_pg := p, sy_redis := r\<rparr>, fl_serving = serving_boot bind sp\<rparr>))"

inductive fleet_step ::
  "'r redis_client \<Rightarrow> 'r scan_cmd \<Rightarrow> codec \<Rightarrow> DBWriter \<Rightarrow> srv_env \<Rightarrow> (time \<Rightarrow> string) \<Rightarrow> (string \<Rightarrow> float64 option) \<Rightarrow>
   (float64 \<Rightarrow> int) \<Rightarrow> 'r fleet \<Rightarrow> 'r fleet \<Rightarrow> bool" for rc scan co w env fmt parseF conv where
  ingesting: "process_step rc co w (fl_ingest s) i \<Longrightarrow>
    fleet_step rc scan co w env fmt parseF conv s (s\<lparr>fl_ingest := i\<rparr>)"
| serving: "serving_step rc scan env fmt parseF conv
      (fl_serving s, sy_pg (fl_ingest s), sy_redis (fl_ingest s)) (v, p, r) \<Longrightarrow>
    fleet_step rc scan co w env fmt parseF conv s
      (s\<lparr>fl_serving := v, fl_ingest := (fl_ingest s)\<lparr>sy_pg := p, sy_redis := r\<rparr>\<rparr>)"
| elapse: "pg_now (sy_pg (fl_ingest s)) \<le> t \<Longrightarrow>
    fleet_step rc scan co w env fmt parseF conv s
      (s\<lparr>fl_ingest := (fl_ingest s)\<lparr>sy_pg := (sy_pg (fl_ingest s))\<lparr>pg_now := t\<rparr>, sy_redis := r\<rparr>\<rparr>)"

section \<open>Lemmas\<close>

text \<open>The statements of the ingestion service leave the trips alone.\<close>

lemma copy_guarantee: "others_guarantee d (snd (copy_telemetry cols rows now d))"
  by (auto simp: others_guarantee_def same_trips_def db_guarantee_def copy_telemetry_def db_typed_def db_evolves_def workflow_inv_def
      alerts_wf_def registry_wf_def list_all2_same split: option.splits)

abbreviation others_keep :: "pg \<Rightarrow> pg \<Rightarrow> bool" where
  "others_keep \<equiv> obeys others_guarantee"

lemma BatchInsert_keeps:
  assumes "BatchInsert c b p = (e, p')"
  shows "others_keep p p'"
proof (cases "b = []")
  case False
  then obtain x where "pg_run c (copy_telemetry telemetryColumns (map telemetry_values b)) p = (x, p')"
    using assms by (auto simp: BatchInsert_def split: prod.splits sum.splits)
  then show ?thesis by (rule oth.keeps_run [rotated]) (rule copy_guarantee)
qed (use assms in \<open>simp add: BatchInsert_def oth.keeps_refl\<close>)

lemma InsertAlert_keeps:
  assumes "InsertAlert vid fid ty sev v p = (e, p')"
  shows "others_keep p p'"
proof -
  obtain x where "pg_run False (insert_alert_row True vid fid ty sev v) p = (x, p')"
    using assms by (auto simp: InsertAlert_def split: prod.splits sum.splits)
  then show ?thesis by (rule oth.keeps_run [rotated]) (rule guarantees_imp(2) [OF insert_alert_guarantee])
qed

lemma db_worker_keeps:
  assumes "db_worker w c (pc, ch, p, mt) l (pc', ch', p', mt')"
  shows "others_keep p p'"
  using assms by (cases rule: db_worker.cases) (auto simp: oth.keeps_refl dest: BatchInsert_keeps)

lemma alert_worker_keeps:
  assumes "alert_worker rc c (pc, ch, p, r) l (pc', ch', p', r')"
  shows "others_keep p p'"
  using assms
  by (cases rule: alert_worker.cases) (auto simp: oth.keeps_refl elim!: worker_step.cases dest: InsertAlert_keeps)

lemma process_step_keeps: "process_step rc co w s t \<Longrightarrow> others_keep (sy_pg s) (sy_pg t)"
proof (induction rule: process_step.induct)
  case (internal s t)
  then show ?case
    by (cases rule: sys_internal.cases) (auto simp: oth.keeps_refl dest: db_worker_keeps alert_worker_keeps)
qed (simp_all add: oth.keeps_refl)

text \<open>What is left of the jobs, whatever state the tables are in.\<close>

lemma job_world_sel [simp]: "jw_pg (job_world s p r) = p" "jw_hub (job_world s p r) = ss_hub s" "jw_redis (job_world s p r) = r"
  by (simp_all add: job_world_def)

definition job_contract :: "job \<Rightarrow> db \<Rightarrow> db \<Rightarrow> bool" where
  "job_contract j = (if j = Stops then same_telemetry else alerts_guarantee)"

lemma job_contract_telemetry: "job_contract j d d' \<Longrightarrow> same_telemetry d d'"
  by (auto simp: job_contract_def intro: guarantees_imp(3) split: if_splits)

definition jobs_polite :: "'r serving_sys \<Rightarrow> bool" where
  "jobs_polite s \<longleftrightarrow> (\<forall>j. always (call_keeps (job_contract j)) (ss_jobs s j))"

lemma jobs_polite_after:
  assumes "jobs_polite s" "ss_jobs s j = Call f" "f (job_world s p r) = (w, k)"
  shows "call_keeps (job_contract j) (job_world s p r) w" "always (call_keeps (job_contract j)) k"
proof -
  have "always (call_keeps (job_contract j)) (Call f)" using assms(1,2) by (metis jobs_polite_def)
  from always_step [OF this assms(3)]
  show "call_keeps (job_contract j) (job_world s p r) w" "always (call_keeps (job_contract j)) k" by simp_all
qed

lemma jobs_polite_update:
  "jobs_polite s \<Longrightarrow> always (call_keeps (job_contract j)) k \<Longrightarrow> ss_jobs s' = (ss_jobs s)(j := k) \<Longrightarrow> jobs_polite s'"
  by (simp add: jobs_polite_def)

lemma serving_step_polite:
  assumes "serving_step rc scan env fmt parseF conv (s, p, r) (s', p', r')" "jobs_polite s"
  shows "jobs_polite s'"
  using assms(1)
proof (cases rule: serving_step.cases)
  case (srv_call j f w k)
  show ?thesis by (rule jobs_polite_update [OF assms(2) jobs_polite_after(2) [OF assms(2) srv_call(3,4)]])
      (use srv_call(1) in \<open>simp add: after_call_def\<close>)
next
  case (srv_heartbeat clock)
  show ?thesis by (rule jobs_polite_update [OF assms(2), of Heartbeat])
      (use srv_heartbeat heartbeat_always in \<open>auto simp: start_tick_def job_contract_def\<close>)
next
  case srv_deviation
  show ?thesis by (rule jobs_polite_update [OF assms(2), of Deviation])
      (use srv_deviation deviation_always in \<open>auto simp: start_tick_def job_contract_def\<close>)
next
  case (srv_stops stop_clock)
  show ?thesis by (rule jobs_polite_update [OF assms(2), of Stops])
      (use srv_stops stop_always in \<open>auto simp: start_tick_def job_contract_def\<close>)
next
  case (srv_eta clock)
  show ?thesis by (rule jobs_polite_update [OF assms(2), of Eta])
      (use srv_eta eta_always in \<open>auto simp: start_tick_def job_contract_def\<close>)
qed (use assms(2) in \<open>auto simp: jobs_polite_def finished_request_def\<close>)

lemma serving_step_telemetry:
  assumes "serving_step rc scan env fmt parseF conv (s, p, r) (s', p', r')" "jobs_polite s"
  shows "obeys same_telemetry p p'"
  using assms(1)
proof (cases rule: serving_step.cases)
  case (srv_call j f w k)
  then show ?thesis
    using obeys_mono [OF _ job_contract_telemetry] jobs_polite_after(1) [OF assms(2) srv_call(3,4)]
    by (auto simp: after_call_def call_keeps_def)
qed (auto simp: tel.keeps_refl dest!: serve_api_keeps elim!: obeys_mono intro: guarantees_imp(3))

lemma srv_ws_case: "hub_heap h c = None \<Longrightarrow> ch_send c (hub_register h) = Sent ch \<Longrightarrow> hub_reachable h \<Longrightarrow>
    hub_reachable (h\<lparr>hub_heap := (hub_heap h)(c \<mapsto> newClient f), hub_register := ch\<rparr>)"
  by (rule hub_reachable.env, assumption, rule env_case.connect)

lemma reachable_env: "hub_reachable h \<Longrightarrow> env_case\<^sup>*\<^sup>* h h' \<Longrightarrow> hub_reachable h'"
  by (rotate_tac, induction rule: rtranclp_induct) (auto intro: hub_reachable.env)

lemma serving_step_hub:
  assumes "serving_step rc scan env fmt parseF conv (s, p, r) (s', p', r')" "jobs_polite s" "hub_reachable (ss_hub s)"
  shows "hub_reachable (ss_hub s')"
  using assms(1)
proof (cases rule: serving_step.cases)
  case (srv_ws_opened q vals now now' a c ch)
  then show ?thesis using srv_ws_case [OF _ _ assms(3)] by (simp add: finished_request_def)
next
  case (srv_call j f w k)
  then show ?thesis
    using jobs_polite_after(1) [OF assms(2)] reachable_env [OF assms(3)] by (auto simp: after_call_def call_keeps_def)
next
  case (srv_hub h)
  then show ?thesis using hub_reachable.run [OF assms(3)] by simp
next
  case (srv_client h)
  then show ?thesis using hub_reachable.env [OF assms(3)] by simp
qed (simp_all add: assms(3) start_tick_def finished_request_def)

text \<open>On typed tables: the stop detector is safe among the others, and the others leave the trips alone.\<close>

definition stops_ok :: "'r serving_sys \<Rightarrow> pg \<Rightarrow> 'r \<Rightarrow> bool" where
  "stops_ok s p r \<longleftrightarrow> safe trips_rely (call_keeps stops_guarantee) (\<lambda>v. True) (job_world s p r) (ss_jobs s Stops)"

lemma stops_ok_others:
  assumes "stops_ok s p r" "others_keep p p'" "ss_jobs s' Stops = ss_jobs s Stops"
  shows "stops_ok s' p' r'"
  using among.safe_env [OF assms(1) [unfolded stops_ok_def], of "job_world s' p' r'"] assms(2,3)
  by (simp add: stops_ok_def trips_rely_def)

lemma serving_step_typed:
  assumes "serving_step rc scan env fmt parseF conv (s, p, r) (s', p', r')" "jobs_polite s" "stops_ok s p r" "db_typed (pg_db p)"
  shows "obeys db_guarantee p p' \<and> stops_ok s' p' r'"
  using assms(1)
proof (cases rule: serving_step.cases)
  case (srv_api q e vals t now now' resp a)
  then have "others_keep p p'" by (auto dest!: serve_api_keeps elim!: obeys_mono intro: guarantees_imp(2))
  then show ?thesis
    using stops_ok_others [OF assms(3)] srv_api(1) by (auto simp: finished_request_def elim!: obeys_mono intro: guarantees_imp(5))
next
  case (srv_stops stop_clock)
  then show ?thesis
    using stop_safe [of "job_world s' p r"] assms(4) by (simp add: stops_ok_def start_tick_def both.keeps_refl)
next
  case (srv_call j f w k)
  show ?thesis
  proof (cases "j = Stops")
    case True
    have "call_keeps stops_guarantee (job_world s p r) w \<and> safe trips_rely (call_keeps stops_guarantee) (\<lambda>v. True) w k"
      by (rule among.safe_step [where f = f]) (use assms(3) srv_call(3,4) True in \<open>simp_all add: stops_ok_def\<close>)
    moreover have "job_world s' p' r' = w" "ss_jobs s' Stops = k" "p' = jw_pg w"
      using srv_call(1) True by (auto simp: after_call_def job_world_def)
    ultimately show ?thesis
      using obeys_mono [OF _ guarantees_imp(4)] by (auto simp: stops_ok_def call_keeps_def)
  next
    case False
    then have "others_keep p p'"
      using jobs_polite_after(1) [OF assms(2) srv_call(3,4)] srv_call(1)
      by (auto simp: after_call_def call_keeps_def job_contract_def elim!: obeys_mono intro: guarantees_imp(2))
    then show ?thesis
      using stops_ok_others [OF assms(3)] srv_call(1) False
      by (auto simp: after_call_def elim!: obeys_mono intro: guarantees_imp(5))
  qed
qed (use stops_ok_others [OF assms(3) oth.keeps_refl] in \<open>auto simp: both.keeps_refl start_tick_def finished_request_def\<close>)

section \<open>The whole system\<close>

text \<open>A ping of the pool runs no statement of ours: it leaves the tables and invents no failures.\<close>

definition ping_reads :: "(pg \<Rightarrow> string option \<times> pg) \<Rightarrow> bool" where
  "ping_reads ping \<longleftrightarrow> (\<forall>p. reads p (snd (ping p)))"

lemma serving_start_Inr:
  assumes "serving_start senv newPool ping rc w = (Inr sp, p, r)"
  shows "p = snd (ping (fst w)) \<and> sp_hub sp = NewHub"
proof -
  let ?cfg = "serving_Load senv"
  let ?conn = "connStr (sc_DBUser ?cfg) (sc_DBPassword ?cfg) (sc_DBHost ?cfg) (sc_DBPort ?cfg) (sc_DBName ?cfg) (sc_DBMaxConns ?cfg)"
  obtain e p1 where p1: "ping (fst w) = (e, p1)" by fastforce
  obtain e' r1 where r1: "cmd_Ping rc (snd w) = (e', r1)" by fastforce
  note defs = serving_start_def srv_NewTimescaleStore_def srv_NewRedisStore_def Let_def
  have "newPool ?conn = None" using assms by (cases "newPool ?conn") (simp_all add: defs)
  moreover from this have "e = None" using assms p1 by (cases e) (simp_all add: defs)
  moreover from calculation have "e' = None" using assms p1 r1 by (cases e') (simp_all add: defs)
  ultimately show ?thesis using assms p1 r1 by (auto simp: defs)
qed

lemma fleet_start_Inr:
  assumes "fleet_start ienv senv newPool ping bind rc st = Inr s" "ping_reads ping"
  obtains i p r where "ingest_start ienv newPool ping bind rc st = Inr i" "fl_ingest s = i\<lparr>sy_pg := p, sy_redis := r\<rparr>"
    "reads (fst st) (sy_pg i)" "reads (sy_pg i) p" "ss_hub (fl_serving s) = NewHub"
    "ss_jobs (fl_serving s) = (\<lambda>j. Done)"
proof -
  obtain i where i: "ingest_start ienv newPool ping bind rc st = Inr i"
    using assms(1) by (auto simp: fleet_start_def split: sum.splits)
  obtain sp p r where sp: "serving_start senv newPool ping rc (sy_pg i, sy_redis i) = (Inr sp, p, r)"
    and s: "s = \<lparr>fl_ingest = i\<lparr>sy_pg := p, sy_redis := r\<rparr>, fl_serving = serving_boot bind sp\<rparr>"
    using assms(1) i by (auto simp: fleet_start_def split: prod.splits sum.splits)
  have "sy_pg i = snd (ping (fst st))"
    by (rule ingest_start_Inr [OF i]) (simp add: sys_init_def)
  then show ?thesis
    using that [OF i, of r p] s serving_start_Inr [OF sp] assms(2) by (simp add: ping_reads_def serving_boot_def)
qed

text \<open>One step of the system, seen from the database, from the ingestion process and from the hub.\<close>

lemma fleet_step_components:
  assumes "fleet_step rc scan co w env fmt parseF conv s t" "jobs_polite (fl_serving s)"
  shows "jobs_polite (fl_serving t) \<and> sys_step rc co w (fl_ingest s) (fl_ingest t) \<and>
    (hub_reachable (ss_hub (fl_serving s)) \<longrightarrow> hub_reachable (ss_hub (fl_serving t)))"
  using assms
proof (induction rule: fleet_step.induct)
  case (serving s v p r)
  from serving_step_telemetry [OF this] have "sys_step rc co w (fl_ingest s) ((fl_ingest s)\<lparr>sy_pg := p, sy_redis := r\<rparr>)"
    by (auto simp: obeys_def same_telemetry_def intro: sys_step.others)
  then show ?case using serving_step_polite [OF serving] serving_step_hub [OF serving] by simp
qed (auto intro: sys_step.own sys_step.others)

lemma fleet_steps_components:
  assumes "(fleet_step rc scan co w env fmt parseF conv)\<^sup>*\<^sup>* s t" "jobs_polite (fl_serving s)"
  shows "jobs_polite (fl_serving t) \<and> (sys_step rc co w)\<^sup>*\<^sup>* (fl_ingest s) (fl_ingest t) \<and>
    (hub_reachable (ss_hub (fl_serving s)) \<longrightarrow> hub_reachable (ss_hub (fl_serving t)))"
  using assms
proof (induction rule: rtranclp_induct)
  case (step t u)
  then show ?case using fleet_step_components [OF step.hyps(2)] by (auto intro: rtranclp.rtrancl_into_rtrancl)
qed simp

definition fleet_ok :: "'r fleet \<Rightarrow> bool" where
  "fleet_ok s \<longleftrightarrow> jobs_polite (fl_serving s) \<and> db_typed (pg_db (sy_pg (fl_ingest s))) \<and>
     stops_ok (fl_serving s) (sy_pg (fl_ingest s)) (sy_redis (fl_ingest s))"

lemma fleet_step_ok:
  assumes "fleet_step rc scan co w env fmt parseF conv s t" "fleet_ok s"
  shows "db_evolves (pg_db (sy_pg (fl_ingest s))) (pg_db (sy_pg (fl_ingest t))) \<and> fleet_ok t"
proof -
  have "obeys db_guarantee (sy_pg (fl_ingest s)) (sy_pg (fl_ingest t)) \<and>
      stops_ok (fl_serving t) (sy_pg (fl_ingest t)) (sy_redis (fl_ingest t))"
    using assms
  proof (induction rule: fleet_step.induct)
    case (ingesting s i)
    have kept: "others_keep (sy_pg (fl_ingest s)) (sy_pg i)" by (rule process_step_keeps [OF ingesting(1)])
    have "stops_ok (fl_serving s) (sy_pg i) (sy_redis i)"
      by (rule stops_ok_others [OF _ kept]) (use ingesting(2) in \<open>auto simp: fleet_ok_def\<close>)
    then show ?case using obeys_mono [OF kept] guarantees_imp(5) by simp
  next
    case (serving s v p r)
    then show ?case using serving_step_typed [OF serving(1)] by (simp add: fleet_ok_def)
  next
    case (elapse s t r)
    have "others_keep (sy_pg (fl_ingest s)) ((sy_pg (fl_ingest s))\<lparr>pg_now := t\<rparr>)" by (simp add: obeys_def oth.G_refl)
    moreover from this have "stops_ok (fl_serving s) ((sy_pg (fl_ingest s))\<lparr>pg_now := t\<rparr>) r"
      by (rule stops_ok_others [rotated]) (use elapse(2) in \<open>auto simp: fleet_ok_def\<close>)
    ultimately show ?case by (simp add: obeys_mono [OF _ guarantees_imp(5)])
  qed
  then show ?thesis
    using assms(2) fleet_step_components [OF assms(1)] by (simp add: fleet_ok_def obeys_def db_guarantee_def)
qed

lemma fleet_steps_ok:
  assumes "(fleet_step rc scan co w env fmt parseF conv)\<^sup>*\<^sup>* s t" "fleet_ok s"
  shows "db_evolves (pg_db (sy_pg (fl_ingest s))) (pg_db (sy_pg (fl_ingest t))) \<and> fleet_ok t"
  using assms by (induction rule: rtranclp_induct) (auto dest: fleet_step_ok intro: db_evolves_trans)

text \<open>The ingestion process runs inside the system.\<close>

lemma process_steps_fleet:
  "(process_step rc co w)\<^sup>*\<^sup>* (fl_ingest s) i \<Longrightarrow> (fleet_step rc scan co w env fmt parseF conv)\<^sup>*\<^sup>* s (s\<lparr>fl_ingest := i\<rparr>)"
proof (induction rule: rtranclp_induct)
  case (step i j)
  have "fleet_step rc scan co w env fmt parseF conv (s\<lparr>fl_ingest := i\<rparr>) (s\<lparr>fl_ingest := i\<rparr>\<lparr>fl_ingest := j\<rparr>)"
    by (rule fleet_step.ingesting) (use step.hyps(2) in simp)
  then show ?case using step.IH by simp
qed simp

lemma internal_steps_fleet:
  "(sys_internal rc w)\<^sup>*\<^sup>* (fl_ingest s) i \<Longrightarrow> (fleet_step rc scan co w env fmt parseF conv)\<^sup>*\<^sup>* s (s\<lparr>fl_ingest := i\<rparr>)"
  by (rule process_steps_fleet, rule rtranclp_mono [THEN predicate2D]) (auto intro: internal)

lemma fleet_ingest_run:
  assumes "fleet_start ienv senv newPool ping bind rc st = Inr s0" "ping_reads ping"
    and "(fleet_step rc scan co w env fmt parseF conv)\<^sup>*\<^sup>* s0 s"
  obtains i where "ingest_start ienv newPool ping bind rc st = Inr i" "reads (fst st) (sy_pg i)"
    "(sys_step rc co w)\<^sup>*\<^sup>* i (fl_ingest s)" "jobs_polite (fl_serving s0)" "ss_hub (fl_serving s0) = NewHub"
proof -
  obtain i p r where i: "ingest_start ienv newPool ping bind rc st = Inr i" "fl_ingest s0 = i\<lparr>sy_pg := p, sy_redis := r\<rparr>"
      "reads (fst st) (sy_pg i)" "reads (sy_pg i) p" "ss_hub (fl_serving s0) = NewHub" "ss_jobs (fl_serving s0) = (\<lambda>j. Done)"
    using fleet_start_Inr [OF assms(1,2)] by blast
  have polite: "jobs_polite (fl_serving s0)" by (simp add: jobs_polite_def i(6))
  have "sys_step rc co w i (fl_ingest s0)"
    unfolding i(2) by (rule sys_step.others) (use i(4) in \<open>simp_all add: obeys_def\<close>)
  then have "(sys_step rc co w)\<^sup>*\<^sup>* i (fl_ingest s)"
    using fleet_steps_components [OF assms(3) polite] by (simp add: converse_rtranclp_into_rtranclp)
  then show ?thesis using that i(1,3,5) polite by blast
qed

section \<open>Properties\<close>

text \<open>C6. The database stays well typed under both services together: from tables that satisfy every key and constraint, in every
  state the whole system can reach, whatever requests arrive, whatever fails and however the processes, the workers and the
  calls of the jobs interleave, the tables satisfy them again; and they have only evolved: telemetry was appended, no alert was
  removed and what an alert reports did not change, a trip went at most from in progress to completed (its time of completion
  may be set again), stops moved forward only, and the registries are as they were.\<close>

theorem fleet_database_typed:
  assumes "fleet_start ienv senv newPool ping bind rc st = Inr s0" "ping_reads ping" "db_typed (pg_db (fst st))"
    and "(fleet_step rc scan co (process_writer ienv) env fmt parseF conv)\<^sup>*\<^sup>* s0 s"
  shows "db_typed (pg_db (sy_pg (fl_ingest s))) \<and> db_evolves (pg_db (fst st)) (pg_db (sy_pg (fl_ingest s)))"
proof -
  obtain i p r where i: "fl_ingest s0 = i\<lparr>sy_pg := p, sy_redis := r\<rparr>" "reads (fst st) (sy_pg i)" "reads (sy_pg i) p"
      "ss_jobs (fl_serving s0) = (\<lambda>j. Done)"
    using fleet_start_Inr [OF assms(1,2)] by blast
  then have start: "pg_db (sy_pg (fl_ingest s0)) = pg_db (fst st)" by (simp add: obeys_def)
  then have "fleet_ok s0" using i(4) assms(3) by (simp add: fleet_ok_def jobs_polite_def stops_ok_def safe_Done)
  then show ?thesis using fleet_steps_ok [OF assms(4)] start by (simp add: fleet_ok_def)
qed

text \<open>A tick that nothing interrupts is among the runs.\<close>

lemma job_runs:
  assumes "ss_main s \<noteq> ServingExited" "ss_jobs s j = k"
  shows "(serving_step rc scan env fmt parseF conv)\<^sup>*\<^sup>* (s, p, r) (after_call j (run k (job_world s p r)) Done s)"
  using assms
proof (induction k arbitrary: s p r)
  case Done
  then have "after_call j (job_world s p r) Done s = (s, p, r)" by (simp add: after_call_def fun_upd_idem)
  then show ?case by simp
next
  case (Call f)
  obtain w k where f: "f (job_world s p r) = (w, k)" by fastforce
  obtain s' where s': "after_call j w k s = (s', jw_pg w, jw_redis w)" "s' = s\<lparr>ss_jobs := (ss_jobs s)(j := k), ss_hub := jw_hub w\<rparr>"
    by (simp add: after_call_def)
  have "serving_step rc scan env fmt parseF conv (s, p, r) (s', jw_pg w, jw_redis w)"
    using srv_call [OF Call.prems f] s'(1) by simp
  moreover have "(serving_step rc scan env fmt parseF conv)\<^sup>*\<^sup>* (s', jw_pg w, jw_redis w)
      (after_call j (run k (job_world s' (jw_pg w) (jw_redis w))) Done s')"
    by (rule Call.IH [OF rangeI, of _ "job_world s p r"]) (use Call.prems s'(2) in \<open>simp_all add: f snds.simps\<close>)
  moreover have "job_world s' (jw_pg w) (jw_redis w) = w" by (simp add: s'(2) job_world_def)
  moreover have "after_call j v Done s' = after_call j v Done s" for v by (simp add: after_call_def s'(2))
  ultimately show ?case using f by (simp add: converse_rtranclp_into_rtranclp)
qed

lemma serving_steps_fleet:
  assumes "(serving_step rc scan env fmt parseF conv)\<^sup>*\<^sup>* (fl_serving s, sy_pg (fl_ingest s), sy_redis (fl_ingest s)) (v, p, r)"
  shows "(fleet_step rc scan co w env fmt parseF conv)\<^sup>*\<^sup>* s
    (s\<lparr>fl_serving := v, fl_ingest := (fl_ingest s)\<lparr>sy_pg := p, sy_redis := r\<rparr>\<rparr>)"
  using assms
proof (induction "(v, p, r)" arbitrary: v p r rule: rtranclp_induct)
  case (step y v p r)
  obtain v0 p0 r0 where y: "y = (v0, p0, r0)" by (metis prod_cases3)
  let ?t = "s\<lparr>fl_serving := v0, fl_ingest := (fl_ingest s)\<lparr>sy_pg := p0, sy_redis := r0\<rparr>\<rparr>"
  have "fleet_step rc scan co w env fmt parseF conv ?t (?t\<lparr>fl_serving := v, fl_ingest := (fl_ingest ?t)\<lparr>sy_pg := p, sy_redis := r\<rparr>\<rparr>)"
    by (rule fleet_step.serving) (use step.hyps(2) y in simp)
  then show ?case using step.hyps(3) [OF y] by simp
qed simp

definition sample_fleet :: "mem_redis fleet" where
  "sample_fleet = \<lparr>fl_ingest = sys_init (\<lambda>_. None) (the (ingest_main (ingest_Load (\<lambda>_. [])))) (jw_pg skip_world, jw_redis skip_world),
     fl_serving = serving_boot (\<lambda>_. None) (case serving_start (\<lambda>_. []) (\<lambda>_. None) (\<lambda>p. (None, p)) skip_client
       (jw_pg skip_world, jw_redis skip_world) of (Inr sp, w) \<Rightarrow> sp)\<rparr>"

lemma skip_ping: "cmd_Ping skip_client (jw_redis skip_world) = (None, jw_redis skip_world)"
  by (simp add: mem_Ping_def mem_faulty_def skip_world_def mem_empty_def)

lemma sample_fleet_started:
  "fleet_start (\<lambda>_. []) (\<lambda>_. []) (\<lambda>_. None) (\<lambda>p. (None, p)) (\<lambda>_. None) skip_client (jw_pg skip_world, jw_redis skip_world) =
     Inr sample_fleet"
proof -
  have "\<exists>pr. ingest_main (ingest_Load (\<lambda>_. [])) = Some pr \<and> \<not> list_ex (\<lambda>dw. flush_ticker dw = None) (pr_dbWriters pr)"
    by (simp add: ingest_main_def ingest_Load_def getEnvInt_unset NewDispatcher_def make_chan_def list_ex_iff
        flush_ticker_def NewDBWriter_def duration_of_exact Millisecond_def in_int64_def)
  then have i: "ingest_start (\<lambda>_. []) (\<lambda>_. None) (\<lambda>p. (None, p)) (\<lambda>_. None) skip_client (jw_pg skip_world, jw_redis skip_world) =
      Inr (fl_ingest sample_fleet)"
    using skip_ping by (auto simp: ingest_start_def NewTimescaleStore_def NewRedisStore_def sample_fleet_def Let_def)
  have w: "sy_pg (fl_ingest sample_fleet) = jw_pg skip_world" "sy_redis (fl_ingest sample_fleet) = jw_redis skip_world"
    by (simp_all add: sample_fleet_def sys_init_def)
  obtain sp where sp: "serving_start (\<lambda>_. []) (\<lambda>_. None) (\<lambda>p. (None, p)) skip_client (jw_pg skip_world, jw_redis skip_world) =
      (Inr sp, jw_pg skip_world, jw_redis skip_world)"
    using skip_ping by (simp add: serving_start_def srv_NewTimescaleStore_def srv_NewRedisStore_def Let_def)
  show ?thesis using i w sp by (simp add: fleet_start_def sample_fleet_def)
qed

lemma sample_fleet_sel:
  "sy_pg (fl_ingest sample_fleet) = jw_pg skip_world" "sy_redis (fl_ingest sample_fleet) = jw_redis skip_world"
  "ss_hub (fl_serving sample_fleet) = NewHub" "ss_jobs (fl_serving sample_fleet) = (\<lambda>j. Done)" "ss_main (fl_serving sample_fleet) = ServingWaiting" "\<not> ss_done (fl_serving sample_fleet)"
  using skip_ping
  by (simp_all add: sample_fleet_def sys_init_def serving_boot_def serving_start_def srv_NewTimescaleStore_def srv_NewRedisStore_def Let_def)

text \<open>The stop detector of the sample system completes the trip.\<close>

definition sample_fleet_done :: "mem_redis fleet" where
  "sample_fleet_done =
     (let w = stop_tick skip_client skip_parse (\<lambda>_. []) (\<lambda>_ _. 5) skip_world in
      sample_fleet\<lparr>fl_serving := (fl_serving sample_fleet)\<lparr>ss_hub := jw_hub w\<rparr>,
        fl_ingest := (fl_ingest sample_fleet)\<lparr>sy_pg := jw_pg w, sy_redis := jw_redis w\<rparr>\<rparr>)"

lemma sample_fleet_runs:
  "(fleet_step skip_client scan co w env (\<lambda>_. []) skip_parse conv)\<^sup>*\<^sup>* sample_fleet sample_fleet_done"
proof -
  let ?s = "fl_serving sample_fleet" and ?k = "stop_prog skip_client skip_parse (\<lambda>_. []) (\<lambda>_ _. 5)"
  let ?p = "jw_pg skip_world" and ?r = "jw_redis skip_world" and ?w = "stop_tick skip_client skip_parse (\<lambda>_. []) (\<lambda>_ _. 5) skip_world"
  let ?step = "serving_step skip_client scan env (\<lambda>_. []) skip_parse conv"
  have "?step (?s, ?p, ?r) (start_tick Stops ?k ?s, ?p, ?r)"
    by (rule srv_stops) (simp_all add: sample_fleet_sel)
  moreover have "?step\<^sup>*\<^sup>* (start_tick Stops ?k ?s, ?p, ?r) (after_call Stops (run ?k (job_world (start_tick Stops ?k ?s) ?p ?r)) Done
      (start_tick Stops ?k ?s))"
    by (rule job_runs) (simp_all add: start_tick_def sample_fleet_sel)
  moreover have "job_world (start_tick Stops ?k ?s) ?p ?r = skip_world"
    by (simp add: job_world_def start_tick_def sample_fleet_sel skip_world_def)
  moreover have "after_call Stops ?w Done (start_tick Stops ?k ?s) = (?s\<lparr>ss_hub := jw_hub ?w\<rparr>, jw_pg ?w, jw_redis ?w)"
    by (simp add: after_call_def start_tick_def sample_fleet_sel fun_upd_idem)
  ultimately have "?step\<^sup>*\<^sup>* (?s, ?p, ?r) (?s\<lparr>ss_hub := jw_hub ?w\<rparr>, jw_pg ?w, jw_redis ?w)"
    by (simp add: run_stops converse_rtranclp_into_rtranclp)
  then show ?thesis
    using serving_steps_fleet [where s = sample_fleet] by (simp add: sample_fleet_done_def Let_def sample_fleet_sel)
qed

lemma ping_reads_sample: "ping_reads (\<lambda>p. (None, p))"
  by (simp add: ping_reads_def rd.keeps_refl)

theorem fleet_database_typed_witness:
  "map tr_status (trip (pg_db (sy_pg (fl_ingest sample_fleet_done)))) = [TripCompleted] \<and>
   db_typed (pg_db (sy_pg (fl_ingest sample_fleet_done))) \<and>
   db_evolves skip_db (pg_db (sy_pg (fl_ingest sample_fleet_done)))"
proof -
  have "db_typed (pg_db (jw_pg skip_world))"
    by (simp add: skip_world_def skip_db_def db_typed_def workflow_inv_def alerts_wf_def registry_wf_def empty_db_def
        chk_trip_status_def chk_stop_status_def)
  then have "db_typed (pg_db (sy_pg (fl_ingest sample_fleet_done))) \<and>
      db_evolves (pg_db (jw_pg skip_world)) (pg_db (sy_pg (fl_ingest sample_fleet_done)))"
    using fleet_database_typed [OF sample_fleet_started ping_reads_sample _ sample_fleet_runs] by simp
  moreover have "map tr_status (trip (pg_db (sy_pg (fl_ingest sample_fleet_done)))) = [TripCompleted]"
    using skipped_stop_stays_pending by (simp add: sample_fleet_done_def Let_def)
  ultimately show ?thesis by (simp add: skip_world_def)
qed

text \<open>C25. Beside the serving service the ingestion process runs as it does among arbitrary other clients that leave the
  telemetry table alone, and the hub runs as it does in its own environment: every run of the whole system is, seen from
  the ingestion process, a run of \<open>sys_step\<close> from its start, and its hub is in a reachable state of its own transition system, in which no case of
  its loop panics.\<close>

theorem fleet_refines_components:
  assumes "fleet_start ienv senv newPool ping bind rc st = Inr s0" "ping_reads ping"
    and "(fleet_step rc scan co (process_writer ienv) env fmt parseF conv)\<^sup>*\<^sup>* s0 s"
  shows "\<exists>i0. ingest_start ienv newPool ping bind rc st = Inr i0 \<and>
     (sys_step rc co (process_writer ienv))\<^sup>*\<^sup>* i0 (fl_ingest s) \<and>
     hub_reachable (ss_hub (fl_serving s)) \<and> (\<forall>h. run_case (ss_hub (fl_serving s)) h \<longrightarrow> h \<noteq> None)"
proof -
  obtain i where i: "ingest_start ienv newPool ping bind rc st = Inr i"
      "(sys_step rc co (process_writer ienv))\<^sup>*\<^sup>* i (fl_ingest s)" "jobs_polite (fl_serving s0)" "ss_hub (fl_serving s0) = NewHub"
    by (rule fleet_ingest_run [OF assms])
  have hub: "hub_reachable (ss_hub (fl_serving s))"
    using fleet_steps_components [OF assms(3) i(3)] i(4) hub_reachable.start by simp
  then have "h \<noteq> None" if "run_case (ss_hub (fl_serving s)) h" for h
    using run_case_inv [OF reachable_inv [OF hub] that] by blast
  then show ?thesis using i(1,2) hub by blast
qed

theorem fleet_refines_components_witness:
  "hub_reachable (ss_hub (fl_serving sample_fleet_done)) \<and>
   (\<exists>i0. (sys_step skip_client sample_codec (process_writer (\<lambda>_. [])))\<^sup>*\<^sup>* i0 (fl_ingest sample_fleet_done))"
  using fleet_refines_components [OF sample_fleet_started ping_reads_sample sample_fleet_runs [where co = sample_codec]] by blast


text \<open>A system in which a message is accepted.\<close>

lemma sample_system:
  "\<exists>v. fleet_start (\<lambda>_. []) (\<lambda>_. []) (\<lambda>_. None) (\<lambda>p. (None, p)) (\<lambda>_. None) sample_client (sample_pg [], key_redis) =
     Inr \<lparr>fl_ingest = sample_sys, fl_serving = v\<rparr>"
proof -
  have "cmd_Ping sample_client key_redis = (None, key_redis)"
    by (simp add: mem_Ping_def mem_faulty_def key_redis_def sample_redis_def mem_empty_def)
  then obtain sp where "serving_start (\<lambda>_. []) (\<lambda>_. None) (\<lambda>p. (None, p)) sample_client (sample_pg [], key_redis) =
      (Inr sp, sample_pg [], key_redis)"
    by (simp add: serving_start_def srv_NewTimescaleStore_def srv_NewRedisStore_def Let_def)
  moreover have "sample_sys\<lparr>sy_pg := sample_pg [], sy_redis := key_redis\<rparr> = sample_sys"
    using sample_sys_sel(2,8) by (metis (no_types, lifting) ingest_sys.surjective ingest_sys.update_convs)
  ultimately show ?thesis using sample_started sample_sys_sel(2,8) by (simp add: fleet_start_def)
qed


end
