(* ===== verification/Serving_Client.thy ===== *)
theory Serving_Client
  imports Serving_Ws
begin

text \<open>
  The read pump of a WebSocket client (\<open>src/serving/internal/ws/client.go\<close>) and its deadlines.

  What the pump sees is a sequence of timed events: a message that \<open>ReadMessage\<close> returns, a call of the pong handler from
  inside \<open>ReadMessage\<close>, or an error of \<open>ReadMessage\<close>; after the last one the peer is silent. A read that is waiting
  when the deadline passes fails with a timeout. \<open>websocket.IsUnexpectedCloseError\<close> is a parameter.
\<close>

section \<open>The read pump\<close>

definition writeDeadline :: duration where "writeDeadline = 10 * Second"

definition readDeadline :: duration where "readDeadline = 60 * Second"

definition pingInterval :: duration where "pingInterval = 30 * Second"

datatype read_err = CloseError int | OtherError string

datatype read_event = MessageRead | PongHandled | ReadFailed read_err

definition CloseNormalClosure :: int where "CloseNormalClosure = 1000"

definition CloseGoingAway :: int where "CloseGoingAway = 1001"

definition CloseNoStatusReceived :: int where "CloseNoStatusReceived = 1005"

definition expected_closes :: "int list" where
  "expected_closes = [CloseGoingAway, CloseNormalClosure, CloseNoStatusReceived]"

definition read_timeout :: read_err where
  "read_timeout = OtherError ''i/o timeout''"

text \<open>The loop from a deadline on: when it returns, the error, and whether the error was logged.\<close>

fun read_loop :: "(read_err \<Rightarrow> int list \<Rightarrow> bool) \<Rightarrow> time \<Rightarrow> (time \<times> read_event) list \<Rightarrow> time \<times> read_err \<times> bool" where
  "read_loop unexpected deadline [] = (deadline, read_timeout, unexpected read_timeout expected_closes)"
| "read_loop unexpected deadline ((t, ev) # evs) =
     (if deadline \<le> t then (deadline, read_timeout, unexpected read_timeout expected_closes)
      else case ev of
             MessageRead \<Rightarrow> read_loop unexpected deadline evs
           | PongHandled \<Rightarrow> read_loop unexpected (t + readDeadline) evs
           | ReadFailed err \<Rightarrow> (t, err, unexpected err expected_closes))"

definition readPump :: "(read_err \<Rightarrow> int list \<Rightarrow> bool) \<Rightarrow> time \<Rightarrow> (time \<times> read_event) list \<Rightarrow> time \<times> read_err \<times> bool" where
  "readPump unexpected now evs = read_loop unexpected (now + readDeadline) evs"

section \<open>When the pump returns\<close>

text \<open>The documented behaviour of \<open>IsUnexpectedCloseError\<close>.\<close>

definition detects_unexpected :: "(read_err \<Rightarrow> int list \<Rightarrow> bool) \<Rightarrow> bool" where
  "detects_unexpected unexpected \<longleftrightarrow>
     (\<forall>codes. (\<forall>s. \<not> unexpected (OtherError s) codes) \<and> (\<forall>c. unexpected (CloseError c) codes \<longleftrightarrow> c \<notin> set codes))"

fun last_pong :: "time \<Rightarrow> (time \<times> read_event) list \<Rightarrow> time" where
  "last_pong t0 [] = t0"
| "last_pong t0 ((t, ev) # evs) = last_pong (if ev = PongHandled then t else t0) evs"

definition read_error :: "read_event \<Rightarrow> bool" where
  "read_error ev \<longleftrightarrow> (case ev of ReadFailed err \<Rightarrow> True | _ \<Rightarrow> False)"

lemma read_error_simps [simp]: "\<not> read_error MessageRead" "\<not> read_error PongHandled" "read_error (ReadFailed err)"
  by (simp_all add: read_error_def)

text \<open>The events the pump handled, and what made it return.\<close>

lemma read_loop_end:
  assumes "read_loop unexpected (t0 + readDeadline) evs = (t, err, logged)"
  shows "\<exists>handled rest. evs = handled @ rest \<and> (\<forall>e\<in>set handled. \<not> read_error (snd e)) \<and>
    logged = unexpected err expected_closes \<and>
    (err = read_timeout \<and> t = last_pong t0 handled + readDeadline \<and> (\<forall>u ev evs'. rest = (u, ev) # evs' \<longrightarrow> t \<le> u) \<or>
     t < last_pong t0 handled + readDeadline \<and> (\<exists>evs'. rest = (t, ReadFailed err) # evs'))"
    (is "\<exists>handled rest. ?P t0 evs handled rest")
  using assms
proof (induction evs arbitrary: t0)
  case Nil
  then show ?case by simp
next
  case (Cons e evs)
  obtain u ev where e: "e = (u, ev)" by fastforce
  show ?case
  proof (cases "t0 + readDeadline \<le> u")
    case True
    then have "?P t0 (e # evs) [] (e # evs)" using Cons.prems e by simp
    then show ?thesis by blast
  next
    case False
    show ?thesis
    proof (cases ev)
      case MessageRead
      then have "read_loop unexpected (t0 + readDeadline) evs = (t, err, logged)" using Cons.prems e False by simp
      from Cons.IH [OF this] obtain hs rest where "?P t0 evs hs rest" by blast
      then have "?P t0 (e # evs) (e # hs) rest" using e MessageRead by simp
      then show ?thesis by blast
    next
      case PongHandled
      then have "read_loop unexpected (u + readDeadline) evs = (t, err, logged)" using Cons.prems e False by simp
      from Cons.IH [OF this] obtain hs rest where "?P u evs hs rest" by blast
      then have "?P t0 (e # evs) (e # hs) rest" using e PongHandled by simp
      then show ?thesis by blast
    next
      case (ReadFailed err')
      then have "?P t0 (e # evs) [] (e # evs)" using Cons.prems e False by auto
      then show ?thesis by blast
    qed
  qed
qed

lemma last_pong_from: "sorted (map fst evs) \<Longrightarrow> \<forall>e\<in>set evs. t0 \<le> fst e \<Longrightarrow> t0 \<le> last_pong t0 evs"
  by (induction t0 evs rule: last_pong.induct) (auto split: if_splits)

lemma last_pong_late:
  "sorted (map fst evs) \<Longrightarrow> (u, PongHandled) \<in> set evs \<Longrightarrow> u \<le> last_pong t0 evs"
proof (induction t0 evs rule: last_pong.induct)
  case (2 t0 t ev evs)
  then show ?case using last_pong_from [of evs u] by auto
qed simp

text \<open>A ping is sent every \<open>pingInterval\<close>; the peer answers the first \<open>n\<close> of them before the next is sent.\<close>

definition answers_pings :: "time \<Rightarrow> nat \<Rightarrow> (time \<times> read_event) list \<Rightarrow> bool" where
  "answers_pings now n evs \<longleftrightarrow>
     (\<forall>k\<in>{1..n}. \<exists>u. (u, PongHandled) \<in> set evs \<and> now + int k * pingInterval \<le> u \<and> u < now + int (Suc k) * pingInterval)"

lemma answered_last_pong:
  assumes "sorted (map fst (handled @ rest))" "\<forall>e\<in>set handled. now \<le> fst e" "answers_pings now n (handled @ rest)"
    and "\<forall>e\<in>set rest. last_pong now handled + readDeadline \<le> fst e" "k \<le> n"
  shows "now + int k * pingInterval \<le> last_pong now handled"
  using assms(5)
proof (induction k)
  case 0
  have "sorted (map fst handled)" using assms(1) by (simp add: sorted_append)
  then show ?case using last_pong_from [of handled now] assms(2) by simp
next
  case (Suc k)
  from assms(3) Suc.prems obtain u where u: "(u, PongHandled) \<in> set (handled @ rest)"
      "now + int (Suc k) * pingInterval \<le> u" "u < now + int (Suc (Suc k)) * pingInterval"
    unfolding answers_pings_def by (metis Suc_le_mono atLeastAtMost_iff le0 One_nat_def)
  then have "u < last_pong now handled + readDeadline"
    using Suc by (simp add: readDeadline_def pingInterval_def algebra_simps)
  then have "(u, PongHandled) \<in> set handled" using u(1) assms(4) by fastforce
  moreover have "sorted (map fst handled)" using assms(1) by (simp add: sorted_append)
  ultimately have "u \<le> last_pong now handled" using last_pong_late by blast
  then show ?case using u(2) by linarith
qed

section \<open>Property\<close>

text \<open>C28. Dead peers are dropped and live ones are kept: whatever the peer sends, the read pump returns at most a minute after the last
  pong it handled (or its start), messages do not prolong it; if nothing fails and the peer answers each of the first \<open>n\<close>
  pings before the next one is sent, the pump runs for at least a minute after the \<open>n\<close>-th ping; and only a close
  frame with a code other than 1000, 1001 and 1005 is logged.\<close>

theorem readPump_keepalive:
  assumes "readPump unexpected now evs = (t, err, logged)" "sorted (map fst evs)" "\<forall>e\<in>set evs. now \<le> fst e"
    and "detects_unexpected unexpected"
  shows "(\<exists>handled rest. evs = handled @ rest \<and> t \<le> last_pong now handled + readDeadline \<and>
       (err = read_timeout \<and> t = last_pong now handled + readDeadline \<or> (\<exists>evs'. rest = (t, ReadFailed err) # evs'))) \<and>
    ((\<forall>e\<in>set evs. \<not> read_error (snd e)) \<and> answers_pings now n evs \<longrightarrow>
       err = read_timeout \<and> now + int n * pingInterval + readDeadline \<le> t) \<and>
    (logged \<longleftrightarrow> (\<exists>c. err = CloseError c \<and> c \<notin> {1000, 1001, 1005}))"
proof -
  from read_loop_end [OF assms(1) [unfolded readPump_def]] obtain handled rest where
    evs: "evs = handled @ rest" and ok: "\<forall>e\<in>set handled. \<not> read_error (snd e)"
    and log: "logged = unexpected err expected_closes"
    and fin: "err = read_timeout \<and> t = last_pong now handled + readDeadline \<and> (\<forall>u ev evs'. rest = (u, ev) # evs' \<longrightarrow> t \<le> u) \<or>
     t < last_pong now handled + readDeadline \<and> (\<exists>evs'. rest = (t, ReadFailed err) # evs')" by blast
  have "err = read_timeout \<and> now + int n * pingInterval + readDeadline \<le> t"
    if healthy: "\<forall>e\<in>set evs. \<not> read_error (snd e)" and ans: "answers_pings now n evs"
  proof -
    from fin healthy have to: "err = read_timeout" "t = last_pong now handled + readDeadline"
      "\<forall>u ev evs'. rest = (u, ev) # evs' \<longrightarrow> t \<le> u" by (auto simp: evs)
    then have "\<forall>e\<in>set rest. last_pong now handled + readDeadline \<le> fst e"
      using assms(2) by (cases rest) (auto simp: evs sorted_append)
    then have "now + int n * pingInterval \<le> last_pong now handled"
      using answered_last_pong [of handled rest now n n] assms(2,3) ans by (simp add: evs)
    then show ?thesis using to by simp
  qed
  moreover have "logged \<longleftrightarrow> (\<exists>c. err = CloseError c \<and> c \<notin> {1000, 1001, 1005})"
    using assms(4) by (cases err) (auto simp: log detects_unexpected_def expected_closes_def CloseGoingAway_def
        CloseNormalClosure_def CloseNoStatusReceived_def)
  moreover have "\<exists>handled rest. evs = handled @ rest \<and> t \<le> last_pong now handled + readDeadline \<and>
       (err = read_timeout \<and> t = last_pong now handled + readDeadline \<or> (\<exists>evs'. rest = (t, ReadFailed err) # evs'))"
    using evs fin by (intro exI [of _ handled] exI [of _ rest]) auto
  ultimately show ?thesis by blast
qed

definition sample_unexpected :: "read_err \<Rightarrow> int list \<Rightarrow> bool" where
  "sample_unexpected err codes \<longleftrightarrow> (case err of CloseError c \<Rightarrow> c \<notin> set codes | OtherError s \<Rightarrow> False)"

theorem readPump_keepalive_witness:
  "\<exists>t. readPump sample_unexpected 0 [(31 * Second, PongHandled), (40 * Second, MessageRead), (62 * Second, PongHandled)] =
     (t, read_timeout, False) \<and> 2 * pingInterval + readDeadline \<le> t"
proof -
  let ?evs = "[(31 * Second, PongHandled), (40 * Second, MessageRead), (62 * Second, PongHandled)]"
  obtain t err logged where r: "readPump sample_unexpected 0 ?evs = (t, err, logged)" by (metis prod_cases3)
  have "{1..2} = {1, 2::nat}" by auto
  then have ans: "answers_pings 0 2 ?evs" by (auto simp: answers_pings_def pingInterval_def Second_def)
  have "detects_unexpected sample_unexpected" by (simp add: detects_unexpected_def sample_unexpected_def)
  from readPump_keepalive [OF r _ _ this, of 2] have "err = read_timeout" "2 * pingInterval + readDeadline \<le> t"
    "logged \<longleftrightarrow> (\<exists>c. err = CloseError c \<and> c \<notin> {1000, 1001, 1005})"
    using ans by (simp_all add: Second_def)
  then show ?thesis using r by (auto simp: read_timeout_def)
qed

end
