(* ===== verification/Serving_Domain.thy ===== *)
theory Serving_Domain
  imports Serving_Vehicles
begin

text \<open>
  The rest of \<open>src/serving/internal/domain/types.go\<close>: the row types with the JSON their tags give them, the types and
  severities of alerts, and that the constants of the file are exactly the values the constraints of the tables admit.
\<close>

section \<open>Row types\<close>

record VehicleRegistryRow =
  vrr_VehicleID :: string
  vrr_FleetID :: string
  vrr_DisplayName :: string
  vrr_RegistrationNumber :: string
  vrr_VehicleType :: string
  vrr_CapacityTonnes :: "float64 option"
  vrr_ManufactureYear :: "int option"
  vrr_Active :: bool

definition vehicle_registry_json :: "VehicleRegistryRow \<Rightarrow> json" where
  "vehicle_registry_json v =
     JObj ([(''vehicle_id'', JStr (vrr_VehicleID v)), (''fleet_id'', JStr (vrr_FleetID v)),
        (''display_name'', JStr (vrr_DisplayName v)), (''registration_number'', JStr (vrr_RegistrationNumber v)),
        (''vehicle_type'', JStr (vrr_VehicleType v))] @
       opt_field ''capacity_tonnes'' JNum (vrr_CapacityTonnes v) @ opt_field ''manufacture_year'' JInt (vrr_ManufactureYear v) @
       [(''active'', JBool (vrr_Active v))])"

record DriverRegistryRow =
  drr_DriverID :: string
  drr_FullName :: string
  drr_PhoneNumber :: string
  drr_LicenseNumber :: string
  drr_LicenseExpiry :: string
  drr_Active :: bool

definition driver_registry_json :: "DriverRegistryRow \<Rightarrow> json" where
  "driver_registry_json d =
     JObj [(''driver_id'', JStr (drr_DriverID d)), (''full_name'', JStr (drr_FullName d)),
       (''phone_number'', JStr (drr_PhoneNumber d)), (''license_number'', JStr (drr_LicenseNumber d)),
       (''license_expiry'', JStr (drr_LicenseExpiry d)), (''active'', JBool (drr_Active d))]"

record Trip =
  tri_TripID :: string
  tri_VehicleID :: string
  tri_DriverID :: string
  tri_RouteID :: string
  tri_Status :: string
  tri_ScheduledDeparture :: string
  tri_ActualDeparture :: "string option"
  tri_CompletedAt :: "string option"
  tri_CreatedAt :: string

definition trip_json :: "Trip \<Rightarrow> json" where
  "trip_json t =
     JObj ([(''trip_id'', JStr (tri_TripID t)), (''vehicle_id'', JStr (tri_VehicleID t)), (''driver_id'', JStr (tri_DriverID t)),
        (''route_id'', JStr (tri_RouteID t)), (''status'', JStr (tri_Status t)),
        (''scheduled_departure'', JStr (tri_ScheduledDeparture t))] @
       opt_field ''actual_departure'' JStr (tri_ActualDeparture t) @ opt_field ''completed_at'' JStr (tri_CompletedAt t) @
       [(''created_at'', JStr (tri_CreatedAt t))])"

record RouteRegistryRow =
  rrr_RouteID :: string
  rrr_RouteName :: string
  rrr_OriginName :: string
  rrr_OriginLat :: float64
  rrr_OriginLng :: float64
  rrr_DestinationName :: string
  rrr_DestinationLat :: float64
  rrr_DestinationLng :: float64
  rrr_CorridorRadiusKm :: float64
  rrr_TotalDistanceKm :: float64
  rrr_Active :: bool

definition route_registry_json :: "RouteRegistryRow \<Rightarrow> json" where
  "route_registry_json r =
     JObj [(''route_id'', JStr (rrr_RouteID r)), (''route_name'', JStr (rrr_RouteName r)),
       (''origin_name'', JStr (rrr_OriginName r)), (''origin_lat'', JNum (rrr_OriginLat r)), (''origin_lng'', JNum (rrr_OriginLng r)),
       (''destination_name'', JStr (rrr_DestinationName r)), (''destination_lat'', JNum (rrr_DestinationLat r)),
       (''destination_lng'', JNum (rrr_DestinationLng r)), (''corridor_radius_km'', JNum (rrr_CorridorRadiusKm r)),
       (''total_distance_km'', JNum (rrr_TotalDistanceKm r)), (''active'', JBool (rrr_Active r))]"

section \<open>Constants\<close>

definition serving_AlertTypes :: "string list" where
  "serving_AlertTypes = [''SPEEDING'', ''LOW_FUEL'', ''ENGINE_OVERHEAT'', ''ROUTE_DEVIATION'']"

definition serving_Severities :: "string list" where
  "serving_Severities = [''INFO'', ''WARNING'', ''CRITICAL'']"

section \<open>Lemmas\<close>

text \<open>A row is marshalled unless it has a number that JSON lacks, and a missing value leaves its member out.\<close>

lemma rows_marshalled:
  "Marshal (driver_registry_json d) = Some (driver_registry_json d)"
  "Marshal (trip_json t) = Some (trip_json t)"
  "Marshal (vehicle_registry_json v) = None \<longleftrightarrow> (\<exists>x. vrr_CapacityTonnes v = Some x \<and> \<not> is_finite x)"
  "Marshal (route_registry_json r) = None \<longleftrightarrow>
     \<not> list_all is_finite [rrr_OriginLat r, rrr_OriginLng r, rrr_DestinationLat r, rrr_DestinationLng r, rrr_CorridorRadiusKm r,
         rrr_TotalDistanceKm r]"
  by (auto simp: Marshal_def driver_registry_json_def trip_json_def vehicle_registry_json_def route_registry_json_def opt_field_def
      split: option.splits)

text \<open>The constants are the values that the tables admit, and the types that the rules of the ingestion service raise are among
  them.\<close>

theorem constants_are_the_admitted_values:
  "(chk_trip_status s \<longleftrightarrow> s \<in> {TripScheduled, TripInProgress, TripCompleted, TripCancelled}) \<and>
   (chk_stop_status s \<longleftrightarrow> s \<in> {StopPending, StopArrived, StopDeparted, StopMissed}) \<and>
   (chk_alert_type s \<longleftrightarrow> s \<in> set serving_AlertTypes) \<and> (chk_severity s \<longleftrightarrow> s \<in> set serving_Severities) \<and>
   AlertRouteDeviation \<in> set serving_AlertTypes \<and>
   rule_Type ` set DefaultAlertRules \<subseteq> set serving_AlertTypes \<and> rule_Severity ` set DefaultAlertRules \<subseteq> set serving_Severities"
  by (auto simp: chk_trip_status_def chk_stop_status_def chk_alert_type_def chk_severity_def serving_AlertTypes_def
      serving_Severities_def TripScheduled_def TripInProgress_def TripCompleted_def TripCancelled_def StopPending_def StopArrived_def
      StopDeparted_def StopMissed_def AlertRouteDeviation_def DefaultAlertRules_def AlertSpeeding_def AlertLowFuel_def
      AlertEngineOverheat_def SeverityWarning_def SeverityCritical_def)

end
