(* ===== verification/Seed_Redis.thy ===== *)
theory Seed_Redis
  imports Serving_Main "HOL-Library.Multiset"
begin

text \<open>
  The script that seeds Redis (\<open>src/ingestion/scripts/seed_redis/seed_redis.go\<close>). \<open>log.Fatalf\<close> ends the program,
  so a step returns an error or goes on. A Go map is iterated in any order: the loops take the entries in an
  order that is an argument. \<open>KEYS\<close> is a parameter.
\<close>

datatype seed_error =
    ConnectionFailed redis_err
  | SetFailed string redis_err
  | VerificationFailed string redis_err
  | SpotCheckFailed string redis_err
  | SpotCheckMismatch string string string

definition apiKeys :: "(string \<times> string) list" where
  "apiKeys =
     [(''vehicle:auth:fleet_delhi_jaipur_key'', ''fleet_delhi_jaipur''),
      (''vehicle:auth:fleet_mumbai_pune_key'', ''fleet_mumbai_pune''),
      (''vehicle:auth:fleet_bangalore_key'', ''fleet_bangalore''),
      (''vehicle:auth:test_key'', ''test_fleet'')]"

definition onlineStatus :: "(string \<times> string) list" where
  "onlineStatus =
     [(''vehicle:VH_TEST_001:online_status'', ''online''),
      (''vehicle:VH_TEST_002:online_status'', ''online''),
      (''vehicle:VH_TEST_003:online_status'', ''offline'')]"

definition deviationFlags :: "(string \<times> string) list" where
  "deviationFlags =
     [(''vehicle:VH_TEST_001:deviation'', ''false''),
      (''vehicle:VH_TEST_002:deviation'', ''true''),
      (''vehicle:VH_TEST_003:deviation'', ''false'')]"

definition spotChecks :: "(string \<times> string) list" where
  "spotChecks =
     [(''vehicle:auth:test_key'', ''test_fleet''),
      (''vehicle:VH_TEST_001:online_status'', ''online''),
      (''vehicle:VH_TEST_003:online_status'', ''offline''),
      (''vehicle:VH_TEST_002:deviation'', ''true''),
      (''vehicle:VH_TEST_001:deviation'', ''false'')]"

text \<open>The loop of the first three steps.\<close>

fun set_all :: "'r redis_client \<Rightarrow> (string \<times> string) list \<Rightarrow> 'r \<Rightarrow> seed_error option \<times> 'r" where
  "set_all rc [] r = (None, r)"
| "set_all rc ((key, val) # kvs) r =
     (case cmd_Set rc key val 0 r of
        (Some e, r') \<Rightarrow> (Some (SetFailed key e), r')
      | (None, r') \<Rightarrow> set_all rc kvs r')"

definition step1_api_keys :: "((string \<times> string) list \<Rightarrow> (string \<times> string) list) \<Rightarrow> 'r redis_client \<Rightarrow> 'r \<Rightarrow> seed_error option \<times> 'r" where
  "step1_api_keys order rc r = set_all rc (order apiKeys) r"

definition step2_online_status :: "((string \<times> string) list \<Rightarrow> (string \<times> string) list) \<Rightarrow> 'r redis_client \<Rightarrow> 'r \<Rightarrow> seed_error option \<times> 'r" where
  "step2_online_status order rc r = set_all rc (order onlineStatus) r"

definition step3_deviation_flags :: "((string \<times> string) list \<Rightarrow> (string \<times> string) list) \<Rightarrow> 'r redis_client \<Rightarrow> 'r \<Rightarrow> seed_error option \<times> 'r" where
  "step3_deviation_flags order rc r = set_all rc (order deviationFlags) r"

type_synonym 'r keys_cmd = "string \<Rightarrow> 'r \<Rightarrow> (redis_err + string list) \<times> 'r"

text \<open>The three counts are printed; an error ends the program.\<close>

fun count_all :: "'r keys_cmd \<Rightarrow> (string \<times> string) list \<Rightarrow> 'r \<Rightarrow> seed_error option \<times> 'r" where
  "count_all keys [] r = (None, r)"
| "count_all keys ((pattern, what) # rest) r =
     (case keys pattern r of
        (Inl e, r') \<Rightarrow> (Some (VerificationFailed what e), r')
      | (Inr ks, r') \<Rightarrow> count_all keys rest r')"

fun check_spots :: "'r redis_client \<Rightarrow> (string \<times> string) list \<Rightarrow> 'r \<Rightarrow> seed_error option \<times> 'r" where
  "check_spots rc [] r = (None, r)"
| "check_spots rc ((key, expected) # scs) r =
     (case cmd_Get rc key r of
        (Inl e, r') \<Rightarrow> (Some (SpotCheckFailed key e), r')
      | (Inr val, r') \<Rightarrow>
          if val \<noteq> expected then (Some (SpotCheckMismatch key val expected), r') else check_spots rc scs r')"

definition step4_verify :: "'r redis_client \<Rightarrow> 'r keys_cmd \<Rightarrow> 'r \<Rightarrow> seed_error option \<times> 'r" where
  "step4_verify rc keys r =
     (case count_all keys [(''vehicle:auth:*'', ''auth keys''), (''vehicle:*:online_status'', ''online status keys''),
        (''vehicle:*:deviation'', ''deviation keys'')] r of
        (Some e, r') \<Rightarrow> (Some e, r')
      | (None, r') \<Rightarrow> check_spots rc spotChecks r')"

text \<open>The sequence of the steps in \<open>main\<close>.\<close>

definition and_then :: "('r \<Rightarrow> 'e option \<times> 'r) \<Rightarrow> ('r \<Rightarrow> 'e option \<times> 'r) \<Rightarrow> 'r \<Rightarrow> 'e option \<times> 'r" where
  "and_then f g r = (case f r of (Some e, r') \<Rightarrow> (Some e, r') | (None, r') \<Rightarrow> g r')"

definition seed_connect :: "'r redis_client \<Rightarrow> 'r \<Rightarrow> seed_error option \<times> 'r" where
  "seed_connect rc r = (case cmd_Ping rc r of (Some e, r') \<Rightarrow> (Some (ConnectionFailed e), r') | (None, r') \<Rightarrow> (None, r'))"

definition seed_main ::
  "((string \<times> string) list \<Rightarrow> (string \<times> string) list) \<Rightarrow> 'r redis_client \<Rightarrow> 'r keys_cmd \<Rightarrow> 'r \<Rightarrow> seed_error option \<times> 'r" where
  "seed_main order rc keys =
     and_then (seed_connect rc) (and_then (step1_api_keys order rc) (and_then (step2_online_status order rc)
       (and_then (step3_deviation_flags order rc) (step4_verify rc keys))))"

text \<open>The options of the client: address, password and number of the database.\<close>

definition redisGetEnv :: "environment \<Rightarrow> string \<Rightarrow> string \<Rightarrow> string" where
  "redisGetEnv env key fallback = (let v = env key in if v \<noteq> [] then v else fallback)"

definition seed_options :: "environment \<Rightarrow> string \<times> string \<times> int" where
  "seed_options env = (redisGetEnv env ''REDIS_ADDR'' ''localhost:6379'', redisGetEnv env ''REDIS_PASSWORD'' '''', 0)"

section \<open>Lemmas\<close>

text \<open>The script seeds the database that the services of the same environment use exactly when \<open>REDIS_DB\<close> leaves it at 0.\<close>

theorem seeds_database_of_services:
  "seed_options env = (sc_RedisAddr (serving_Load env), sc_RedisPassword (serving_Load env), sc_RedisDB (serving_Load env)) \<longleftrightarrow>
     getEnvInt env ''REDIS_DB'' 0 = 0"
  "seed_options env = (ic_RedisAddr (ingest_Load env), ic_RedisPassword (ingest_Load env), ic_RedisDB (ingest_Load env)) \<longleftrightarrow>
     getEnvInt env ''REDIS_DB'' 0 = 0"
  by (auto simp: seed_options_def redisGetEnv_def getEnv_def serving_Load_def ingest_Load_def)

definition seeded :: "(string \<times> string) list" where
  "seeded = apiKeys @ onlineStatus @ deviationFlags"

lemma seeded_distinct: "distinct (map fst seeded)"
  by (simp add: seeded_def apiKeys_def onlineStatus_def deviationFlags_def)

lemma spotChecks_seeded: "set spotChecks \<subseteq> set seeded"
  by (simp add: spotChecks_def seeded_def apiKeys_def onlineStatus_def deviationFlags_def)

lemma and_then_None: "and_then f g r = (None, r') \<longleftrightarrow> (\<exists>r1. f r = (None, r1) \<and> g r1 = (None, r'))"
  by (auto simp: and_then_def split: prod.splits option.splits)

context redis_store
begin

definition holds :: "'a \<Rightarrow> (string \<times> string) list \<Rightarrow> bool" where
  "holds r kvs \<longleftrightarrow> (\<forall>(k, v)\<in>set kvs. view r (clock r) k = Some (RStr v))"

lemma set_all_holds:
  assumes "set_all rc kvs r = (None, r')" "distinct (map fst (before @ kvs))" "holds r before"
  shows "holds r' (before @ kvs)"
  using assms
proof (induction kvs arbitrary: before r)
  case (Cons kv kvs)
  obtain key val where kv: "kv = (key, val)" by (cases kv)
  obtain r1 where s: "cmd_Set rc key val 0 r = (None, r1)" "set_all rc kvs r1 = (None, r')"
    using Cons.prems(1) kv by (auto split: prod.splits option.splits)
  have "view r1 (clock r1) key = Some (RStr val)" using set_now [OF s(1)] by simp
  moreover have "view r1 (clock r1) k = view r (clock r) k" if "k \<noteq> key" for k
    using set_frame [OF s(1)] that by auto
  moreover have "k \<noteq> key" if "(k, v) \<in> set before" for k v
    using Cons.prems(2) kv that by (auto simp: image_iff)
  ultimately have "holds r1 (before @ [kv])"
    using Cons.prems(3) kv unfolding holds_def by auto
  then show ?case using Cons.IH [OF s(2), of "before @ [kv]"] Cons.prems(2) by simp
qed simp

lemma holds_cong: "holds r kvs \<Longrightarrow> set kvs' = set kvs \<Longrightarrow> holds r kvs'"
  by (simp add: holds_def)

lemma check_spots_ok:
  assumes "check_spots rc scs r = (res, r')" "holds r kvs" "set scs \<subseteq> set kvs"
  shows "(res = None \<longrightarrow> holds r' kvs) \<and> (\<forall>e. res = Some e \<longrightarrow> (\<exists>k m. e = SpotCheckFailed k (RedisErr m)))"
  using assms
proof (induction scs arbitrary: r)
  case (Cons sc scs)
  obtain key expected where sc: "sc = (key, expected)" by (cases sc)
  obtain g r1 where g: "cmd_Get rc key r = (g, r1)" by fastforce
  have key: "view r (clock r) key = Some (RStr expected)" using Cons.prems(2,3) sc by (auto simp: holds_def)
  have "holds r1 kvs" using Cons.prems(2) get_frame [OF g] by (auto simp: holds_def)
  show ?case
  proof (cases g)
    case (Inl e)
    then have "e \<noteq> RedisNil" using get_nil [of key r r1] g key by auto
    then obtain m where "e = RedisErr m" by (cases e) auto
    then show ?thesis using Cons.prems(1) sc g Inl by auto
  next
    case (Inr v)
    then have "v = expected" using get_value [of key r v r1] g key by auto
    then show ?thesis using Cons.IH [OF _ \<open>holds r1 kvs\<close>] Cons.prems(1,3) sc g Inr by auto
  qed
qed simp

lemma count_all_holds:
  assumes "\<And>pat r x r'. keys pat r = (x, r') \<Longrightarrow> clock r' = clock r \<and> (\<forall>t\<ge>clock r. view r' t = view r t)"
    and "count_all keys pats r = (res, r')" "holds r kvs"
  shows "holds r' kvs"
  using assms(2,3)
proof (induction pats arbitrary: r)
  case (Cons pw pats)
  obtain pat what where pw: "pw = (pat, what)" by (cases pw)
  obtain x r1 where k: "keys pat r = (x, r1)" by fastforce
  have "holds r1 kvs" using Cons.prems(2) assms(1) [OF k] by (auto simp: holds_def)
  then show ?case using Cons k pw by (cases x) auto
qed simp

lemma seed_holds:
  assumes order: "\<And>xs. mset (order xs) = mset xs"
    and keys: "\<And>pat r x r'. keys pat r = (x, r') \<Longrightarrow> clock r' = clock r \<and> (\<forall>t\<ge>clock r. view r' t = view r t)"
    and "step1_api_keys order rc r = (None, r1)" "step2_online_status order rc r1 = (None, r2)"
      "step3_deviation_flags order rc r2 = (None, r3)" "step4_verify rc keys r3 = (res, r4)"
  shows "(res = None \<longrightarrow> holds r4 seeded) \<and>
    (\<forall>e. res = Some e \<longrightarrow> (\<exists>k m. e = SpotCheckFailed k (RedisErr m)) \<or> (\<exists>w m. e = VerificationFailed w m))"
proof -
  let ?a = "order apiKeys" and ?b = "order onlineStatus" and ?c = "order deviationFlags"
  have sets: "set ?a = set apiKeys" "set ?b = set onlineStatus" "set ?c = set deviationFlags"
    using order by (metis set_mset_mset)+
  have "mset (?a @ ?b @ ?c) = mset seeded" using order by (simp add: seeded_def)
  then have "mset (map fst (?a @ ?b @ ?c)) = mset (map fst seeded)" by (metis mset_map)
  then have dist: "distinct (map fst (?a @ ?b @ ?c))" using seeded_distinct by (metis mset_eq_imp_distinct_iff)
  have "holds r1 ([] @ ?a)"
    using set_all_holds [OF assms(3) [unfolded step1_api_keys_def], of "[]"] dist by (simp add: holds_def)
  then have "holds r2 (?a @ ?b)"
    using set_all_holds [OF assms(4) [unfolded step2_online_status_def], of ?a] dist by auto
  then have "holds r3 ((?a @ ?b) @ ?c)"
    using set_all_holds [OF assms(5) [unfolded step3_deviation_flags_def], of "?a @ ?b"] dist by auto
  then have h3: "holds r3 seeded" by (rule holds_cong) (auto simp: seeded_def sets)
  obtain x r5 where n: "count_all keys [(''vehicle:auth:*'', ''auth keys''), (''vehicle:*:online_status'', ''online status keys''),
      (''vehicle:*:deviation'', ''deviation keys'')] r3 = (x, r5)" by fastforce
  have h5: "holds r5 seeded" using keys n h3 by (rule count_all_holds)
  show ?thesis
  proof (cases x)
    case None
    then have "check_spots rc spotChecks r5 = (res, r4)" using assms(6) n by (simp add: step4_verify_def)
    from check_spots_ok [OF this h5 spotChecks_seeded] show ?thesis by blast
  next
    case (Some e)
    then have "res = Some e" using assms(6) n by (simp add: step4_verify_def)
    moreover have "\<exists>w m. e = VerificationFailed w m" using n Some by (auto split: sum.splits prod.splits)
    ultimately show ?thesis by blast
  qed
qed

end

section \<open>Properties\<close>

text \<open>The seeding is self-consistent: for every Redis server and every order of the map iterations, the verification that
  follows three steps without an error never finds a missing or a different value, and when the program
  succeeds every seeded key holds its value, in particular the key that opens the test fleet.\<close>

theorem seed_verifies:
  assumes "redis_store rc view clock published" "\<And>xs. mset (order xs) = mset xs"
    and "\<And>pat r x r'. keys pat r = (x, r') \<Longrightarrow> clock r' = clock r \<and> (\<forall>t\<ge>clock r. view r' t = view r t)"
    and "seed_main order rc keys r = (res, r')"
  shows "(res = None \<longrightarrow> (\<forall>(k, v)\<in>set (apiKeys @ onlineStatus @ deviationFlags). view r' (clock r') k = Some (RStr v)) \<and>
       view r' (clock r') (auth_key ''test_key'') = Some (RStr ''test_fleet'')) \<and>
    (\<forall>k got want. res \<noteq> Some (SpotCheckMismatch k got want)) \<and> (\<forall>k. res \<noteq> Some (SpotCheckFailed k RedisNil))"
proof -
  obtain x0 r0 where s0: "seed_connect rc r = (x0, r0)" by fastforce
  obtain x1 r1 where s1: "step1_api_keys order rc r0 = (x1, r1)" by fastforce
  obtain x2 r2 where s2: "step2_online_status order rc r1 = (x2, r2)" by fastforce
  obtain x3 r3 where s3: "step3_deviation_flags order rc r2 = (x3, r3)" by fastforce
  have set_err: "\<exists>k m. e = SetFailed k m" if "set_all rc kvs s = (Some e, s')" for kvs s s' e
    using that by (induction kvs arbitrary: s) (auto split: prod.splits option.splits)
  show ?thesis
  proof (cases "x0 = None \<and> x1 = None \<and> x2 = None \<and> x3 = None")
    case True
    then have s4: "step4_verify rc keys r3 = (res, r')"
      using assms(4) s0 s1 s2 s3 by (simp add: seed_main_def and_then_def)
    have test: "(auth_key ''test_key'', ''test_fleet'') \<in> set seeded" by (simp add: seeded_def apiKeys_def auth_key_def)
    have "(res = None \<longrightarrow> (\<forall>(k, v)\<in>set seeded. view r' (clock r') k = Some (RStr v))) \<and>
        (\<forall>e. res = Some e \<longrightarrow> (\<exists>k m. e = SpotCheckFailed k (RedisErr m)) \<or> (\<exists>w m. e = VerificationFailed w m))"
      using redis_store.seed_holds [OF assms(1-3) _ _ _ s4] s1 s2 s3 True
      by (simp add: redis_store.holds_def [OF assms(1)])
    then show ?thesis using test by (auto simp: seeded_def)
  next
    case False
    then have "(\<exists>m. res = Some (ConnectionFailed m)) \<or> (\<exists>k m. res = Some (SetFailed k m))"
      using assms(4) s0 s1 s2 s3 set_err
      by (auto simp: seed_main_def and_then_def seed_connect_def step1_api_keys_def step2_online_status_def
          step3_deviation_flags_def split: option.splits prod.splits)
    then show ?thesis by auto
  qed
qed

definition mem_keys :: "string list \<Rightarrow> mem_redis keys_cmd" where
  "mem_keys ks pat r = (Inr (filter (\<lambda>k. mem_now r k \<noteq> None) ks), r)"

theorem seed_verifies_witness:
  "fst (seed_main id idle_client (mem_keys []) (mem_empty 0 [])) = None \<and>
   mem_view (snd (seed_main id idle_client (mem_keys []) (mem_empty 0 [])))
     (mr_now (snd (seed_main id idle_client (mem_keys []) (mem_empty 0 [])))) (auth_key ''test_key'') = Some (RStr ''test_fleet'')"
proof -
  have "fst (seed_main id idle_client (mem_keys []) (mem_empty 0 [])) = None"
    by (simp add: seed_main_def and_then_def seed_connect_def step1_api_keys_def step2_online_status_def
        step3_deviation_flags_def step4_verify_def apiKeys_def onlineStatus_def deviationFlags_def spotChecks_def
        mem_Ping_def mem_Set_def mem_Get_def mem_faulty_def mem_empty_def mem_keys_def mem_now_def mem_view_def mem_deadline_def)
  moreover have "mem_keys [] pat r = (x, r') \<Longrightarrow> mr_now r' = mr_now r \<and> (\<forall>t\<ge>mr_now r. mem_view r' t = mem_view r t)" for pat r x r'
    by (simp add: mem_keys_def)
  ultimately show ?thesis
    using seed_verifies [OF mem.redis_store_axioms, of id "mem_keys []" _ "mem_empty 0 []"] by (metis id_apply prod.collapse)
qed

end
