(* ===== verification/Init_Db.thy ===== *)
theory Init_Db
  imports Schema Config
begin

text \<open>
  The script that initialises the database (\<open>src/ingestion/scripts/init_db/init_db.go\<close>): its statements in
  order, run against a catalog of the server. A statement of the catalog is idempotent
  (\<open>IF NOT EXISTS\<close>, or guarded by a look into \<open>pg_constraint\<close>) and fails when something it refers to is missing, or
  when the rows violate a constraint that it adds. \<open>execOrFatal\<close> ends the program at the first failure.
\<close>

text \<open>The catalog: what exists, the values that \<open>chk_alert_type\<close> admits (\<open>None\<close>: there is no such constraint), whether the
  exclusion constraint is there, and the rows.\<close>

record catalog =
  ct_extensions :: "string list"
  ct_tables :: "string list"
  ct_hypertables :: "string list"
  ct_alert_types :: "string list option"
  ct_exclusion :: bool
  ct_indexes :: "(string \<times> string) list"
  ct_db :: db

text \<open>A table names the tables it references and the extensions its columns need.\<close>

datatype init_stmt =
    CreateExtension string
  | CreateTable string "string list" "string list"
  | CreateHypertable string
  | MigrateAlertTypes
  | AddDedupExclusion
  | CreateIndex string string

definition alert_types :: "string list" where
  "alert_types = [''SPEEDING'', ''LOW_FUEL'', ''ENGINE_OVERHEAT'', ''ROUTE_DEVIATION'']"

section \<open>Running a statement\<close>

text \<open>\<open>avail\<close>: the extensions installed on the server; \<open>None\<close>: an error.\<close>

fun exec_stmt :: "(string \<Rightarrow> bool) \<Rightarrow> init_stmt \<Rightarrow> catalog \<Rightarrow> catalog option" where
  "exec_stmt avail (CreateExtension e) c =
     (if e \<in> set (ct_extensions c) then Some c
      else if avail e then Some (c\<lparr>ct_extensions := ct_extensions c @ [e]\<rparr>) else None)"
| "exec_stmt avail (CreateTable t refs exts) c =
     (if t \<in> set (ct_tables c) then Some c
      else if set refs \<subseteq> set (ct_tables c) \<and> set exts \<subseteq> set (ct_extensions c)
      then Some (c\<lparr>ct_tables := ct_tables c @ [t],
                   ct_alert_types := (if t = ''vehicle_alerts'' then Some alert_types else ct_alert_types c)\<rparr>)
      else None)"
| "exec_stmt avail (CreateHypertable t) c =
     (if t \<notin> set (ct_tables c) \<or> ''timescaledb'' \<notin> set (ct_extensions c) then None
      else if t \<in> set (ct_hypertables c) then Some c
      else if vehicle_telemetry (ct_db c) \<noteq> [] then None
      else Some (c\<lparr>ct_hypertables := ct_hypertables c @ [t]\<rparr>))"
| "exec_stmt avail MigrateAlertTypes c =
     (if ''vehicle_alerts'' \<notin> set (ct_tables c) then None
      else case ct_alert_types c of
             None \<Rightarrow> Some c
           | Some ts \<Rightarrow>
               if ''ROUTE_DEVIATION'' \<in> set ts then Some c
               else if list_all (\<lambda>a. chk_alert_type (al_alert_type a)) (vehicle_alerts (ct_db c))
               then Some (c\<lparr>ct_alert_types := Some alert_types\<rparr>)
               else None)"
| "exec_stmt avail AddDedupExclusion c =
     (if ct_exclusion c then Some c
      else if ''vehicle_alerts'' \<in> set (ct_tables c) \<and> ''btree_gist'' \<in> set (ct_extensions c) \<and>
              dedup_window_excl (vehicle_alerts (ct_db c))
      then Some (c\<lparr>ct_exclusion := True\<rparr>)
      else None)"
| "exec_stmt avail (CreateIndex i t) c =
     (if t \<notin> set (ct_tables c) then None
      else if i \<in> fst ` set (ct_indexes c) then Some c
      else Some (c\<lparr>ct_indexes := ct_indexes c @ [(i, t)]\<rparr>))"

text \<open>\<open>execOrFatal\<close> over the statements with their labels; an entry of the schedule says that the connection failed.\<close>

fun execOrFatal :: "(string \<Rightarrow> bool) \<Rightarrow> bool list \<Rightarrow> (init_stmt \<times> string) list \<Rightarrow> catalog \<Rightarrow> string option \<times> catalog" where
  "execOrFatal avail faults [] c = (None, c)"
| "execOrFatal avail faults ((s, label) # ss) c =
     (if faults \<noteq> [] \<and> hd faults then (Some label, c)
      else case exec_stmt avail s c of
             None \<Rightarrow> (Some label, c)
           | Some c' \<Rightarrow> execOrFatal avail (tl faults) ss c')"

section \<open>The steps\<close>

definition step1_extensions :: "(init_stmt \<times> string) list" where
  "step1_extensions =
     [(CreateExtension ''timescaledb'', ''timescaledb extension''),
      (CreateExtension ''postgis'', ''postgis extension'')]"

definition step2_telemetry_table :: "(init_stmt \<times> string) list" where
  "step2_telemetry_table =
     [(CreateTable ''vehicle_telemetry'' [] [''postgis''], ''vehicle_telemetry table created''),
      (CreateHypertable ''vehicle_telemetry'', ''vehicle_telemetry converted to hypertable'')]"

definition step3_alerts_table :: "(init_stmt \<times> string) list" where
  "step3_alerts_table =
     [(CreateExtension ''btree_gist'', ''btree_gist extension enabled''),
      (CreateTable ''vehicle_alerts'' [] [], ''vehicle_alerts table created''),
      (MigrateAlertTypes, ''vehicle_alerts route-deviation constraint migrated''),
      (AddDedupExclusion, ''vehicle_alerts rolling deduplication constraint created'')]"

definition step4_registry_tables :: "(init_stmt \<times> string) list" where
  "step4_registry_tables =
     [(CreateTable ''vehicle_registry'' [] [], ''vehicle_registry table created''),
      (CreateTable ''driver_registry'' [] [], ''driver_registry table created''),
      (CreateTable ''route_registry'' [] [], ''route_registry table created''),
      (CreateTable ''route_stops'' [''route_registry''] [], ''route_stops table created''),
      (CreateTable ''fleet_config'' [] [], ''fleet_config table created''),
      (CreateTable ''trip'' [''vehicle_registry'', ''driver_registry'', ''route_registry''] [], ''trip table created''),
      (CreateTable ''trip_stop_progress'' [''trip'', ''route_stops''] [], ''trip_stop_progress table created'')]"

definition step5_indexes :: "(init_stmt \<times> string) list" where
  "step5_indexes = map (\<lambda>(i, t). (CreateIndex i t, i))
     [(''idx_telemetry_vehicle_time'', ''vehicle_telemetry''),
      (''idx_telemetry_fleet_time'', ''vehicle_telemetry''),
      (''idx_telemetry_location'', ''vehicle_telemetry''),
      (''idx_alerts_vehicle'', ''vehicle_alerts''),
      (''idx_alerts_fleet'', ''vehicle_alerts''),
      (''idx_alerts_unacknowledged'', ''vehicle_alerts''),
      (''idx_route_stops_route'', ''route_stops''),
      (''idx_trip_vehicle'', ''trip''),
      (''idx_trip_fleet_status'', ''trip''),
      (''idx_trip_stop_progress_trip'', ''trip_stop_progress'')]"

definition verified_tables :: "string list" where
  "verified_tables =
     [''vehicle_telemetry'', ''vehicle_alerts'', ''vehicle_registry'', ''driver_registry'', ''route_registry'',
      ''route_stops'', ''fleet_config'', ''trip'', ''trip_stop_progress'']"

definition index_count :: "catalog \<Rightarrow> nat" where
  "index_count c = length (filter (\<lambda>(i, t). t \<in> {''vehicle_telemetry'', ''vehicle_alerts'', ''route_stops'', ''trip'', ''trip_stop_progress''} \<and>
     take 4 i = ''idx_'') (ct_indexes c))"

definition step6_verify :: "catalog \<Rightarrow> string + nat" where
  "step6_verify c =
     (case find (\<lambda>t. t \<notin> set (ct_tables c)) verified_tables of
        Some t \<Rightarrow> Inl (''Table '' @ t @ '' was not created'')
      | None \<Rightarrow>
          if ''vehicle_telemetry'' \<notin> set (ct_hypertables c) then Inl ''vehicle_telemetry is not a hypertable''
          else Inr (index_count c))"

definition init_steps :: "(init_stmt \<times> string) list" where
  "init_steps = step1_extensions @ step2_telemetry_table @ step3_alerts_table @ step4_registry_tables @ step5_indexes"

definition dbGetEnv :: "environment \<Rightarrow> string \<Rightarrow> string \<Rightarrow> string" where
  "dbGetEnv env key fallback = (let v = env key in if v \<noteq> [] then v else fallback)"

definition init_connStr :: "environment \<Rightarrow> string" where
  "init_connStr env =
     ''postgres://'' @ dbGetEnv env ''DB_USER'' ''fleet_user'' @ '':'' @ dbGetEnv env ''DB_PASSWORD'' ''fleet_password'' @ ''@'' @
     dbGetEnv env ''DB_HOST'' ''localhost'' @ '':'' @ dbGetEnv env ''DB_PORT'' ''5432'' @ ''/'' @ dbGetEnv env ''DB_NAME'' ''fleet_monitor''"

text \<open>\<open>pgx.Connect\<close> is a parameter: its error for a connection string.\<close>

definition init_main ::
  "environment \<Rightarrow> (string \<Rightarrow> string option) \<Rightarrow> (string \<Rightarrow> bool) \<Rightarrow> bool list \<Rightarrow> catalog \<Rightarrow> (string + nat) \<times> catalog" where
  "init_main env connect avail faults c =
     (case connect (init_connStr env) of
        Some err \<Rightarrow> (Inl (''Connection failed: '' @ err), c)
      | None \<Rightarrow>
          (case execOrFatal avail faults init_steps c of
             (Some label, c') \<Rightarrow> (Inl label, c')
           | (None, c') \<Rightarrow> (step6_verify c', c')))"

section \<open>Lemmas\<close>

text \<open>What a statement needs and gives.\<close>

datatype object = Extension string | Table string

fun has :: "catalog \<Rightarrow> object \<Rightarrow> bool" where
  "has c (Extension e) = (e \<in> set (ct_extensions c))"
| "has c (Table t) = (t \<in> set (ct_tables c))"

fun needs :: "init_stmt \<Rightarrow> object list" where
  "needs (CreateExtension e) = []"
| "needs (CreateTable t refs exts) = map Table refs @ map Extension exts"
| "needs (CreateHypertable t) = [Table t, Extension ''timescaledb'']"
| "needs MigrateAlertTypes = [Table ''vehicle_alerts'']"
| "needs AddDedupExclusion = [Table ''vehicle_alerts'', Extension ''btree_gist'']"
| "needs (CreateIndex i t) = [Table t]"

fun gives :: "init_stmt \<Rightarrow> object list" where
  "gives (CreateExtension e) = [Extension e]"
| "gives (CreateTable t refs exts) = [Table t]"
| "gives s = []"

fun well_ordered :: "object list \<Rightarrow> (init_stmt \<times> string) list \<Rightarrow> bool" where
  "well_ordered have [] = True"
| "well_ordered have ((s, label) # ss) = (set (needs s) \<subseteq> set have \<and> well_ordered (gives s @ have) ss)"

text \<open>The statement has nothing left to do.\<close>

fun settled :: "init_stmt \<Rightarrow> catalog \<Rightarrow> bool" where
  "settled (CreateExtension e) c = (e \<in> set (ct_extensions c))"
| "settled (CreateTable t refs exts) c = (t \<in> set (ct_tables c))"
| "settled (CreateHypertable t) c = (t \<in> set (ct_hypertables c) \<and> t \<in> set (ct_tables c) \<and> ''timescaledb'' \<in> set (ct_extensions c))"
| "settled MigrateAlertTypes c = (''vehicle_alerts'' \<in> set (ct_tables c) \<and>
     (\<forall>ts. ct_alert_types c = Some ts \<longrightarrow> ''ROUTE_DEVIATION'' \<in> set ts))"
| "settled AddDedupExclusion c = ct_exclusion c"
| "settled (CreateIndex i t) c = (t \<in> set (ct_tables c) \<and> i \<in> fst ` set (ct_indexes c))"

text \<open>The rows stand in the way of no statement.\<close>

definition migratable :: "catalog \<Rightarrow> bool" where
  "migratable c \<longleftrightarrow>
     (''vehicle_telemetry'' \<in> set (ct_hypertables c) \<or> vehicle_telemetry (ct_db c) = []) \<and>
     list_all (\<lambda>a. chk_alert_type (al_alert_type a)) (vehicle_alerts (ct_db c)) \<and>
     dedup_window_excl (vehicle_alerts (ct_db c))"

lemma exec_settled: "exec_stmt avail s c = Some c' \<Longrightarrow> settled s c'"
  by (cases s) (auto simp: alert_types_def split: if_splits option.splits)

lemma settled_exec: "settled s c \<Longrightarrow> exec_stmt avail s c = Some c"
  by (cases s) (auto split: option.splits)

lemma exec_keeps_settled: "exec_stmt avail s c = Some c' \<Longrightarrow> settled s' c \<Longrightarrow> settled s' c'"
  by (cases s; cases s') (auto simp: alert_types_def split: if_splits option.splits)

lemma exec_keeps: "exec_stmt avail s c = Some c' \<Longrightarrow> ct_db c' = ct_db c \<and> (has c o' \<longrightarrow> has c' o') \<and>
    (ct_exclusion c' \<longrightarrow> ct_exclusion c \<or> dedup_window_excl (vehicle_alerts (ct_db c)))"
  by (cases s; cases o') (auto split: if_splits option.splits)

lemma exec_gives: "exec_stmt avail s c = Some c' \<Longrightarrow> o' \<in> set (gives s) \<Longrightarrow> has c' o'"
  by (cases s) (auto split: if_splits)

lemma settled_gives: "settled s c \<Longrightarrow> o' \<in> set (gives s) \<Longrightarrow> has c o'"
  by (cases s) auto

lemma exec_migratable: "exec_stmt avail s c = Some c' \<Longrightarrow> migratable c \<Longrightarrow> migratable c'"
  by (cases s) (auto simp: migratable_def split: if_splits option.splits)

text \<open>A run of statements in an order that respects their needs succeeds, and leaves nothing to do.\<close>

lemma run_keeps_settled:
  "execOrFatal avail faults ss c = (None, c') \<Longrightarrow> settled s c \<Longrightarrow> settled s c'"
proof (induction ss arbitrary: faults c)
  case (Cons x ss)
  then show ?case by (cases x) (auto split: if_splits option.splits intro: exec_keeps_settled)
qed simp

lemma run_settled:
  "execOrFatal avail faults ss c = (None, c') \<Longrightarrow> (s, label) \<in> set ss \<Longrightarrow> settled s c'"
proof (induction ss arbitrary: faults c)
  case (Cons x ss)
  then show ?case
    by (cases x) (auto split: if_splits option.splits dest: exec_settled intro: run_keeps_settled)
qed simp

lemma settled_run: "\<forall>(s, label)\<in>set ss. settled s c \<Longrightarrow> execOrFatal avail [] ss c = (None, c)"
proof (induction ss)
  case (Cons x ss)
  then show ?case by (cases x) (auto simp: settled_exec)
qed simp

lemma ready_exec:
  assumes "\<forall>o'\<in>set (needs s). has c o'" "\<forall>e. Extension e \<in> set (gives s) \<longrightarrow> avail e" "migratable c"
    and "\<forall>t. s = CreateHypertable t \<longrightarrow> t = ''vehicle_telemetry''"
  shows "\<exists>c'. exec_stmt avail s c = Some c'"
  using assms by (cases s) (auto simp: migratable_def ball_Un split: option.splits)

lemma run_succeeds:
  assumes "well_ordered objs ss" "\<forall>o'\<in>set objs. has c o'" "migratable c"
    and "\<forall>(s, label)\<in>set ss. (\<forall>e. Extension e \<in> set (gives s) \<longrightarrow> avail e) \<and> (\<forall>t. s = CreateHypertable t \<longrightarrow> t = ''vehicle_telemetry'')"
  shows "\<exists>c'. execOrFatal avail [] ss c = (None, c')"
  using assms
proof (induction ss arbitrary: objs c)
  case (Cons x ss)
  obtain s label where x: "x = (s, label)" by (cases x)
  have "\<exists>c1. exec_stmt avail s c = Some c1"
    using Cons.prems x by (intro ready_exec) auto
  then obtain c1 where c1: "exec_stmt avail s c = Some c1" ..
  have "\<forall>o'\<in>set (gives s @ objs). has c1 o'"
    using exec_gives [OF c1] exec_keeps [OF c1] Cons.prems(2) by auto
  moreover have "migratable c1" using exec_migratable [OF c1] Cons.prems(3) .
  ultimately have "\<exists>c'. execOrFatal avail [] ss c1 = (None, c')"
    using Cons.prems(1,4) x by (intro Cons.IH [of "gives s @ objs"]) auto
  then show ?case using c1 x by simp
qed simp

lemma run_db:
  "execOrFatal avail faults ss c = (res, c') \<Longrightarrow> ct_db c' = ct_db c \<and>
     (ct_exclusion c' \<longrightarrow> ct_exclusion c \<or> dedup_window_excl (vehicle_alerts (ct_db c)))"
proof (induction ss arbitrary: faults c)
  case (Cons x ss)
  obtain s label where x: "x = (s, label)" by (cases x)
  show ?case
  proof (cases "faults \<noteq> [] \<and> hd faults")
    case False
    show ?thesis
    proof (cases "exec_stmt avail s c")
      case (Some c1)
      then have run: "execOrFatal avail (tl faults) ss c1 = (res, c')" using Cons.prems x False by simp
      show ?thesis using Cons.IH [OF run] exec_keeps [OF Some] by auto
    qed (use Cons.prems x False in simp)
  qed (use Cons.prems x in simp)
qed simp

lemma init_well_ordered: "well_ordered [] init_steps"
  by (simp add: init_steps_def step1_extensions_def step2_telemetry_table_def step3_alerts_table_def
      step4_registry_tables_def step5_indexes_def)

lemmas init_step_defs = init_steps_def step1_extensions_def step2_telemetry_table_def step3_alerts_table_def
  step4_registry_tables_def step5_indexes_def

section \<open>Properties\<close>

text \<open>C33. The initialisation works and can be repeated: on a server that accepts the connection, with the three extensions and rows that violate no
  constraint, from an empty catalog or from one an older version left, the script succeeds: its statements
  refer only to what earlier ones created. Afterwards the nine tables and the hypertable are there, the
  type constraint admits route deviations, the exclusion constraint is in place and holds for the stored alerts, and no row
  has changed; a second run succeeds and changes nothing.\<close>

theorem init_succeeds_and_repeats:
  assumes "avail ''timescaledb''" "avail ''postgis''" "avail ''btree_gist''" "migratable c"
    and "connect (init_connStr env) = None"
  shows "\<exists>n c'. init_main env connect avail [] c = (Inr n, c') \<and> set verified_tables \<subseteq> set (ct_tables c') \<and>
    ''vehicle_telemetry'' \<in> set (ct_hypertables c') \<and> ct_exclusion c' \<and> dedup_window_excl (vehicle_alerts (ct_db c')) \<and>
    (\<forall>ts. ct_alert_types c' = Some ts \<longrightarrow> ''ROUTE_DEVIATION'' \<in> set ts) \<and> ct_db c' = ct_db c \<and>
    init_main env connect avail [] c' = (Inr n, c')"
proof -
  have "\<forall>(s, label)\<in>set init_steps. (\<forall>e. Extension e \<in> set (gives s) \<longrightarrow> avail e) \<and> (\<forall>t. s = CreateHypertable t \<longrightarrow> t = ''vehicle_telemetry'')"
    using assms(1-3) by (simp add: init_step_defs)
  then obtain c' where run: "execOrFatal avail [] init_steps c = (None, c')"
    using run_succeeds [OF init_well_ordered, of c avail] assms(4) by auto
  note settled = run_settled [OF run]
  have tables: "t \<in> set (ct_tables c')" if t: "t \<in> set verified_tables" for t
  proof -
    have "Table ` set verified_tables \<subseteq> set (concat (map (gives \<circ> fst) init_steps))"
      by (simp add: init_step_defs verified_tables_def)
    then have "Table t \<in> set (concat (map (gives \<circ> fst) init_steps))" using t by blast
    then obtain s label where "(s, label) \<in> set init_steps" "Table t \<in> set (gives s)" by auto
    then show ?thesis using settled settled_gives by fastforce
  qed
  have hyper: "''vehicle_telemetry'' \<in> set (ct_hypertables c')"
    using settled [of "CreateHypertable ''vehicle_telemetry''"] by (simp add: init_step_defs)
  have excl: "ct_exclusion c'" using settled [of AddDedupExclusion] by (simp add: init_step_defs)
  have types: "\<forall>ts. ct_alert_types c' = Some ts \<longrightarrow> ''ROUTE_DEVIATION'' \<in> set ts"
    using settled [of MigrateAlertTypes] by (simp add: init_step_defs)
  have again: "execOrFatal avail [] init_steps c' = (None, c')" using settled by (intro settled_run) auto
  have ok: "step6_verify c' = Inr (index_count c')"
    using tables hyper by (auto simp: step6_verify_def find_None_iff split: option.splits dest!: find_Some_iff [THEN iffD1])
  have "ct_db c' = ct_db c" using run_db [OF run] by simp
  then show ?thesis
    using run again ok tables hyper excl types assms(4,5) by (auto simp: init_main_def migratable_def)
qed

text \<open>A database of a version without route deviations and without the exclusion constraint.\<close>

definition legacy_catalog :: catalog where
  "legacy_catalog = \<lparr>ct_extensions = [''timescaledb''], ct_tables = [''vehicle_alerts''], ct_hypertables = [],
     ct_alert_types = Some [''SPEEDING'', ''LOW_FUEL'', ''ENGINE_OVERHEAT''], ct_exclusion = False, ct_indexes = [],
     ct_db = empty_db\<lparr>vehicle_alerts := [new_alert 1 ''V'' ''F'' ''SPEEDING'' ''WARNING'' (Fin 120) 0]\<rparr>\<rparr>"

theorem init_succeeds_and_repeats_witness:
  "\<exists>n c'. init_main (\<lambda>_. []) (\<lambda>_. None) (\<lambda>e. True) [] legacy_catalog = (Inr n, c') \<and> ct_exclusion c' \<and>
     vehicle_alerts (ct_db c') = [new_alert 1 ''V'' ''F'' ''SPEEDING'' ''WARNING'' (Fin 120) 0]"
proof -
  have "migratable legacy_catalog"
    by (simp add: migratable_def legacy_catalog_def empty_db_def new_alert_def chk_alert_type_def)
  from init_succeeds_and_repeats [OF TrueI TrueI TrueI this, of "\<lambda>_. None" "\<lambda>_. []"] show ?thesis by (auto simp: legacy_catalog_def)
qed

end
