(* ===== verification/Spec2Isabelle.thy ===== *)
theory Spec2Isabelle
  imports Fleet_System Serving_Client Serving_Domain Seed_Redis Init_Db
begin

text \<open>
  \<^bold>\<open>Fleet monitor: ingestion and serving.\<close>

  The program is two Go services over one Redis and one TimescaleDB, and two scripts that prepare the stores.

  \<^item> The \<^emph>\<open>ingestion\<close> service (\<open>src/ingestion\<close>) accepts telemetry over HTTP, authenticates the key of a fleet, and fans each
    accepted message out to three kinds of workers: one writes batches to the database, one writes the live state
    of the vehicles to Redis and publishes it, one evaluates the alert rules, with a claim in Redis that keeps an
    alert from being raised twice within five minutes.
  \<^item> The \<^emph>\<open>serving\<close> service (\<open>src/serving\<close>) answers dashboards: HTTP endpoints over both stores, a WebSocket hub that passes on
    what is published for a fleet, and four background jobs that watch heartbeats, routes, stops and arrival times.
  \<^item> \<open>src/ingestion/scripts\<close> initialises the database and seeds Redis.

  \<^bold>\<open>What models what.\<close> The theories follow the packages; a definition has the name of the function it translates, with a
  prefix where two packages use the same name.

  \<^descr>[Go_Prelude, Go_Json] The parts of Go's language and library that the sources use: wrapping 64-bit arithmetic and durations,
    times in nanoseconds, \<open>strconv\<close>, \<open>float64\<close> as a real, an infinity or NaN, bounded channels, JSON values with the
    decoding of \<open>encoding/json\<close>, HTTP responses; and the lemmas on lists and words the components share.
  \<^descr>[Redis_Api] The Redis client as a record of commands over any server state. The locale \<open>redis_server\<close>, extended by \<open>redis_store\<close> and,
    for \<open>SCAN\<close>, by \<open>redis_scan\<close> (in \<open>Serving_Analytics\<close>), states the documented effect of each command on the keys with
    their expiry; a command may fail. A reference server interprets the locales and runs the witnesses.
  \<^descr>[Schema] The tables of \<open>init_db.go\<close> as records, their constraints, and a database that runs statements under any schedule of
    failures before or after the commit.
  \<^descr>[Config] \<open>internal/config\<close> of both services.
  \<^descr>[Ingest_Domain, Ingest_Metrics, Ingest_Store, Ingest_Auth] \<open>domain\<close>, \<open>metrics\<close>, \<open>store\<close> and \<open>auth\<close> of the ingestion service. The
    locales \<open>alert_dedup_store\<close>, \<open>api_key_store\<close> and \<open>key_authenticator\<close> are the interfaces the pipeline and the HTTP layer rely on.
  \<^descr>[Ingest_Dispatcher] \<open>pipeline/dispatcher.go\<close> as a transition system with its environment of producers and workers.
  \<^descr>[Ingest_Writers] \<open>pipeline/db_writer.go\<close> and \<open>state_writer.go\<close>: the \<open>select\<close> loops as functions of the sequence of events.
  \<^descr>[Ingest_Alerts] \<open>pipeline/alert_evaluator.go\<close>, sequentially and as any number of interleaved workers.
  \<^descr>[Ingest_Http] \<open>transport/http\<close> of the ingestion service and what its \<open>main.go\<close> builds.
  \<^descr>[Ingest_Process, Ingest_Progress] The running process of \<open>main.go\<close>: start-up with its errors, server, dispatcher and workers as one
    transition system among the other clients of the stores, cancellation and shutdown. The second theory has the measure that
    bounds its steps and what is true when it comes to rest.
  \<^descr>[Serving_Core, Serving_Domain] Constants, pagination and row types of \<open>domain\<close>, \<open>handler/helpers.go\<close>, \<open>auth\<close>, \<open>middleware\<close> of the
    serving service.
  \<^descr>[Serving_Alerts, Serving_Vehicles, Serving_Trips, Serving_Analytics] The endpoints of \<open>handler/alert.go\<close>, \<open>vehicle.go\<close>, \<open>trip.go\<close> and
    \<open>analytics.go\<close>: each handler is a function from the request, the database and Redis to the response and both.
  \<^descr>[Serving_Ws, Serving_Client] \<open>ws\<close>: events, clients and the hub as a transition system with its environment; the read pump with its
    deadline over timed events.
  \<^descr>[Serving_Geo, Serving_Jobs, Serving_Stops] \<open>jobs\<close>: geometry, heartbeat monitor, deviation detector, stop detector and ETA estimator. A
    tick is a function of the world (Redis, database, hub); \<open>Run\<close> is a sequence of ticks with the rest of the system in between.
  \<^descr>[Serving_Main] \<open>main.go\<close> of the serving service: start-up, route table with its guards, mux, health.
  \<^descr>[Serving_Frame] What each request may do to the database: the locale \<open>table_contract\<close> and its interpretations.
  \<^descr>[Store_Programs, Serving_Programs] Programs that make one call at a time, with rely and guarantee conditions in the locale
    \<open>interference\<close>; the four jobs as such programs, and what each of their calls may do.
  \<^descr>[Fleet_System] The running serving process, and both processes over the shared stores.
  \<^descr>[Init_Db, Seed_Redis] The two scripts.
  \<^descr>[Spec2Isabelle] This theory: the properties that relate the two services.

  \<^bold>\<open>What is shown.\<close>

  \<^item> Access: a message is accepted only for a fleet that Redis maps its key to, now or within the lifetime of the cache; a WebSocket and
    the fleet-scoped endpoints likewise; both services decide alike. The scope check of the alert history can be
    passed with another fleet, and ten endpoints have no scope.
  \<^item> The pipeline neither loses, duplicates nor reorders accepted messages while it runs. Over the whole process, every message
    answered 202 is accounted for in every state; with a database that answers and no signal it is stored, handed to Redis and
    evaluated exactly once when the workers come to rest, which they do; otherwise a batch is stored at most twice. What a
    shutdown loses is stated. A worker that can be interrupted between its calls refines the sequential writer.
  \<^item> Under both services together, with the workers and the jobs interrupted between any two calls, the database keeps every key
    and constraint and only evolves; the ingestion process runs beside the serving service as among arbitrary clients, and the
    hub as in its own environment; what it accepts is stored exactly once whatever the serving service does meanwhile. A job that
    is not interrupted does what its tick does.
  \<^item> Alerts are raised exactly for exceeded thresholds, stay five minutes apart, and concurrent evaluators exclude each other; the interleaved
    workers refine the sequential evaluator. Workflow, deviation detector and initialisation keep the constraints of the table.
  \<^item> The hub panics in no interleaving and a client sees only its fleet; a silent peer is dropped after a minute, one that answers pings
    is kept. What the ingestion service publishes and stores is what
    the hub and the panel of the serving service show.
  \<^item> The jobs: announcements are true, trips and stops only move forward, estimates are bounded, the distance to a route is the least
    distance to its segments. The summary ends and its numbers add up; panel and trip detail agree.
  \<^item> The initialisation succeeds, can be repeated and keeps the rows; the seeding passes its own verification.

  \<^bold>\<open>Bounds, parameters and loops.\<close> Nothing is bounded by fuel. The only loop that may not end, the scan of \<open>countLiveStates\<close>, is a
  \<open>partial_function\<close>, and that it returns is proved from the documented end of an iteration; all other loops run over
  lists. Printers and parsers of times and floating-point texts, the wall clock, the commands of Redis, \<open>pgxpool\<close> and
  the conversion of out-of-range floats are parameters; what a theorem needs of them is among its
  hypotheses. \<open>float64\<close> is exact on finite values: rounding is not modelled. Two rows that an \<open>ORDER BY\<close> leaves equal keep the
  order of the table. JSON texts are represented by their values.

  \<^bold>\<open>Granularity.\<close> In the ingestion process a worker, and in the serving process a job, is interrupted between any two calls to a store or
  to the hub. The stop detector works on a snapshot of its rows; that its statements still fit when they run rests on the others
  leaving trips and their progress alone, which is proved of each of them. A request of the API is one step: it makes at most one
  statement that writes. The two sleeps of a shutdown may take any time.

  \<^bold>\<open>Not modelled.\<close> Frames on the wire and the upgrade of a connection (gorilla/websocket and TCP); sockets, and how long \<open>net/http\<close> waits
  in a shutdown; printing and logging; the connection pools; the generated PostGIS
  column and the contents of indexes; the tests and the k6 scripts.
\<close>

section \<open>The two services against each other\<close>


text \<open>C12. A position reaches the dashboards of its fleet: what the state writer publishes for a telemetry message goes to a channel
  that the hub subscribes to for the fleet of the message and for no other, and the hub decodes it into the position
  event with the vehicle, position, speed and flags of the message and its time of receipt in full seconds.\<close>

theorem position_reaches_dashboard:
  assumes "queue_state m = Inr cmds" "in_int64 (Unix (tm_ReceivedAt m))"
  shows "pipe_published cmds = [(telemetry_channel (tm_FleetID m), state_json m)] \<and>
    (\<forall>f. telemetry_channel (tm_FleetID m) \<in> fleet_channels f \<longleftrightarrow> f = tm_FleetID m) \<and>
    drainTelemetry fmt (tm_FleetID m) (state_json m) = Some (tm_FleetID m, newPositionEvent fmt
      \<lparr>vp_VehicleID = tm_VehicleID m, vp_Lat = tm_Latitude m, vp_Lng = tm_Longitude m, vp_SpeedKmh = tm_SpeedKmh m,
       vp_IsMoving = tm_IsMoving m, vp_EngineOn = tm_EngineOn m, vp_ReceivedAt = time_Unix (Unix (tm_ReceivedAt m))\<rparr>)"
proof -
  have fin: "json_ok (state_json m)" using assms(1) by (auto simp: queue_state_def Marshal_def split: if_splits)
  have own: "telemetry_channel (tm_FleetID m) \<in> fleet_channels f \<longleftrightarrow> f = tm_FleetID m" for f
    using fleet_channels_disjoint [of f "tm_FleetID m"] by (auto simp: fleet_channels_def telemetry_channel_def)
  have pub: "pipe_published cmds = [(telemetry_channel (tm_FleetID m), state_json m)]"
    using queue_state_Inr [OF assms(1)] by simp
  have "decode_struct set_position (state_json m)
      (\<lparr>vp_VehicleID = [], vp_Lat = Fin 0, vp_Lng = Fin 0, vp_SpeedKmh = Fin 0, vp_IsMoving = False,
        vp_EngineOn = False, vp_ReceivedAt = 0\<rparr>, 0) =
    Some (\<lparr>vp_VehicleID = tm_VehicleID m, vp_Lat = tm_Latitude m, vp_Lng = tm_Longitude m, vp_SpeedKmh = tm_SpeedKmh m,
       vp_IsMoving = tm_IsMoving m, vp_EngineOn = tm_EngineOn m, vp_ReceivedAt = 0\<rparr>, Unix (tm_ReceivedAt m))"
    using fin assms(2)
    by (simp add: state_json_def stateData_def set_position_def names_field_def lower_char_def Let_def)
  then show ?thesis
    using fin own pub
    by (simp add: drainTelemetry_def Marshal_def newPositionEvent_def envelope_def state_json_def stateData_def)
qed

theorem position_reaches_dashboard_witness:
  "drainTelemetry (\<lambda>t. ''now'') ''fleet-a'' (state_json sample_msg) = Some (''fleet-a'', newPositionEvent (\<lambda>t. ''now'')
      \<lparr>vp_VehicleID = ''TRUCK-1'', vp_Lat = tm_Latitude sample_msg, vp_Lng = tm_Longitude sample_msg, vp_SpeedKmh = Fin 120,
       vp_IsMoving = True, vp_EngineOn = True, vp_ReceivedAt = 1700000001 * Second\<rparr>)"
proof -
  have "\<exists>cmds. queue_state sample_msg = Inr cmds"
    by (simp add: queue_state_def Marshal_def state_json_def stateData_def sample_msg_def)
  then obtain cmds where q: "queue_state sample_msg = Inr cmds" ..
  have "in_int64 (Unix (tm_ReceivedAt sample_msg))" by (simp add: sample_msg_def Unix_def in_int64_def Second_def)
  from position_reaches_dashboard [OF q this, of "\<lambda>t. ''now''"] show ?thesis
    by (simp add: sample_msg_def Unix_def time_Unix_def Second_def)
qed

text \<open>An alert reaches the dashboards of its fleet: the payload the evaluator publishes for a message and a rule goes to a channel
  of the fleet of the message and of no other, and the hub decodes it into the alert event with the vehicle, the type,
  the severity and the value that was stored, and the identifier 0.\<close>

theorem alert_reaches_dashboard:
  assumes "is_finite (getTriggerValue m (rule_Type rule))" "in_int64 (Unix now)"
  shows "(\<forall>f. alerts_channel (tm_FleetID m) \<in> fleet_channels f \<longleftrightarrow> f = tm_FleetID m) \<and>
    drainAlerts fmt (tm_FleetID m) (alertPayload now m rule (getTriggerValue m (rule_Type rule))) =
      Some (tm_FleetID m, newAlertEvent fmt
        \<lparr>va_AlertID = 0, va_VehicleID = tm_VehicleID m, va_AlertType = rule_Type rule, va_Severity = rule_Severity rule,
         va_TriggeredValue = getTriggerValue m (rule_Type rule), va_CreatedAt = time_Unix (Unix now)\<rparr>)"
proof -
  have own: "alerts_channel (tm_FleetID m) \<in> fleet_channels f \<longleftrightarrow> f = tm_FleetID m" for f
    using fleet_channels_disjoint [of f "tm_FleetID m"] by (auto simp: fleet_channels_def alerts_channel_def)
  have "drainAlerts fmt (tm_FleetID m) (alertPayload now m rule v) =
      Some (tm_FleetID m, newAlertEvent fmt
        \<lparr>va_AlertID = 0, va_VehicleID = tm_VehicleID m, va_AlertType = rule_Type rule, va_Severity = rule_Severity rule,
         va_TriggeredValue = v, va_CreatedAt = time_Unix (Unix now)\<rparr>)" if "is_finite v" for v
    using that assms(2)
    by (simp add: drainAlerts_def alertPayload_def Marshal_def set_alert_def names_field_def lower_char_def Let_def
        newAlertEvent_def envelope_def)
  then show ?thesis using own assms(1) by blast
qed

theorem alert_reaches_dashboard_witness:
  "drainAlerts (\<lambda>t. ''now'') ''fleet-a'' (alertPayload 0 sample_msg (DefaultAlertRules ! 0) (Fin 120)) =
     Some (''fleet-a'', newAlertEvent (\<lambda>t. ''now'')
        \<lparr>va_AlertID = 0, va_VehicleID = ''TRUCK-1'', va_AlertType = ''SPEEDING'', va_Severity = ''WARNING'',
         va_TriggeredValue = Fin 120, va_CreatedAt = 0\<rparr>)"
proof -
  have v: "getTriggerValue sample_msg (rule_Type (DefaultAlertRules ! 0)) = Fin 120"
    by (simp add: getTriggerValue_def DefaultAlertRules_def sample_msg_def)
  then show ?thesis
    using alert_reaches_dashboard [of sample_msg "DefaultAlertRules ! 0" 0 "\<lambda>t. ''now''"]
    by (simp add: DefaultAlertRules_def sample_msg_def AlertSpeeding_def SeverityWarning_def Unix_def time_Unix_def in_int64_def)
qed


definition toy_print :: "float64 \<Rightarrow> string" where
  "toy_print x = (if x = Fin 90 then ''90'' else ''0'')"

definition toy_env :: srv_env where
  "toy_env = sample_env\<lparr>sv_parseFloat := (\<lambda>s. if s = ''90'' then Fin 90 else Fin 0)\<rparr>"

definition cruising :: TelemetryMessage where
  "cruising = sample_msg\<lparr>tm_SpeedKmh := Fin 90, tm_FuelPct := Fin 0, tm_EngineTempC := Fin 90, tm_BatteryVoltage := Fin 0\<rparr>"


end
